(* ===== verification/Prelude.thy ===== *)
theory Prelude
  imports Main "HOL-Library.Word"
begin

text \<open>
  Shared vocabulary of the development: the machine integers of the C sources, the result
  type in which every \<open>ST_ERR\<close>, every failed \<open>ASSERT\<close> and every undefined behaviour of the
  sources is a value, bounds-checked array reads, byte-addressed memory with \<open>memcpy\<close> and
  little-endian 64-bit loads and stores, and the lemmas about them that the components use.
\<close>

unbundle bit_operations_syntax

named_theorems res_simps \<open>equations and inversion rules of the result type\<close>
named_theorems mem_simps \<open>equations of byte memory and little-endian encodings\<close>

section \<open>Machine integers\<close>

type_synonym u8 = "8 word"
type_synonym u16 = "16 word"
type_synonym u32 = "32 word"
type_synonym u64 = "64 word"
type_synonym u128 = "128 word"

text \<open>C's \<open>NULL\<close>, \<open>UINT64_MAX\<close> and the stack offset arithmetic of the sources.\<close>

definition UINT64_MAX :: u64 where
  "UINT64_MAX = - 1"

section \<open>Results\<close>

text \<open>
  The reasons a run can stop. \<open>ST_ERR code msg\<close> is the macro of that name in
  \<open>definitions.h\<close> (print and \<open>exit(code)\<close>); \<open>ASSERT_fail\<close> is the same macro reached through
  \<open>ASSERT\<close>, which exists only when the library is built with \<open>_CHECKS\<close>; \<open>UB\<close> marks an
  operation the C standard leaves undefined (an index past the end of an object, an
  over-wide shift, a copy past the end of a register).
\<close>

datatype err_msg =
    Err_no_const_location | Err_bad_location_type | Err_const_pool
  | Err_bad_live_value | Err_const_too_small | Err_bad_operand | Err_bad_inst
  | Err_bad_register | Err_no_ra_reg | Err_no_align
  | Err_src_site | Err_dest_site | Err_ondemand

datatype ub_kind =
    Out_of_bounds | Bad_shift | Register_overrun | Null_deref | Divide_by_zero | Uninitialised
  | Register_address | Use_after_free | Signed_overflow

datatype st_error =
    ST_ERR int err_msg
  | ASSERT_fail
  | UB ub_kind

type_synonym 'a res = "st_error + 'a"

definition bindE :: "'e + 'a \<Rightarrow> ('a \<Rightarrow> 'e + 'b) \<Rightarrow> 'e + 'b" where
  "bindE m f = (case m of Inl e \<Rightarrow> Inl e | Inr x \<Rightarrow> f x)"

text \<open>
  \<open>ASSERT(expr, msg)\<close> of \<open>definitions.h\<close>: checked when the build defines \<open>_CHECKS\<close>, nothing
  otherwise. The flag is an argument of every function that contains an assertion.
\<close>

definition ASSERT :: "bool \<Rightarrow> bool \<Rightarrow> unit res" where
  "ASSERT checks expr = (if checks \<and> \<not> expr then Inl ASSERT_fail else Inr ())"

lemma bindE_Inl [simp, res_simps]: "bindE (Inl e) f = Inl e"
  by (simp add: bindE_def)

lemma bindE_Inr [simp, res_simps]: "bindE (Inr x) f = f x"
  by (simp add: bindE_def)

lemma bindE_eq_Inr_iff [res_simps]:
  "bindE m f = Inr y \<longleftrightarrow> (\<exists>x. m = Inr x \<and> f x = Inr y)"
  by (cases m) auto

lemma bindE_eq_Inl_iff:
  "bindE m f = Inl e \<longleftrightarrow> m = Inl e \<or> (\<exists>x. m = Inr x \<and> f x = Inl e)"
  by (cases m) auto

lemma bindE_assoc: "bindE (bindE m f) g = bindE m (\<lambda>x. bindE (f x) g)"
  by (cases m) auto

lemma bindE_cong [fundef_cong]:
  "m = m' \<Longrightarrow> (\<And>x. m' = Inr x \<Longrightarrow> f x = f' x) \<Longrightarrow> bindE m f = bindE m' f'"
  by (cases m') auto

lemma bindE_InrE [elim]:
  assumes "bindE m f = Inr y"
  obtains x where "m = Inr x" and "f x = Inr y"
  using assms by (auto simp: bindE_eq_Inr_iff)

lemma ASSERT_eq_Inr_iff [res_simps]: "ASSERT checks expr = Inr u \<longleftrightarrow> (checks \<longrightarrow> expr)"
  by (auto simp: ASSERT_def)

lemma ASSERT_eq_Inl_iff: "ASSERT checks expr = Inl e \<longleftrightarrow> checks \<and> \<not> expr \<and> e = ASSERT_fail"
  by (auto simp: ASSERT_def)

lemma ASSERT_True [simp]: "ASSERT checks True = Inr ()"
  by (simp add: ASSERT_def)

lemma ASSERT_unchecked [simp]: "ASSERT False expr = Inr ()"
  by (simp add: ASSERT_def)

lemma ASSERT_holds: "(checks \<longrightarrow> expr) \<Longrightarrow> ASSERT checks expr = Inr ()"
  by (simp add: ASSERT_def)

section \<open>Arrays\<close>

text \<open>Reading an array of the sources outside its bounds is undefined behaviour.\<close>

definition array_get :: "'a list \<Rightarrow> nat \<Rightarrow> 'a res" where
  "array_get xs i = (if i < length xs then Inr (xs ! i) else Inl (UB Out_of_bounds))"

lemma array_get_in [simp]: "i < length xs \<Longrightarrow> array_get xs i = Inr (xs ! i)"
  by (simp add: array_get_def)

lemma array_get_out [simp]: "length xs \<le> i \<Longrightarrow> array_get xs i = Inl (UB Out_of_bounds)"
  by (simp add: array_get_def)

lemma array_get_eq_Inr_iff [res_simps]: "array_get xs i = Inr x \<longleftrightarrow> i < length xs \<and> x = xs ! i"
  by (auto simp: array_get_def)

section \<open>Byte memory\<close>

type_synonym mem = "u64 \<Rightarrow> u8"

definition read_bytes :: "mem \<Rightarrow> u64 \<Rightarrow> nat \<Rightarrow> u8 list" where
  "read_bytes m a n = map (\<lambda>i. m (a + of_nat i)) [0..<n]"

definition write_bytes :: "mem \<Rightarrow> u64 \<Rightarrow> u8 list \<Rightarrow> mem" where
  "write_bytes m a bs = (\<lambda>x. if unat (x - a) < length bs then bs ! unat (x - a) else m x)"

text \<open>Two byte ranges that share no address, wrap-around at \<open>2 ^ 64\<close> included.\<close>

definition disjoint_ranges :: "u64 \<Rightarrow> nat \<Rightarrow> u64 \<Rightarrow> nat \<Rightarrow> bool" where
  "disjoint_ranges a n b k \<longleftrightarrow> n \<le> unat (b - a) \<and> k \<le> unat (a - b)"

text \<open>
  Little-endian encodings. \<open>le_bytes n w\<close> is the first \<open>n\<close> bytes of \<open>w\<close> in memory order.
\<close>

definition le_bytes :: "nat \<Rightarrow> 'a::len word \<Rightarrow> u8 list" where
  "le_bytes n w = map (\<lambda>i. ucast (drop_bit (8 * i) w)) [0..<n]"

definition le_word :: "u8 list \<Rightarrow> 'a::len word" where
  "le_word bs = foldr (\<lambda>b acc. ucast b OR push_bit 8 acc) bs 0"

definition load64 :: "mem \<Rightarrow> u64 \<Rightarrow> u64" where
  "load64 m a = le_word (read_bytes m a 8)"

definition store64 :: "mem \<Rightarrow> u64 \<Rightarrow> u64 \<Rightarrow> mem" where
  "store64 m a w = write_bytes m a (le_bytes 8 w)"

lemma length_read_bytes [simp]: "length (read_bytes m a n) = n"
  by (simp add: read_bytes_def)

lemma length_le_bytes [simp]: "length (le_bytes n w) = n"
  by (simp add: le_bytes_def)

lemma nth_read_bytes [simp]: "i < n \<Longrightarrow> read_bytes m a n ! i = m (a + of_nat i)"
  by (simp add: read_bytes_def)

lemma unat_less_64: "unat (w :: u64) < 2 ^ 64"
  using unsigned_less[of w, where 'a = nat] by simp

lemma unat_of_nat_small: "i < 2 ^ 64 \<Longrightarrow> unat (of_nat i :: u64) = i"
  by (simp add: unat_of_nat take_bit_nat_eq_self)

lemma read_write_same [mem_simps]:
  assumes "length bs \<le> 2 ^ 64" and "n = length bs"
  shows "read_bytes (write_bytes m a bs) a n = bs"
proof (rule nth_equalityI)
  show "length (read_bytes (write_bytes m a bs) a n) = length bs"
    using assms by simp
  fix i assume "i < length (read_bytes (write_bytes m a bs) a n)"
  then have "i < n" by simp
  with assms have "unat (of_nat i :: u64) = i" by (intro unat_of_nat_small) simp
  with \<open>i < n\<close> assms show "read_bytes (write_bytes m a bs) a n ! i = bs ! i"
    by (simp add: write_bytes_def)
qed

lemma disjoint_ranges_sym: "disjoint_ranges a n b k \<longleftrightarrow> disjoint_ranges b k a n"
  by (auto simp: disjoint_ranges_def)

lemma unat_add_sub_ge:
  fixes a b :: u64
  assumes "n \<le> unat (b - a)" and "k \<le> unat (a - b)" and "i < k"
  shows "n \<le> unat (b + of_nat i - a)"
proof -
  define d where "d = b - a"
  have i64: "unat (of_nat i :: u64) = i"
    using assms(2,3) unat_less_64[of "a - b"] by (intro unat_of_nat_small) simp
  have "a - b = - d" by (simp add: d_def)
  with assms(2,3) have i: "i < unat (- d)" by simp
  have "unat d + i < 2 ^ 64"
  proof (cases "d = 0")
    case True
    with i show ?thesis by simp
  next
    case False
    then have "unat (- d) = 2 ^ 64 - unat d"
      using unat_sub_if_size[of 0 d] by (simp add: word_size unat_eq_zero)
    with i show ?thesis by simp
  qed
  then have "unat (d + of_nat i) = unat d + i"
    using i64 by (subst unat_add_lem[THEN iffD1]) simp_all
  then have "n \<le> unat (d + of_nat i)" using assms(1) by (simp add: d_def)
  moreover have "b + of_nat i - a = d + of_nat i" by (simp add: d_def)
  ultimately show ?thesis by (simp only:)
qed

lemma read_write_other [mem_simps]:
  assumes "disjoint_ranges a (length bs) b n"
  shows "read_bytes (write_bytes m a bs) b n = read_bytes m b n"
proof (rule nth_equalityI)
  fix i assume "i < length (read_bytes (write_bytes m a bs) b n)"
  then have "i < n" by simp
  with assms have "length bs \<le> unat (b + of_nat i - a)"
    unfolding disjoint_ranges_def by (blast intro: unat_add_sub_ge)
  with \<open>i < n\<close> show "read_bytes (write_bytes m a bs) b n ! i = read_bytes m b n ! i"
    by (simp add: write_bytes_def)
qed simp

lemma write_bytes_Nil [simp]: "write_bytes m a [] = m"
  by (simp add: write_bytes_def)

lemma bit_le_word [mem_simps]:
  "bit (le_word bs :: 'a::len word) n \<longleftrightarrow>
     n < LENGTH('a) \<and> n div 8 < length bs \<and> bit (bs ! (n div 8)) (n mod 8)"
proof (induction bs arbitrary: n)
  case Nil
  show ?case by (simp add: le_word_def)
next
  case (Cons b bs)
  have "bit (le_word (b # bs) :: 'a word) n \<longleftrightarrow>
    n < LENGTH('a) \<and> (bit b n \<or> 8 \<le> n \<and> bit (le_word bs :: 'a word) (n - 8))"
    by (auto simp: le_word_def bit_simps)
  also have "\<dots> \<longleftrightarrow> n < LENGTH('a) \<and> n div 8 < length (b # bs) \<and> bit ((b # bs) ! (n div 8)) (n mod 8)"
  proof (cases "n < 8")
    case True
    then show ?thesis by simp
  next
    case False
    then have "n div 8 = Suc ((n - 8) div 8)" and "n mod 8 = (n - 8) mod 8"
      by (simp_all add: le_div_geq le_mod_geq)
    moreover have "\<not> bit b n" using False by (auto dest: bit_imp_le_length)
    ultimately show ?thesis using False by (auto simp: Cons.IH)
  qed
  finally show ?case .
qed

lemma nth_le_bytes: "i < n \<Longrightarrow> le_bytes n w ! i = ucast (drop_bit (8 * i) w)"
  by (simp add: le_bytes_def)

lemma le_word_le_bytes [mem_simps]:
  assumes "LENGTH('a::len) = 8 * n"
  shows "le_word (le_bytes n (w :: 'a word)) = w"
proof (rule bit_word_eqI)
  fix k assume k: "k < LENGTH('a)"
  then have "k div 8 < n" using assms by (simp add: div_less_iff_less_mult mult.commute)
  then show "bit (le_word (le_bytes n w) :: 'a word) k \<longleftrightarrow> bit w k"
    using k by (auto simp: bit_le_word nth_le_bytes bit_simps)
qed

lemma le_bytes_le_word [mem_simps]:
  assumes "LENGTH('a::len) = 8 * n" and "length bs = n"
  shows "le_bytes n (le_word bs :: 'a word) = bs"
proof (rule nth_equalityI)
  show "length (le_bytes n (le_word bs :: 'a word)) = length bs" using assms by simp
  fix i assume "i < length (le_bytes n (le_word bs :: 'a word))"
  then have i: "i < n" by simp
  show "le_bytes n (le_word bs :: 'a word) ! i = bs ! i"
  proof (rule bit_word_eqI)
    fix k assume "k < LENGTH(8)"
    then have k: "k < 8" by simp
    with i assms(1) have "8 * i + k < LENGTH('a)" by simp
    with i k assms show "bit (le_bytes n (le_word bs :: 'a word) ! i) k \<longleftrightarrow> bit (bs ! i) k"
      by (simp add: nth_le_bytes bit_simps bit_le_word)
  qed
qed

lemma le_bytes_inj [simp]: "le_bytes 8 v = le_bytes 8 w \<longleftrightarrow> v = (w :: u64)"
proof
  assume "le_bytes 8 v = le_bytes 8 w"
  then have "le_word (le_bytes 8 v) = (le_word (le_bytes 8 w) :: u64)" by simp
  then show "v = w" by (simp add: le_word_le_bytes)
qed simp

lemma load_store_same [mem_simps]: "load64 (store64 m a w) a = w"
  by (simp add: load64_def store64_def read_write_same le_word_le_bytes)

lemma load_store_other [mem_simps]:
  "disjoint_ranges a 8 b 8 \<Longrightarrow> load64 (store64 m a w) b = load64 m b"
  by (simp add: load64_def store64_def read_write_other)

lemma read_store_other [mem_simps]:
  "disjoint_ranges a 8 b n \<Longrightarrow> read_bytes (store64 m a w) b n = read_bytes m b n"
  by (simp add: store64_def read_write_other)

text \<open>Writing byte by byte, the equation used to run the models.\<close>

lemma write_bytes_Cons: "write_bytes m a (b # bs) = (write_bytes m (a + 1) bs)(a := b)"
proof
  fix x
  show "write_bytes m a (b # bs) x = ((write_bytes m (a + 1) bs)(a := b)) x"
  proof (cases "x = a")
    case False
    then have "x - a \<noteq> 0" by simp
    moreover have "x - (a + 1) = x - a - 1" by simp
    ultimately have "unat (x - a) = Suc (unat (x - (a + 1)))"
      by (metis Suc_pred' unat_gt_0 unat_minus_one)
    then show ?thesis using False by (simp add: write_bytes_def)
  qed (simp add: write_bytes_def)
qed

declare write_bytes_Nil [code] write_bytes_Cons [code]

end
