(* ===== verification/Bitmap.thy ===== *)
theory Bitmap
  imports Prelude
begin

text \<open>
  The variable-size bitmap of \<open>lib/stack_transformation/include/bitmap.h\<close> and
  \<open>src/bitmap.c\<close>. A \<open>bitmap\<close> is a size in bits and a pointer to an array of 64-bit words; here
  the pointer is an index into an array of words (the runtime points all bitmaps of a context
  into one pool), \<open>None\<close> being \<open>NULL\<close>. The set that a bitmap represents is its abstraction, and
  every operation is proved to act on that set, where the C shift \<open>1 << fine\<close> (an \<open>int\<close>
  shift) is defined.
\<close>

section \<open>Data and operations\<close>

definition STORAGE_TYPE_BITS :: nat where
  "STORAGE_TYPE_BITS = 64"

definition MAX_BITMAP_SIZE :: nat where
  "MAX_BITMAP_SIZE = 65535"

record bitmap =
  bm_size :: nat
  bm_bits :: "nat option"

text \<open>The number of words a bitmap of \<open>num\<close> bits needs, and its size in bytes.\<close>

definition bitmap_words :: "nat \<Rightarrow> nat" where
  "bitmap_words num =
     (if num mod STORAGE_TYPE_BITS \<noteq> 0 then num div STORAGE_TYPE_BITS + 1
      else num div STORAGE_TYPE_BITS)"

definition bitmap_size :: "nat \<Rightarrow> nat" where
  "bitmap_size num = 8 * bitmap_words num"

text \<open>
  \<open>1 << fine\<close>: the literal is an \<open>int\<close>, so the shift is defined only when \<open>2 ^ fine\<close> is
  representable in 32 signed bits; the result is then converted to \<open>uint64_t\<close>.
\<close>

definition int_shl_1 :: "nat \<Rightarrow> u64 res" where
  "int_shl_1 fine = (if fine < 31 then Inr (push_bit fine 1) else Inl (UB Bad_shift))"

text \<open>Allocation of a zeroed bitmap: the array it owns starts at index 0.\<close>

definition bitmap_init :: "bool \<Rightarrow> nat \<Rightarrow> (u64 list \<times> bitmap) res" where
  "bitmap_init checks sz =
     bindE (ASSERT checks (sz < MAX_BITMAP_SIZE)) (\<lambda>_.
       Inr (replicate (bitmap_words sz) 0, \<lparr>bm_size = sz, bm_bits = Some 0\<rparr>))"

definition bits_ptr :: "bool \<Rightarrow> bitmap \<Rightarrow> nat res" where
  "bits_ptr checks bm =
     bindE (ASSERT checks (bm_bits bm \<noteq> None)) (\<lambda>_.
       case bm_bits bm of None \<Rightarrow> Inl (UB Null_deref) | Some b \<Rightarrow> Inr b)"

definition bitmap_set :: "bool \<Rightarrow> u64 list \<Rightarrow> bitmap \<Rightarrow> nat \<Rightarrow> u64 list res" where
  "bitmap_set checks arr bm num =
     bindE (bits_ptr checks bm) (\<lambda>b.
     bindE (ASSERT checks (num < bm_size bm)) (\<lambda>_.
     let coarse = num div STORAGE_TYPE_BITS; fine = num mod STORAGE_TYPE_BITS in
     bindE (int_shl_1 fine) (\<lambda>bitm.
     bindE (array_get arr (b + coarse)) (\<lambda>w.
       Inr (arr[b + coarse := w OR bitm])))))"

text \<open>\<open>memset\<close> of the bitmap's words; running past the array is undefined.\<close>

definition bitmap_fill :: "bool \<Rightarrow> u64 list \<Rightarrow> bitmap \<Rightarrow> u64 \<Rightarrow> u64 list res" where
  "bitmap_fill checks arr bm w =
     bindE (bits_ptr checks bm) (\<lambda>b.
       let n = bitmap_words (bm_size bm) in
       if b + n \<le> length arr then Inr (take b arr @ replicate n w @ drop (b + n) arr)
       else Inl (UB Out_of_bounds))"

definition bitmap_set_all :: "bool \<Rightarrow> u64 list \<Rightarrow> bitmap \<Rightarrow> u64 list res" where
  "bitmap_set_all checks arr bm = bitmap_fill checks arr bm (- 1)"

definition bitmap_clear_all :: "bool \<Rightarrow> u64 list \<Rightarrow> bitmap \<Rightarrow> u64 list res" where
  "bitmap_clear_all checks arr bm = bitmap_fill checks arr bm 0"

definition bitmap_is_set :: "bool \<Rightarrow> u64 list \<Rightarrow> bitmap \<Rightarrow> nat \<Rightarrow> bool res" where
  "bitmap_is_set checks arr bm num =
     bindE (bits_ptr checks bm) (\<lambda>b.
     bindE (ASSERT checks (num < bm_size bm)) (\<lambda>_.
     let coarse = num div STORAGE_TYPE_BITS; fine = num mod STORAGE_TYPE_BITS in
     bindE (array_get arr (b + coarse)) (\<lambda>w.
     bindE (int_shl_1 fine) (\<lambda>bitm.
       Inr ((w AND bitm) \<noteq> 0)))))"

section \<open>The set a bitmap represents\<close>

text \<open>
  A bitmap is well formed in an array when its words lie inside it. Bits 31 to 63 of a word
  are out of reach of the C shift; \<open>shiftable\<close> names the bit numbers the macros can address.
\<close>

definition bitmap_wf :: "u64 list \<Rightarrow> bitmap \<Rightarrow> bool" where
  "bitmap_wf arr bm \<longleftrightarrow>
     (case bm_bits bm of None \<Rightarrow> False
      | Some b \<Rightarrow> b + bitmap_words (bm_size bm) \<le> length arr)"

definition bitmap_elems :: "u64 list \<Rightarrow> bitmap \<Rightarrow> nat set" where
  "bitmap_elems arr bm =
     {n. n < bm_size bm \<and> bit (arr ! (the (bm_bits bm) + n div 64)) (n mod 64)}"

definition shiftable :: "bitmap \<Rightarrow> nat \<Rightarrow> bool" where
  "shiftable bm n \<longleftrightarrow> n < bm_size bm \<and> n mod 64 < 31"

lemma coarse_less_words:
  assumes "n < sz" shows "n div 64 < bitmap_words sz"
proof (cases "sz mod 64 = 0")
  case True
  then have "sz = sz div 64 * 64" by presburger
  with assms have "n < sz div 64 * 64" by simp
  then have "n div 64 < sz div 64" by (rule less_mult_imp_div_less)
  with True show ?thesis by (simp add: bitmap_words_def STORAGE_TYPE_BITS_def)
next
  case False
  have "n div 64 \<le> sz div 64" using assms by (simp add: div_le_mono)
  with False show ?thesis by (simp add: bitmap_words_def STORAGE_TYPE_BITS_def)
qed

lemma bitmap_wf_cases:
  assumes "bitmap_wf arr bm"
  obtains b where "bm_bits bm = Some b" and "b + bitmap_words (bm_size bm) \<le> length arr"
  using assms by (auto simp: bitmap_wf_def split: option.splits)

lemma bits_ptr_wf [simp]: "bm_bits bm = Some b \<Longrightarrow> bits_ptr checks bm = Inr b"
  by (simp add: bits_ptr_def)

lemma bitmap_is_set_wf:
  assumes "bitmap_wf arr bm" and "shiftable bm n"
  shows "bitmap_is_set checks arr bm n = Inr (n \<in> bitmap_elems arr bm)"
proof -
  obtain b where b: "bm_bits bm = Some b" "b + bitmap_words (bm_size bm) \<le> length arr"
    using assms(1) by (rule bitmap_wf_cases)
  moreover have "n div 64 < bitmap_words (bm_size bm)"
    using assms(2) by (simp add: shiftable_def coarse_less_words)
  ultimately show ?thesis
    using assms(2)
    by (simp add: bitmap_is_set_def shiftable_def int_shl_1_def STORAGE_TYPE_BITS_def
        bitmap_elems_def Let_def and_exp_eq_0_iff_not_bit)
qed

lemma bitmap_set_wf:
  assumes "bitmap_wf arr bm" and "shiftable bm n"
  shows "\<exists>arr'. bitmap_set checks arr bm n = Inr arr' \<and> bitmap_wf arr' bm \<and>
    length arr' = length arr \<and> bitmap_elems arr' bm = insert n (bitmap_elems arr bm)"
proof -
  obtain b where b: "bm_bits bm = Some b" "b + bitmap_words (bm_size bm) \<le> length arr"
    using assms(1) by (rule bitmap_wf_cases)
  have words: "k < bm_size bm \<Longrightarrow> b + k div 64 < length arr" for k
    using b(2) coarse_less_words[of k "bm_size bm"] by simp
  define i where "i = b + n div 64"
  define arr' where "arr' = arr[i := arr ! i OR push_bit (n mod 64) 1]"
  have n: "n < bm_size bm" "n mod 64 < 31" using assms(2) by (simp_all add: shiftable_def)
  then have run: "bitmap_set checks arr bm n = Inr arr'"
    using b(1) words[of n]
    by (simp add: bitmap_set_def int_shl_1_def STORAGE_TYPE_BITS_def arr'_def i_def Let_def)
  have "k \<in> bitmap_elems arr' bm \<longleftrightarrow> k = n \<or> k \<in> bitmap_elems arr bm" for k
  proof (cases "k < bm_size bm")
    case False
    with n show ?thesis by (auto simp: bitmap_elems_def)
  next
    case True
    have k: "k = n \<longleftrightarrow> k div 64 = n div 64 \<and> k mod 64 = n mod 64"
      by (metis div_mult_mod_eq)
    show ?thesis
      using True n b(1) words[of n]
      by (cases "k div 64 = n div 64")
         (auto simp: k bitmap_elems_def arr'_def i_def bit_simps nth_list_update)
  qed
  with run b show ?thesis
    by (intro exI[of _ arr']) (auto simp: bitmap_wf_def arr'_def)
qed

lemma bitmap_fill_elems:
  assumes "bitmap_wf arr bm" and "bitmap_fill checks arr bm w = Inr arr'"
  shows "bitmap_elems arr' bm = {n. n < bm_size bm \<and> bit w (n mod 64)}"
proof -
  obtain b where b: "bm_bits bm = Some b" "b + bitmap_words (bm_size bm) \<le> length arr"
    using assms(1) by (rule bitmap_wf_cases)
  with assms(2) have arr': "arr' = take b arr @ replicate (bitmap_words (bm_size bm)) w @
      drop (b + bitmap_words (bm_size bm)) arr"
    by (simp add: bitmap_fill_def Let_def)
  have "arr' ! (b + n div 64) = w" if "n < bm_size bm" for n
    using that b(2) coarse_less_words[of n "bm_size bm"]
    by (simp add: arr' nth_append)
  then show ?thesis using b(1) by (auto simp: bitmap_elems_def)
qed

section \<open>The interface of a set of register numbers\<close>

text \<open>
  What the unwinder relies on: a partial insertion and a partial membership test that act on
  a set of numbers, on the numbers they can address. The unwinder records the registers a
  prologue saved by inserting them one after the other; the locale proves once that the
  recorded set is the union.
\<close>

locale register_set =
  fixes wf :: "'s \<Rightarrow> bool"
    and ok :: "'s \<Rightarrow> nat \<Rightarrow> bool"
    and elems :: "'s \<Rightarrow> nat set"
    and ins :: "'s \<Rightarrow> nat \<Rightarrow> 's res"
    and is_in :: "'s \<Rightarrow> nat \<Rightarrow> bool res"
  assumes ins_law: "wf s \<Longrightarrow> ok s n \<Longrightarrow>
      \<exists>s'. ins s n = Inr s' \<and> wf s' \<and> elems s' = insert n (elems s) \<and> ok s' = ok s"
    and is_in_law: "wf s \<Longrightarrow> ok s n \<Longrightarrow> is_in s n = Inr (n \<in> elems s)"
begin

primrec ins_all :: "'s \<Rightarrow> nat list \<Rightarrow> 's res" where
  "ins_all s [] = Inr s"
| "ins_all s (n # ns) = bindE (ins s n) (\<lambda>s'. ins_all s' ns)"

lemma ins_all_law:
  "wf s \<Longrightarrow> \<forall>n\<in>set ns. ok s n \<Longrightarrow>
    \<exists>s'. ins_all s ns = Inr s' \<and> wf s' \<and> elems s' = elems s \<union> set ns \<and> ok s' = ok s"
proof (induction ns arbitrary: s)
  case Nil
  then show ?case by simp
next
  case (Cons n ns)
  from Cons.prems obtain s1 where s1: "ins s n = Inr s1" "wf s1"
    "elems s1 = insert n (elems s)" "ok s1 = ok s"
    using ins_law[of s n] by auto
  with Cons.prems obtain s2 where "ins_all s1 ns = Inr s2" "wf s2"
    "elems s2 = elems s1 \<union> set ns" "ok s2 = ok s1"
    using Cons.IH[of s1] by auto
  with s1 show ?case by auto
qed

lemma is_in_ins_all:
  assumes "wf s" and "\<forall>n\<in>set ns. ok s n" and "ok s k" and "ins_all s ns = Inr s'"
  shows "is_in s' k = Inr (k \<in> elems s \<or> k \<in> set ns)"
  using ins_all_law[OF assms(1,2)] is_in_law[of s' k] assms(3,4) by auto

end

interpretation bitmap_rs: register_set
  "\<lambda>(arr, bm). bitmap_wf arr bm"
  "\<lambda>(arr, bm). shiftable bm"
  "\<lambda>(arr, bm). bitmap_elems arr bm"
  "\<lambda>(arr, bm) n. bindE (bitmap_set checks arr bm n) (\<lambda>arr'. Inr (arr', bm))"
  "\<lambda>(arr, bm) n. bitmap_is_set checks arr bm n"
  for checks
proof unfold_locales
  fix s :: "u64 list \<times> bitmap" and n
  assume wf: "case s of (arr, bm) \<Rightarrow> bitmap_wf arr bm"
    and ok: "(case s of (arr, bm) \<Rightarrow> shiftable bm) n"
  obtain arr bm where s: "s = (arr, bm)" by (cases s)
  obtain arr' where "bitmap_set checks arr bm n = Inr arr'" "bitmap_wf arr' bm"
      "bitmap_elems arr' bm = insert n (bitmap_elems arr bm)"
    using bitmap_set_wf[of arr bm n checks] wf ok s by auto
  then show "\<exists>s'. (case s of (arr, bm) \<Rightarrow> \<lambda>n. bindE (bitmap_set checks arr bm n) (\<lambda>arr'. Inr (arr', bm))) n
      = Inr s' \<and> (case s' of (arr, bm) \<Rightarrow> bitmap_wf arr bm) \<and>
      (case s' of (arr, bm) \<Rightarrow> bitmap_elems arr bm) = insert n (case s of (arr, bm) \<Rightarrow> bitmap_elems arr bm) \<and>
      (case s' of (arr, bm) \<Rightarrow> shiftable bm) = (case s of (arr, bm) \<Rightarrow> shiftable bm)"
    by (simp add: s)
  show "(case s of (arr, bm) \<Rightarrow> bitmap_is_set checks arr bm) n =
      Inr (n \<in> (case s of (arr, bm) \<Rightarrow> bitmap_elems arr bm))"
    using wf ok by (simp add: s bitmap_is_set_wf)
qed

end
