(* ===== verification/Linked_List.thy ===== *)
theory Linked_List
  imports Prelude
begin

text \<open>
  The doubly linked list of \<open>lib/stack_transformation/include/list.h\<close>, whose code is
  generated by the \<open>_LIST_*\<close> macros for each element type (the runtime instantiates it for
  \<open>fixup\<close> records). Nodes live in a heap, \<open>malloc\<close> hands out an address that was never used
  before and \<open>free\<close> removes a node; following a pointer that is \<open>NULL\<close> or freed is undefined.
  The heap representation is related to a functional list, and each operation is proved to
  implement the operation on that list. No assertion of the macros can fail on a list they
  built.
\<close>

section \<open>Nodes, lists and the heap\<close>

type_synonym addr = nat

record 'a node =
  node_prev :: "addr option"
  node_next :: "addr option"
  node_data :: 'a

record dlist =
  list_sz :: nat
  list_head :: "addr option"
  list_tail :: "addr option"

record 'a heap =
  cells :: "addr \<rightharpoonup> 'a node"
  brk :: addr

definition deref :: "'a heap \<Rightarrow> addr option \<Rightarrow> 'a node res" where
  "deref h p = (case p of None \<Rightarrow> Inl (UB Null_deref)
     | Some a \<Rightarrow> (case cells h a of None \<Rightarrow> Inl (UB Use_after_free) | Some n \<Rightarrow> Inr n))"

text \<open>Assignment through a node pointer, \<open>p->field = \<dots>\<close>.\<close>

definition update_node :: "'a heap \<Rightarrow> addr option \<Rightarrow> ('a node \<Rightarrow> 'a node) \<Rightarrow> 'a heap res" where
  "update_node h p f =
     bindE (deref h p) (\<lambda>n. Inr (h\<lparr>cells := (cells h)(the p \<mapsto> f n)\<rparr>))"

section \<open>Operations\<close>

definition list_init :: dlist where
  "list_init = \<lparr>list_sz = 0, list_head = None, list_tail = None\<rparr>"

definition list_size :: "dlist \<Rightarrow> nat" where
  "list_size l = list_sz l"

definition list_begin :: "dlist \<Rightarrow> addr option" where
  "list_begin l = list_head l"

definition list_end :: "dlist \<Rightarrow> addr option" where
  "list_end l = list_tail l"

definition list_next :: "bool \<Rightarrow> 'a heap \<Rightarrow> addr option \<Rightarrow> addr option res" where
  "list_next checks h p =
     bindE (ASSERT checks (p \<noteq> None)) (\<lambda>_. bindE (deref h p) (\<lambda>n. Inr (node_next n)))"

definition list_prev :: "bool \<Rightarrow> 'a heap \<Rightarrow> addr option \<Rightarrow> addr option res" where
  "list_prev checks h p =
     bindE (ASSERT checks (p \<noteq> None)) (\<lambda>_. bindE (deref h p) (\<lambda>n. Inr (node_prev n)))"

definition list_add :: "bool \<Rightarrow> 'a heap \<Rightarrow> dlist \<Rightarrow> 'a \<Rightarrow> ('a heap \<times> dlist \<times> addr) res" where
  "list_add checks h l d =
     (let a = brk h; h0 = h\<lparr>brk := Suc a\<rparr> in
      if list_head l = None then
        bindE (ASSERT checks (list_tail l = None)) (\<lambda>_.
          Inr (h0\<lparr>cells := (cells h)(a \<mapsto> \<lparr>node_prev = None, node_next = None, node_data = d\<rparr>)\<rparr>,
               \<lparr>list_sz = list_sz l + 1, list_head = Some a, list_tail = Some a\<rparr>, a))
      else
        bindE (ASSERT checks (list_tail l \<noteq> None)) (\<lambda>_.
        bindE (update_node h0 (list_tail l) (\<lambda>n. n\<lparr>node_next := Some a\<rparr>)) (\<lambda>h1.
          Inr (h1\<lparr>cells := (cells h1)
                   (a \<mapsto> \<lparr>node_prev = list_tail l, node_next = None, node_data = d\<rparr>)\<rparr>,
               l\<lparr>list_sz := list_sz l + 1, list_tail := Some a\<rparr>, a))))"

definition list_remove :: "bool \<Rightarrow> 'a heap \<Rightarrow> dlist \<Rightarrow> addr option \<Rightarrow>
    ('a heap \<times> dlist \<times> addr option) res" where
  "list_remove checks h l p =
     bindE (ASSERT checks (p \<noteq> None)) (\<lambda>_.
     bindE (ASSERT checks (list_sz l > 0)) (\<lambda>_.
     bindE (deref h p) (\<lambda>n.
     bindE
       (if list_sz l = 1 then
          bindE (ASSERT checks (p = list_head l \<and> p = list_tail l)) (\<lambda>_.
            Inr (h, l\<lparr>list_head := None, list_tail := None\<rparr>))
        else if p = list_head l then
          bindE (ASSERT checks (node_next n \<noteq> None)) (\<lambda>_.
          bindE (update_node h (node_next n) (\<lambda>m. m\<lparr>node_prev := None\<rparr>)) (\<lambda>h1.
            Inr (h1, l\<lparr>list_head := node_next n\<rparr>)))
        else if p = list_tail l then
          bindE (ASSERT checks (node_prev n \<noteq> None)) (\<lambda>_.
          bindE (update_node h (node_prev n) (\<lambda>m. m\<lparr>node_next := None\<rparr>)) (\<lambda>h1.
            Inr (h1, l\<lparr>list_tail := node_prev n\<rparr>)))
        else
          bindE (ASSERT checks (node_prev n \<noteq> None \<and> node_next n \<noteq> None)) (\<lambda>_.
          bindE (update_node h (node_prev n) (\<lambda>m. m\<lparr>node_next := node_next n\<rparr>)) (\<lambda>h1.
          bindE (update_node h1 (node_next n) (\<lambda>m. m\<lparr>node_prev := node_prev n\<rparr>)) (\<lambda>h2.
            Inr (h2, l)))))
     (\<lambda>(h', l').
       Inr (h'\<lparr>cells := (cells h')(the p := None)\<rparr>,
            l'\<lparr>list_sz := list_sz l' - 1\<rparr>,
            node_next n)))))"

text \<open>
  \<open>list_clear\<close> loops while the head is not \<open>NULL\<close>. The bound is the fuel of the loop; the
  theorem below shows that the length of the list is enough, and \<open>None\<close> is a loop still
  running when the bound is reached.
\<close>

fun list_clear :: "nat \<Rightarrow> bool \<Rightarrow> 'a heap \<Rightarrow> dlist \<Rightarrow> ('a heap \<times> dlist) res option" where
  "list_clear fuel checks h l =
     (if list_head l = None then Some (Inr (h, l))
      else (case fuel of 0 \<Rightarrow> None
        | Suc k \<Rightarrow> (case list_remove checks h l (list_head l) of
            Inl e \<Rightarrow> Some (Inl e)
          | Inr (h', l', _) \<Rightarrow> list_clear k checks h' l')))"

declare list_clear.simps [simp del]

section \<open>The list a heap structure represents\<close>

definition first_of :: "addr list \<Rightarrow> addr option \<Rightarrow> addr option" where
  "first_of ps q = (case ps of [] \<Rightarrow> q | p # _ \<Rightarrow> Some p)"

definition last_of :: "addr list \<Rightarrow> addr option \<Rightarrow> addr option" where
  "last_of ps q = (if ps = [] then q else Some (last ps))"

text \<open>
  \<open>chain c pr ps xs nx\<close>: the nodes \<open>ps\<close> hold the data \<open>xs\<close>, are linked in both directions,
  start after \<open>pr\<close> and end before \<open>nx\<close>.
\<close>

fun chain :: "(addr \<rightharpoonup> 'a node) \<Rightarrow> addr option \<Rightarrow> addr list \<Rightarrow> 'a list \<Rightarrow> addr option \<Rightarrow> bool" where
  "chain c pr [] [] nx = True"
| "chain c pr (p # ps) (x # xs) nx =
     (c p = Some \<lparr>node_prev = pr, node_next = first_of ps nx, node_data = x\<rparr> \<and>
      chain c (Some p) ps xs nx)"
| "chain c pr _ _ nx = False"

definition represents :: "'a heap \<Rightarrow> dlist \<Rightarrow> addr list \<Rightarrow> 'a list \<Rightarrow> bool" where
  "represents h l ps xs \<longleftrightarrow>
     distinct ps \<and> (\<forall>p\<in>set ps. p < brk h) \<and> list_sz l = length ps \<and>
     list_head l = first_of ps None \<and> list_tail l = last_of ps None \<and>
     chain (cells h) None ps xs None"

lemma first_of_simps [simp]: "first_of [] q = q" "first_of (p # ps) q = Some p"
  by (simp_all add: first_of_def)

lemma first_of_append [simp]: "first_of (ps @ qs) q = first_of ps (first_of qs q)"
  by (cases ps) simp_all

lemma last_of_simps [simp]: "last_of [] q = q" "last_of (ps @ [p]) q = Some p"
  by (simp_all add: last_of_def)

lemma last_of_Cons [simp]: "last_of (p # ps) q = last_of ps (Some p)"
  by (simp add: last_of_def)

lemma last_of_append [simp]: "last_of (ps @ qs) q = last_of qs (last_of ps q)"
  by (simp add: last_of_def)

lemma chain_length: "chain c pr ps xs nx \<Longrightarrow> length ps = length xs"
  by (induction c pr ps xs nx rule: chain.induct) auto

lemma chain_append:
  "length ps = length xs \<Longrightarrow>
   chain c pr (ps @ qs) (xs @ ys) nx \<longleftrightarrow>
     chain c pr ps xs (first_of qs nx) \<and> chain c (last_of ps pr) qs ys nx"
proof (induction ps arbitrary: xs pr)
  case Nil
  then show ?case by simp
next
  case (Cons p ps)
  then show ?case by (cases xs) (auto simp: last_of_def)
qed

lemma chain_frame [simp]:
  "q \<notin> set ps \<Longrightarrow> chain (c(q := v)) pr ps xs nx \<longleftrightarrow> chain c pr ps xs nx"
  by (induction c pr ps xs nx rule: chain.induct) auto

text \<open>Retargeting the link after, or before, a segment.\<close>

lemma chain_set_next:
  assumes "chain c pr (ps @ [p]) (xs @ [x]) nx" and "length ps = length xs" and "distinct (ps @ [p])"
  shows "c p = Some \<lparr>node_prev = last_of ps pr, node_next = nx, node_data = x\<rparr>"
    and "chain (c(p \<mapsto> \<lparr>node_prev = last_of ps pr, node_next = nx', node_data = x\<rparr>)) pr
           (ps @ [p]) (xs @ [x]) nx'"
  using assms by (simp_all add: chain_append)

lemma chain_set_prev:
  assumes "chain c pr (p # ps) (x # xs) nx" and "distinct (p # ps)"
  shows "c p = Some \<lparr>node_prev = pr, node_next = first_of ps nx, node_data = x\<rparr>"
    and "chain (c(p \<mapsto> \<lparr>node_prev = pr', node_next = first_of ps nx, node_data = x\<rparr>)) pr'
           (p # ps) (x # xs) nx"
  using assms by simp_all

lemma represents_length: "represents h l ps xs \<Longrightarrow> length ps = length xs"
  by (auto simp: represents_def dest: chain_length)

lemma represents_init: "represents h list_init [] []"
  by (simp add: represents_def list_init_def)

lemma represents_size: "represents h l ps xs \<Longrightarrow> list_size l = length xs"
  by (auto simp: represents_def list_size_def dest: chain_length)

section \<open>Refinement\<close>

lemma list_add_refines:
  assumes "represents h l ps xs"
  shows "\<exists>h' l'. list_add checks h l d = Inr (h', l', brk h) \<and>
    represents h' l' (ps @ [brk h]) (xs @ [d]) \<and> brk h' = Suc (brk h)"
proof (cases ps rule: rev_cases)
  case Nil
  with assms show ?thesis
    by (auto simp: represents_def list_add_def Let_def dest: chain_length)
next
  case (snoc qs q)
  from assms have r: "distinct ps" "\<forall>p\<in>set ps. p < brk h" "list_sz l = length ps"
    "list_head l = first_of ps None" "list_tail l = last_of ps None"
    "chain (cells h) None ps xs None"
    by (auto simp: represents_def)
  from r(6) snoc obtain ys y where xs: "xs = ys @ [y]" "length qs = length ys"
    by (cases xs rule: rev_cases) (auto dest: chain_length)
  let ?q = "\<lparr>node_prev = last_of qs None, node_next = Some (brk h), node_data = y\<rparr>"
  have q: "cells h q = Some \<lparr>node_prev = last_of qs None, node_next = None, node_data = y\<rparr>"
    and seg: "chain ((cells h)(q \<mapsto> ?q)) None (qs @ [q]) (ys @ [y]) (Some (brk h))"
    using r(1,6) snoc xs by (auto intro: chain_set_next)
  have fresh: "brk h \<notin> set ps" using r(2) by auto
  obtain a where hd: "list_head l = Some a" using r(4) snoc by (cases qs) auto
  have "list_add checks h l d =
    Inr (h\<lparr>brk := Suc (brk h), cells := (cells h)(q \<mapsto> ?q,
            brk h \<mapsto> \<lparr>node_prev = Some q, node_next = None, node_data = d\<rparr>)\<rparr>,
         l\<lparr>list_sz := list_sz l + 1, list_tail := Some (brk h)\<rparr>, brk h)"
    using hd r(5) snoc q by (simp add: list_add_def Let_def update_node_def deref_def)
  moreover have "represents (h\<lparr>brk := Suc (brk h), cells := (cells h)(q \<mapsto> ?q,
            brk h \<mapsto> \<lparr>node_prev = Some q, node_next = None, node_data = d\<rparr>)\<rparr>)
       (l\<lparr>list_sz := list_sz l + 1, list_tail := Some (brk h)\<rparr>) (ps @ [brk h]) (xs @ [d])"
    unfolding represents_def
  proof (intro conjI)
    have "chain ((cells h)(q \<mapsto> ?q, brk h \<mapsto> \<lparr>node_prev = Some q, node_next = None, node_data = d\<rparr>))
        None (qs @ [q]) (ys @ [y]) (Some (brk h))"
      using seg fresh snoc by (subst chain_frame) auto
    then show "chain (cells (h\<lparr>brk := Suc (brk h), cells := (cells h)(q \<mapsto> ?q,
            brk h \<mapsto> \<lparr>node_prev = Some q, node_next = None, node_data = d\<rparr>)\<rparr>)) None
        (ps @ [brk h]) (xs @ [d]) None"
      using snoc xs by (subst chain_append) (auto simp: chain_length)
  qed (use r snoc fresh in \<open>auto simp: less_Suc_eq\<close>)
  ultimately show ?thesis by simp
qed

text \<open>
  Removal, by the position of the node. Each case computes the new heap and re-establishes
  the representation from the two segments around the node.
\<close>

lemma representsI:
  assumes "distinct ps" and "\<And>p. p \<in> set ps \<Longrightarrow> p < brk h" and "list_sz l = length ps"
    and "list_head l = first_of ps None" and "list_tail l = last_of ps None"
    and "chain (cells h) None ps xs None"
  shows "represents h l ps xs"
  using assms by (simp add: represents_def)

lemma represents_split:
  assumes "represents h l (ps @ p # qs) (xs @ x # ys)" and "length ps = length xs"
  shows "distinct (ps @ p # qs)" and "\<And>r. r \<in> set (ps @ p # qs) \<Longrightarrow> r < brk h"
    and "list_sz l = Suc (length ps + length qs)"
    and "list_head l = first_of ps (Some p)" and "list_tail l = last_of qs (Some p)"
    and "chain (cells h) None ps xs (Some p)" and "chain (cells h) (Some p) qs ys None"
    and "cells h p = Some \<lparr>node_prev = last_of ps None, node_next = first_of qs None, node_data = x\<rparr>"
  using assms by (auto simp: represents_def chain_append)

lemma list_remove_only:
  assumes "represents h l [p] [x]"
  shows "list_remove checks h l (Some p) =
      Inr (h\<lparr>cells := (cells h)(p := None)\<rparr>, list_init, None)"
  using assms by (simp add: represents_def list_remove_def deref_def list_init_def)

lemma list_remove_front:
  assumes "represents h l (p # q # qs) (x # y # ys)"
  shows "\<exists>h' l'. list_remove checks h l (Some p) = Inr (h', l', Some q) \<and>
    represents h' l' (q # qs) (y # ys) \<and> brk h' = brk h"
proof -
  have 1: "represents h l ([] @ p # q # qs) ([] @ x # y # ys)" using assms by simp
  have 2: "length [] = length []" by simp
  note r = represents_split[OF 1 2]
  let ?q = "\<lparr>node_prev = None, node_next = first_of qs None, node_data = y\<rparr>"
  let ?h = "h\<lparr>cells := (cells h)(q \<mapsto> ?q, p := None)\<rparr>"
  let ?l = "l\<lparr>list_head := Some q, list_sz := list_sz l - 1\<rparr>"
  have run: "list_remove checks h l (Some p) = Inr (?h, ?l, Some q)"
    using r by (simp add: list_remove_def deref_def update_node_def)
  have "represents ?h ?l (q # qs) (y # ys)"
    by (rule representsI) (use r in auto)
  with run show ?thesis by auto
qed

lemma list_remove_back:
  assumes "represents h l (ps @ [a, p]) (xs @ [b, x])" and "length ps = length xs"
  shows "\<exists>h' l'. list_remove checks h l (Some p) = Inr (h', l', None) \<and>
    represents h' l' (ps @ [a]) (xs @ [b]) \<and> brk h' = brk h"
proof -
  have 1: "represents h l ((ps @ [a]) @ p # []) ((xs @ [b]) @ x # [])" using assms(1) by simp
  have 2: "length (ps @ [a]) = length (xs @ [b])" using assms(2) by simp
  note r = represents_split[OF 1 2]
  let ?a = "\<lparr>node_prev = last_of ps None, node_next = None, node_data = b\<rparr>"
  let ?h = "h\<lparr>cells := (cells h)(a \<mapsto> ?a, p := None)\<rparr>"
  let ?l = "l\<lparr>list_tail := Some a, list_sz := list_sz l - 1\<rparr>"
  have ca: "cells h a = Some \<lparr>node_prev = last_of ps None, node_next = Some p, node_data = b\<rparr>"
    using r assms(2) by (simp add: chain_append)
  have nh: "list_head l \<noteq> Some p"
    using r by (cases ps) auto
  have run: "list_remove checks h l (Some p) = Inr (?h, ?l, None)"
    using r ca nh by (simp add: list_remove_def deref_def update_node_def)
  have "chain (cells ?h) None (ps @ [a]) (xs @ [b]) None"
    using r assms(2) by (simp add: chain_append)
  then have "represents ?h ?l (ps @ [a]) (xs @ [b])"
    by (rule representsI[rotated -1]) (use r assms(2) in auto)
  with run show ?thesis by auto
qed

lemma list_remove_middle:
  assumes "represents h l (ps @ [a, p, q] @ qs) (xs @ [b, x, y] @ ys)" and "length ps = length xs"
  shows "\<exists>h' l'. list_remove checks h l (Some p) = Inr (h', l', Some q) \<and>
    represents h' l' (ps @ [a, q] @ qs) (xs @ [b, y] @ ys) \<and> brk h' = brk h"
proof -
  have 1: "represents h l ((ps @ [a]) @ p # q # qs) ((xs @ [b]) @ x # y # ys)" using assms(1) by simp
  have 2: "length (ps @ [a]) = length (xs @ [b])" using assms(2) by simp
  note r = represents_split[OF 1 2]
  let ?a = "\<lparr>node_prev = last_of ps None, node_next = Some q, node_data = b\<rparr>"
  let ?q = "\<lparr>node_prev = Some a, node_next = first_of qs None, node_data = y\<rparr>"
  let ?h = "h\<lparr>cells := (cells h)(a \<mapsto> ?a, q \<mapsto> ?q, p := None)\<rparr>"
  let ?l = "l\<lparr>list_sz := list_sz l - 1\<rparr>"
  have ca: "cells h a = Some \<lparr>node_prev = last_of ps None, node_next = Some p, node_data = b\<rparr>"
    using r assms(2) by (simp add: chain_append)
  have nh: "list_head l \<noteq> Some p" using r by (cases ps) auto
  have nt: "list_tail l \<noteq> Some p" using r by (auto simp: last_of_def split: if_splits)
  have run: "list_remove checks h l (Some p) = Inr (?h, ?l, Some q)"
    using r ca nh nt by (simp add: list_remove_def deref_def update_node_def)
  have "chain (cells ?h) None (ps @ [a, q] @ qs) (xs @ [b, y] @ ys) None"
    using r assms(2) by (simp add: chain_append)
  then have "represents ?h ?l (ps @ [a, q] @ qs) (xs @ [b, y] @ ys)"
    by (rule representsI[rotated -1]) (use r assms(2) in auto)
  with run show ?thesis by auto
qed

lemma list_remove_refines:
  assumes "represents h l (ps @ p # qs) (xs @ x # ys)" and "length ps = length xs"
  shows "\<exists>h' l'. list_remove checks h l (Some p) = Inr (h', l', first_of qs None) \<and>
    represents h' l' (ps @ qs) (xs @ ys) \<and> brk h' = brk h"
proof -
  have len: "length qs = length ys"
    using represents_length[OF assms(1)] assms(2) by simp
  show ?thesis
  proof (cases ps rule: rev_cases; cases qs)
    assume "ps = []" "qs = []"
    with assms len list_remove_only[of h l p x checks] show ?thesis
      by (auto simp: represents_def list_init_def)
  next
    fix q qs' assume "ps = []" "qs = q # qs'"
    with assms len list_remove_front[of h l p q qs' x "hd ys" "tl ys" checks] show ?thesis
      by (cases ys) auto
  next
    fix as a assume "ps = as @ [a]" "qs = []"
    with assms len list_remove_back[of h l as a p "butlast xs" "last xs" x checks] show ?thesis
      by (cases xs rule: rev_cases) auto
  next
    fix as a q qs' assume "ps = as @ [a]" "qs = q # qs'"
    with assms len list_remove_middle[of h l as a p q qs' "butlast xs" "last xs" x "hd ys" "tl ys" checks]
    show ?thesis by (cases xs rule: rev_cases; cases ys) auto
  qed
qed

lemma list_clear_refines:
  assumes "represents h l ps xs" and "length xs \<le> fuel"
  shows "\<exists>h' l'. list_clear fuel checks h l = Some (Inr (h', l')) \<and> represents h' l' [] []"
  using assms
proof (induction fuel arbitrary: h l ps xs)
  case 0
  then have "list_head l = None" "represents h l [] []"
    using represents_length[OF 0(1)] by (auto simp: represents_def)
  then show ?case by (simp add: list_clear.simps)
next
  case (Suc k)
  show ?case
  proof (cases ps)
    case Nil
    with Suc.prems have "list_head l = None" "represents h l [] []"
      using represents_length[OF Suc.prems(1)] by (auto simp: represents_def)
    then show ?thesis by (simp add: list_clear.simps)
  next
    case (Cons p qs)
    then obtain x ys where xs: "xs = x # ys"
      using represents_length[OF Suc.prems(1)] by (cases xs) auto
    obtain h' l' where step: "list_remove checks h l (Some p) = Inr (h', l', first_of qs None)"
      "represents h' l' qs ys"
      using list_remove_refines[of h l "[]" p qs "[]" x ys checks] Suc.prems(1) Cons xs by auto
    moreover have "list_head l = Some p" using Suc.prems(1) Cons by (simp add: represents_def)
    ultimately show ?thesis
      using Suc.IH[of h' l' qs ys] Suc.prems(2) xs by (simp add: list_clear.simps)
  qed
qed

section \<open>Iterating over a list while removing nodes\<close>

text \<open>
  The runtime's loops over a list all have one shape: start at \<open>list_begin\<close>, and at every node
  either remove it, which yields the next node, or step with \<open>list_next\<close>. \<open>scan\<close> is that loop on
  the list of data: \<open>f\<close> is the loop body, which may change a state and says whether the node is
  removed. The locale states what the loop needs of the list operations and proves that the
  pointer loop computes \<open>scan\<close>, with one unit of fuel per node.
\<close>

primrec scan :: "('s \<Rightarrow> 'a \<Rightarrow> ('s \<times> bool) res) \<Rightarrow> 's \<Rightarrow> 'a list \<Rightarrow> ('s \<times> 'a list) res" where
  "scan f s [] = Inr (s, [])"
| "scan f s (x # xs) =
     bindE (f s x) (\<lambda>(s1, gone).
     bindE (scan f s1 xs) (\<lambda>(s2, ys). Inr (s2, if gone then ys else x # ys)))"

locale node_list =
  fixes rep :: "'h \<Rightarrow> 'l \<Rightarrow> addr list \<Rightarrow> 'a list \<Rightarrow> bool"
    and start :: "'l \<Rightarrow> addr option"
    and val :: "'h \<Rightarrow> addr option \<Rightarrow> 'a res"
    and step :: "'h \<Rightarrow> addr option \<Rightarrow> addr option res"
    and rem :: "'h \<Rightarrow> 'l \<Rightarrow> addr option \<Rightarrow> ('h \<times> 'l \<times> addr option) res"
  assumes start_law: "rep h l ps xs \<Longrightarrow> start l = first_of ps None"
    and rep_length: "rep h l ps xs \<Longrightarrow> length ps = length xs"
    and val_law: "rep h l (ps @ p # qs) (xs @ x # ys) \<Longrightarrow> length ps = length xs \<Longrightarrow>
      val h (Some p) = Inr x"
    and step_law: "rep h l (ps @ p # qs) (xs @ x # ys) \<Longrightarrow> length ps = length xs \<Longrightarrow>
      step h (Some p) = Inr (first_of qs None)"
    and rem_law: "rep h l (ps @ p # qs) (xs @ x # ys) \<Longrightarrow> length ps = length xs \<Longrightarrow>
      \<exists>h' l'. rem h l (Some p) = Inr (h', l', first_of qs None) \<and> rep h' l' (ps @ qs) (xs @ ys)"
begin

primrec scan_loop :: "nat \<Rightarrow> ('s \<Rightarrow> 'a \<Rightarrow> ('s \<times> bool) res) \<Rightarrow> 's \<Rightarrow> 'h \<Rightarrow> 'l \<Rightarrow> addr option \<Rightarrow>
    ('s \<times> 'h \<times> 'l) res option" where
  "scan_loop 0 f s h l cur = (if cur = None then Some (Inr (s, h, l)) else None)"
| "scan_loop (Suc k) f s h l cur =
     (if cur = None then Some (Inr (s, h, l))
      else (case bindE (val h cur) (f s) of
        Inl e \<Rightarrow> Some (Inl e)
      | Inr (s1, gone) \<Rightarrow>
          if gone then
            (case rem h l cur of Inl e \<Rightarrow> Some (Inl e) | Inr (h1, l1, nx) \<Rightarrow> scan_loop k f s1 h1 l1 nx)
          else
            (case step h cur of Inl e \<Rightarrow> Some (Inl e) | Inr nx \<Rightarrow> scan_loop k f s1 h l nx)))"

lemma scan_loop_from:
  assumes "rep h l (ps @ qs) (xs @ ys)" and "length ps = length xs" and "length qs \<le> fuel"
    and "scan f s ys = Inr (s', zs)"
  shows "\<exists>h' l' rs. scan_loop fuel f s h l (first_of qs None) = Some (Inr (s', h', l')) \<and>
    rep h' l' (ps @ rs) (xs @ zs)"
  using assms
proof (induction fuel arbitrary: h l ps qs xs ys s zs)
  case 0
  then have "ys = []" using rep_length[OF "0.prems"(1)] by simp
  with 0 show ?case by (auto intro: exI[of _ "[]"])
next
  case (Suc k)
  show ?case
  proof (cases qs)
    case Nil
    then have "ys = []" using rep_length[OF Suc.prems(1)] Suc.prems(2) by simp
    with Nil Suc.prems show ?thesis by (auto intro: exI[of _ "[]"])
  next
    case (Cons q qs')
    then obtain y ys' where ys: "ys = y # ys'"
      using rep_length[OF Suc.prems(1)] Suc.prems(2) by (cases ys) auto
    from Suc.prems(4) ys obtain s1 gone zs1 where f: "f s y = Inr (s1, gone)"
      "scan f s1 ys' = Inr (s', zs1)" "zs = (if gone then zs1 else y # zs1)"
      by (auto simp: res_simps)
    note at_q = Suc.prems(1)[unfolded Cons ys] Suc.prems(2)
    have v: "val h (Some q) = Inr y" by (rule val_law[OF at_q])
    show ?thesis
    proof (cases gone)
      case True
      obtain h1 l1 where r: "rem h l (Some q) = Inr (h1, l1, first_of qs' None)"
        "rep h1 l1 (ps @ qs') (xs @ ys')" using rem_law[OF at_q] by blast
      show ?thesis
        using Suc.IH[OF r(2) Suc.prems(2) _ f(2)] Suc.prems(3) v f(1,3) r(1) True Cons by auto
    next
      case False
      have st: "step h (Some q) = Inr (first_of qs' None)" by (rule step_law[OF at_q])
      have "rep h l ((ps @ [q]) @ qs') ((xs @ [y]) @ ys')" using at_q(1) by simp
      moreover have "length (ps @ [q]) = length (xs @ [y])" using at_q(2) by simp
      ultimately obtain h2 l2 rs where
        "scan_loop k f s1 h l (first_of qs' None) = Some (Inr (s', h2, l2))"
        "rep h2 l2 ((ps @ [q]) @ rs) ((xs @ [y]) @ zs1)"
        using Suc.IH[of h l "ps @ [q]" qs' "xs @ [y]" ys' s1 zs1] Suc.prems(3) Cons f(2) by auto
      then show ?thesis
        using v f(1,3) st False Cons by (intro exI[of _ h2] exI[of _ l2] exI[of _ "q # rs"]) simp
    qed
  qed
qed

lemma scan_loop_refines:
  assumes "rep h l ps xs" and "length xs \<le> fuel" and "scan f s xs = Inr (s', ys)"
  shows "\<exists>h' l' qs. scan_loop fuel f s h l (start l) = Some (Inr (s', h', l')) \<and> rep h' l' qs ys"
  using scan_loop_from[of h l "[]" ps "[]" xs fuel f s s' ys] assms
    start_law[OF assms(1)] rep_length[OF assms(1)] by auto

end

interpretation dl: node_list represents list_begin
  "\<lambda>h p. bindE (deref h p) (\<lambda>n. Inr (node_data n))" "list_next checks" "list_remove checks"
  for checks
proof unfold_locales
  fix h :: "'b heap" and l ps p qs xs x ys
  assume r: "represents h l (ps @ p # qs) (xs @ x # ys)" "length ps = length xs"
  note r8 = represents_split(8)[OF r]
  show "bindE (deref h (Some p)) (\<lambda>n. Inr (node_data n)) = Inr x"
    using r8 by (simp add: deref_def)
  show "list_next checks h (Some p) = Inr (first_of qs None)"
    using r8 by (simp add: list_next_def deref_def)
  show "\<exists>h' l'. list_remove checks h l (Some p) = Inr (h', l', first_of qs None) \<and>
      represents h' l' (ps @ qs) (xs @ ys)"
    using list_remove_refines[OF r] by blast
qed (auto simp: list_begin_def represents_def dest: chain_length)

end
