(* ===== verification/Regs.thy ===== *)
theory Regs
  imports Prelude
begin

text \<open>
  The architecture-neutral register and stack-property interfaces of
  \<open>include/regs.h\<close> and \<open>include/properties.h\<close>. A register set object pairs the common flag with
  the architecture's register structure, and the tables of function pointers \<open>regops_t\<close> and
  \<open>properties_t\<close> are records of functions. The C function \<open>reg\<close> returns a pointer through which
  callers read or write some bytes of a register; here it is the pair \<open>reg_get\<close> (the bytes of
  the register) and \<open>reg_put\<close> (overwrite its first bytes). The locales state the laws the
  unwinder and the data-access code rely on; both architectures are interpretations.
\<close>

section \<open>The tables\<close>

record 'raw regset_obj =
  initialized :: bool
  raw_regs :: 'raw

record 'raw regops_t =
  num_regs :: nat
  has_ra_reg :: bool
  regset_size :: nat
  regset_default :: "'raw regset_obj"
  regset_init :: "'raw \<Rightarrow> 'raw regset_obj"
  regset_clone :: "'raw regset_obj \<Rightarrow> 'raw regset_obj \<Rightarrow> 'raw regset_obj"
  regset_copyin :: "'raw regset_obj \<Rightarrow> 'raw \<Rightarrow> 'raw regset_obj"
  regset_copyout :: "'raw regset_obj \<Rightarrow> 'raw \<Rightarrow> 'raw"
  pc :: "'raw regset_obj \<Rightarrow> u64"
  sp :: "'raw regset_obj \<Rightarrow> u64"
  fbp :: "'raw regset_obj \<Rightarrow> u64"
  ra_reg :: "'raw regset_obj \<Rightarrow> u64 res"
  set_pc :: "'raw regset_obj \<Rightarrow> u64 \<Rightarrow> 'raw regset_obj"
  set_sp :: "'raw regset_obj \<Rightarrow> u64 \<Rightarrow> 'raw regset_obj"
  set_fbp :: "'raw regset_obj \<Rightarrow> u64 \<Rightarrow> 'raw regset_obj"
  set_ra_reg :: "'raw regset_obj \<Rightarrow> u64 \<Rightarrow> 'raw regset_obj res"
  setup_fbp :: "bool \<Rightarrow> 'raw regset_obj \<Rightarrow> u64 \<Rightarrow> 'raw regset_obj res"
  reg_size :: "nat \<Rightarrow> nat res"
  reg_get :: "'raw regset_obj \<Rightarrow> nat \<Rightarrow> u8 list res"
  reg_put :: "'raw regset_obj \<Rightarrow> nat \<Rightarrow> u8 list \<Rightarrow> 'raw regset_obj res"

record properties_t =
  sp_needs_align :: bool
  num_callee_saved :: nat
  callee_saved_regs :: "nat list"
  callee_saved_size :: "nat list"
  ra_offset :: int
  savedfbp_offset :: int
  cfa_offset_funcentry :: int
  align_sp :: "u64 \<Rightarrow> u64 res"
  is_callee_saved :: "nat \<Rightarrow> bool"
  callee_reg_size :: "nat \<Rightarrow> nat res"

text \<open>
  Writing the first bytes of a register through the pointer \<open>reg\<close> returns. More bytes than the
  register holds would run into the next field of the structure.
\<close>

definition overlay :: "u8 list \<Rightarrow> 'a::len word \<Rightarrow> 'a word res" where
  "overlay bs w =
     (let n = LENGTH('a) div 8 in
      if length bs \<le> n then Inr (le_word (bs @ drop (length bs) (le_bytes n w)))
      else Inl (UB Register_overrun))"

text \<open>Reading \<open>n\<close> bytes through the pointer, and reading a 64-bit value (\<open>*(void**)reg(..)\<close>).\<close>

definition reg_read :: "'raw regops_t \<Rightarrow> 'raw regset_obj \<Rightarrow> nat \<Rightarrow> nat \<Rightarrow> u8 list res" where
  "reg_read ops rs r n =
     bindE (reg_get ops rs r) (\<lambda>bs.
       if n \<le> length bs then Inr (take n bs) else Inl (UB Register_overrun))"

definition reg_read64 :: "'raw regops_t \<Rightarrow> 'raw regset_obj \<Rightarrow> nat \<Rightarrow> u64 res" where
  "reg_read64 ops rs r = bindE (reg_read ops rs r 8) (\<lambda>bs. Inr (le_word bs))"

lemma overlay_law:
  assumes "LENGTH('a::len) = 8 * n" and "length bs \<le> n"
  shows "\<exists>w'. overlay bs (w :: 'a word) = Inr w' \<and>
    le_bytes n w' = bs @ drop (length bs) (le_bytes n w)"
  using assms by (auto simp: overlay_def Let_def le_bytes_le_word)

lemma overlay_overrun:
  assumes "LENGTH('a::len) = 8 * n" and "n < length bs"
  shows "overlay bs (w :: 'a word) = Inl (UB Register_overrun)"
  using assms by (simp add: overlay_def)

lemma overlay_full: "overlay (le_bytes 8 v) (w :: u64) = Inr v"
  by (simp add: overlay_def le_word_le_bytes)

section \<open>The laws of a register file\<close>

text \<open>
  \<open>width r\<close> is the size of register \<open>r\<close> in bytes, \<open>None\<close> where the architecture has no such
  register; \<open>spr\<close> and \<open>fbpr\<close> are the numbers of the stack and frame pointer, \<open>rar\<close> the one under
  which the unwinding records keep the return address (the link register where the
  architecture has one, the program counter otherwise).
\<close>

locale register_file =
  fixes ops :: "'raw regops_t"
    and width :: "nat \<Rightarrow> nat option"
    and spr :: nat
    and fbpr :: nat
    and rar :: nat
  assumes size_law: "reg_size ops r =
      (case width r of None \<Rightarrow> Inl (ST_ERR 1 Err_bad_register) | Some n \<Rightarrow> Inr n)"
    and get_none: "width r = None \<Longrightarrow> reg_get ops rs r = Inl (ST_ERR 1 Err_bad_register)"
    and put_none: "width r = None \<Longrightarrow> reg_put ops rs r bs = Inl (ST_ERR 1 Err_bad_register)"
    and get_some: "width r = Some n \<Longrightarrow> \<exists>bs. reg_get ops rs r = Inr bs \<and> length bs = n"
    and put_some: "width r = Some n \<Longrightarrow> length bs \<le> n \<Longrightarrow> reg_get ops rs r = Inr old \<Longrightarrow>
      \<exists>rs'. reg_put ops rs r bs = Inr rs' \<and> reg_get ops rs' r = Inr (bs @ drop (length bs) old)"
    and put_overrun: "width r = Some n \<Longrightarrow> n < length bs \<Longrightarrow>
      reg_put ops rs r bs = Inl (UB Register_overrun)"
    and put_other: "reg_put ops rs r bs = Inr rs' \<Longrightarrow> r' \<noteq> r \<Longrightarrow>
      reg_get ops rs' r' = reg_get ops rs r'"
    and put_pc: "reg_put ops rs r bs = Inr rs' \<Longrightarrow> r \<noteq> rar \<Longrightarrow> pc ops rs' = pc ops rs"
    and get_sp: "reg_get ops rs spr = Inr (le_bytes 8 (sp ops rs))"
    and get_fbp: "reg_get ops rs fbpr = Inr (le_bytes 8 (fbp ops rs))"
    and spr_fbpr: "spr \<noteq> fbpr"
    and sp_set_sp: "sp ops (set_sp ops rs v) = v"
    and pc_set_pc: "pc ops (set_pc ops rs v) = v"
    and fbp_set_fbp: "fbp ops (set_fbp ops rs v) = v"
    and pc_set_sp: "pc ops (set_sp ops rs v) = pc ops rs"
    and pc_set_fbp: "pc ops (set_fbp ops rs v) = pc ops rs"
    and sp_set_pc: "sp ops (set_pc ops rs v) = sp ops rs"
    and fbp_set_pc: "fbp ops (set_pc ops rs v) = fbp ops rs"
    and get_set_sp: "r \<noteq> spr \<Longrightarrow> reg_get ops (set_sp ops rs v) r = reg_get ops rs r"
    and get_set_fbp: "r \<noteq> fbpr \<Longrightarrow> reg_get ops (set_fbp ops rs v) r = reg_get ops rs r"
    and ra_law: "has_ra_reg ops \<Longrightarrow> \<exists>v. ra_reg ops rs = Inr v \<and> reg_get ops rs rar = Inr (le_bytes 8 v)"
    and ra_pc_law: "\<not> has_ra_reg ops \<Longrightarrow> reg_get ops rs rar = Inr (le_bytes 8 (pc ops rs))"
    and set_ra_law: "has_ra_reg ops \<Longrightarrow> \<exists>rs'. set_ra_reg ops rs v = Inr rs' \<and> ra_reg ops rs' = Inr v \<and>
      pc ops rs' = pc ops rs \<and> (\<forall>r. r \<noteq> rar \<longrightarrow> reg_get ops rs' r = reg_get ops rs r)"
    and get_set_pc: "has_ra_reg ops \<Longrightarrow> reg_get ops (set_pc ops rs v) r = reg_get ops rs r"
    and rar_special: "rar \<noteq> spr" "rar \<noteq> fbpr"
    and clone_law: "regset_clone ops rs rs' = rs"
    and copyin_law: "regset_copyout ops (regset_copyin ops rs raw) raw' = raw"
    and setup_fbp_law: "setup_fbp ops checks rs cfa =
      bindE (ASSERT checks (cfa \<noteq> 0)) (\<lambda>_. Inr (set_fbp ops rs (cfa - 16)))"
begin

lemma sp_set_fbp: "sp ops (set_fbp ops rs v) = sp ops rs"
proof -
  have "le_bytes 8 (sp ops (set_fbp ops rs v)) = le_bytes 8 (sp ops rs)"
    using get_sp[of "set_fbp ops rs v"] get_sp[of rs] get_set_fbp[OF spr_fbpr, of rs v] by simp
  then have "le_word (le_bytes 8 (sp ops (set_fbp ops rs v))) = (le_word (le_bytes 8 (sp ops rs)) :: u64)"
    by simp
  then show ?thesis by (simp add: le_word_le_bytes)
qed

lemma fbp_set_sp: "fbp ops (set_sp ops rs v) = fbp ops rs"
proof -
  have "le_bytes 8 (fbp ops (set_sp ops rs v)) = le_bytes 8 (fbp ops rs)"
    using get_fbp[of "set_sp ops rs v"] get_fbp[of rs] get_set_sp[OF spr_fbpr[symmetric], of rs v]
    by simp
  then have "le_word (le_bytes 8 (fbp ops (set_sp ops rs v))) = (le_word (le_bytes 8 (fbp ops rs)) :: u64)"
    by simp
  then show ?thesis by (simp add: le_word_le_bytes)
qed

lemmas special_simps = sp_set_sp pc_set_pc fbp_set_fbp pc_set_sp pc_set_fbp sp_set_pc fbp_set_pc
  sp_set_fbp fbp_set_sp

text \<open>Reading back what was written, register by register.\<close>

lemma read_put_same:
  assumes "width r = Some n" and "length bs \<le> n"
  shows "\<exists>rs'. reg_put ops rs r bs = Inr rs' \<and> reg_read ops rs' r (length bs) = Inr bs"
proof -
  obtain old where old: "reg_get ops rs r = Inr old" "length old = n" using get_some[OF assms(1)] by blast
  from put_some[OF assms old(1)] obtain rs' where
    "reg_put ops rs r bs = Inr rs'" "reg_get ops rs' r = Inr (bs @ drop (length bs) old)" by blast
  then show ?thesis by (simp add: reg_read_def)
qed

lemma read_put_other:
  "reg_put ops rs r bs = Inr rs' \<Longrightarrow> r' \<noteq> r \<Longrightarrow> reg_read ops rs' r' n = reg_read ops rs r' n"
  by (simp add: reg_read_def put_other)

lemma read64_sp: "reg_read64 ops rs spr = Inr (sp ops rs)"
  by (simp add: reg_read64_def reg_read_def get_sp le_word_le_bytes)

lemma read64_fbp: "reg_read64 ops rs fbpr = Inr (fbp ops rs)"
  by (simp add: reg_read64_def reg_read_def get_fbp le_word_le_bytes)

end

text \<open>
  The laws of the stack properties that go with a register file: the tables of callee-saved
  registers and of their sizes agree with the two functions, each such register exists and is
  at least as wide as its spill slot, and its number is one the bitmap macros can address.
\<close>

locale stack_properties = register_file ops width spr fbpr rar
  for ops :: "'raw regops_t" and width :: "nat \<Rightarrow> nat option" and spr fbpr rar :: nat +
  fixes props :: properties_t
  assumes callee_iff: "is_callee_saved props r \<longleftrightarrow> r \<in> set (callee_saved_regs props)"
    and callee_size: "callee_reg_size props r =
      (if is_callee_saved props r then Inr 8 else Inl (ST_ERR 1 Err_bad_register))"
    and callee_sizes: "callee_saved_size props = replicate (length (callee_saved_regs props)) 8"
    and callee_num: "num_callee_saved props = length (callee_saved_regs props)"
    and callee_width: "is_callee_saved props r \<Longrightarrow> \<exists>n\<ge>8. width r = Some n"
    and callee_shift: "is_callee_saved props r \<Longrightarrow> r < num_regs ops \<and> r mod 64 < 31"
    and callee_fbp: "is_callee_saved props fbpr"
    and callee_rar: "is_callee_saved props rar"
    and callee_sp: "\<not> is_callee_saved props spr"
    and align_law: "sp_needs_align props \<Longrightarrow> align_sp props v = Inr v \<or> align_sp props v = Inr (v - 8)"
    and ra_offset_law: "ra_offset props = - 8"
    and entry_law: "cfa_offset_funcentry props = (if has_ra_reg ops then 0 else 8)"
    and savedfbp_law: "savedfbp_offset props = - 16"

end
