(* ===== verification/Definitions.thy ===== *)
theory Definitions
  imports Bitmap Linked_List Regs
begin

text \<open>
  The metadata records shared by the compiler tools and the runtime
  (\<open>common/stack_transformation/include/call_site.h\<close>), the configuration constants of
  \<open>config.h\<close> and the runtime's own structures of \<open>definitions.h\<close>: handles, activations, fixups
  and rewriting contexts. Integers keep the width of their C fields; pointers into the
  read-only metadata arrays are the records they point to, the arrays are lists.
\<close>

section \<open>Call site metadata\<close>

record unwind_addr =
  ua_addr :: u64
  ua_num_unwind :: u32
  ua_unwind_offset :: u32

record unwind_loc =
  ul_reg :: u16
  ul_offset :: u16

record call_site =
  cs_id :: u64
  cs_addr :: u64
  cs_frame_size :: u32
  cs_num_unwind :: u16
  cs_unwind_offset :: u64
  cs_num_live :: u16
  cs_live_offset :: u64
  cs_num_arch_live :: u16
  cs_arch_live_offset :: u64
  cs_padding :: u16

definition EMPTY_CALL_SITE :: call_site where
  "EMPTY_CALL_SITE = \<lparr>cs_id = 0, cs_addr = 0, cs_frame_size = 0, cs_num_unwind = 0,
     cs_unwind_offset = 0, cs_num_live = 0, cs_live_offset = 0, cs_num_arch_live = 0,
     cs_arch_live_offset = 0, cs_padding = - 1\<rparr>"

text \<open>The 4-bit location type; \<open>SM_OTHER\<close> holds the values that name no location.\<close>

datatype location_type =
    SM_REGISTER | SM_DIRECT | SM_INDIRECT | SM_CONSTANT | SM_CONST_IDX | SM_OTHER nat

record live_value =
  is_duplicate :: bool
  is_alloca :: bool
  is_ptr :: bool
  lv_type :: location_type
  lv_size :: u8
  lv_regnum :: u16
  lv_offset :: u32
  alloca_size :: u32

text \<open>The instruction kinds of \<open>VALUE_GEN_INST\<close>; \<open>Inst_other\<close> holds the unused 4-bit values.\<close>

datatype inst_type =
    Inst_Set | Inst_Add | Inst_Subtract | Inst_Multiply | Inst_Divide | Inst_LeftShift
  | Inst_RightShiftLog | Inst_RightShiftArith | Inst_Mask | Inst_Load | Inst_StackSlot
  | Inst_ConstantPool | Inst_other nat

record arch_live_value =
  al_is_ptr :: bool
  al_type :: location_type
  al_size :: u8
  al_regnum :: u16
  al_offset :: u32
  al_operand_type :: location_type
  al_inst_type :: inst_type
  al_operand_size :: u8
  al_operand_regnum :: u16
  al_operand_offset_or_constant :: u64

text \<open>\<open>VAL_SIZE\<close>: the size of a live value in bytes.\<close>

definition VAL_SIZE :: "live_value \<Rightarrow> nat" where
  "VAL_SIZE val = (if is_alloca val then unat (alloca_size val) else unat (lv_size val))"

section \<open>Configuration\<close>

definition MAX_FRAMES :: nat where "MAX_FRAMES = 512"
definition MAX_STACK_SIZE :: u64 where "MAX_STACK_SIZE = 8 * 1024 * 1024"
definition B_STACK_OFFSET :: u64 where "B_STACK_OFFSET = 4 * 1024 * 1024"

section \<open>Runtime structures\<close>

record 'raw st_handle =
  h_arch :: u16
  h_ptr_size :: u16
  h_regops :: "'raw regops_t"
  h_props :: properties_t
  unwind_addr_count :: u64
  unwind_addrs :: "unwind_addr list"
  unwind_count :: u64
  unwind_locs :: "unwind_loc list"
  sites_count :: u64
  sites_id :: "call_site list"
  sites_addr :: "call_site list"
  live_vals_count :: u64
  live_vals :: "live_value list"
  arch_live_vals_count :: u64
  arch_live_vals :: "arch_live_value list"

record fixup =
  fx_src_addr :: u64
  fx_act :: nat
  fx_dest_loc :: live_value

record 'raw activation =
  act_site :: call_site
  act_cfa :: u64
  act_regs :: "'raw regset_obj"
  act_callee_saved :: bitmap

text \<open>
  \<open>acts\<close> is the array of \<open>MAX_FRAMES\<close> activations, indexed from the outermost frame; each
  activation holds its own register set (its slot of \<open>regset_pool\<close>). \<open>stack_pointers\<close> is the
  list of pending fixups in list order, \<open>callee_saved_pool\<close> the words all bitmaps point into.
\<close>

record 'raw rewrite_context =
  handle :: "'raw st_handle"
  stack_base :: u64
  stack :: u64
  out_regs :: 'raw
  num_acts :: nat
  act :: nat
  acts :: "nat \<Rightarrow> 'raw activation"
  stack_pointers :: "fixup list"
  callee_saved_pool :: "u64 list"

abbreviation ACT :: "'raw rewrite_context \<Rightarrow> 'raw activation" where
  "ACT ctx \<equiv> acts ctx (act ctx)"

abbreviation PREV_ACT :: "'raw rewrite_context \<Rightarrow> 'raw activation" where
  "PREV_ACT ctx \<equiv> acts ctx (act ctx - 1)"

abbreviation NEXT_ACT :: "'raw rewrite_context \<Rightarrow> 'raw activation" where
  "NEXT_ACT ctx \<equiv> acts ctx (act ctx + 1)"

abbreviation REGOPS :: "'raw rewrite_context \<Rightarrow> 'raw regops_t" where
  "REGOPS ctx \<equiv> h_regops (handle ctx)"

abbreviation PROPS :: "'raw rewrite_context \<Rightarrow> properties_t" where
  "PROPS ctx \<equiv> h_props (handle ctx)"

text \<open>Writing one activation of the array, and adding a signed offset to a pointer.\<close>

definition upd_act :: "'raw rewrite_context \<Rightarrow> nat \<Rightarrow> ('raw activation \<Rightarrow> 'raw activation) \<Rightarrow>
    'raw rewrite_context" where
  "upd_act ctx i f = ctx\<lparr>acts := (acts ctx)(i := f (acts ctx i))\<rparr>"

definition ptr_add :: "u64 \<Rightarrow> int \<Rightarrow> u64" where
  "ptr_add p i = p + word_of_int i"

lemma upd_act_simps [simp]:
  "handle (upd_act ctx i f) = handle ctx" "stack_base (upd_act ctx i f) = stack_base ctx"
  "stack (upd_act ctx i f) = stack ctx" "out_regs (upd_act ctx i f) = out_regs ctx"
  "num_acts (upd_act ctx i f) = num_acts ctx" "act (upd_act ctx i f) = act ctx"
  "stack_pointers (upd_act ctx i f) = stack_pointers ctx"
  "callee_saved_pool (upd_act ctx i f) = callee_saved_pool ctx"
  "acts (upd_act ctx i f) j = (if j = i then f (acts ctx i) else acts ctx j)"
  by (simp_all add: upd_act_def)

lemma pred_neq [simp]: "0 < (i :: nat) \<Longrightarrow> i - Suc 0 \<noteq> i" "0 < (i :: nat) \<Longrightarrow> i \<noteq> i - Suc 0"
  by simp_all

end
