(* ===== verification/Lookup.thy ===== *)
theory Lookup
  imports Definitions
begin

text \<open>
  The metadata lookups of \<open>lib/stack_transformation/src/util.c\<close>: the binary searches by return
  address, by call site ID and by enclosing function, and the tables of names and operations
  by architecture. The searches run on \<open>long\<close> bounds, so they are written on integers; an
  index outside the array is undefined behaviour, and the theorems show that none is reached.
\<close>

section \<open>Architecture tables\<close>

definition EM_X86_64 :: u16 where "EM_X86_64 = 62"
definition EM_AARCH64 :: u16 where "EM_AARCH64 = 183"

definition arch_name :: "u16 \<Rightarrow> string" where
  "arch_name a = (if a = EM_X86_64 then ''x86-64'' else if a = EM_AARCH64 then ''aarch64''
     else ''unknown/unsupported architecture'')"

text \<open>
  \<open>get_regops\<close> and \<open>get_properties\<close> return a pointer to one of two constant tables, or \<open>NULL\<close>;
  the datatype names the table.
\<close>

datatype arch_table = Table_aarch64 | Table_x86_64

definition get_regops :: "u16 \<Rightarrow> arch_table option" where
  "get_regops a = (if a = EM_AARCH64 then Some Table_aarch64
     else if a = EM_X86_64 then Some Table_x86_64 else None)"

definition get_properties :: "u16 \<Rightarrow> arch_table option" where
  "get_properties a = (if a = EM_AARCH64 then Some Table_aarch64
     else if a = EM_X86_64 then Some Table_x86_64 else None)"

section \<open>Binary search for an exact key\<close>

text \<open>\<open>(long)(count - 1)\<close>: the count is unsigned, so an empty table gives \<open>-1\<close>.\<close>

definition last_index :: "u64 \<Rightarrow> int" where
  "last_index count = sint (count - 1)"

function site_search :: "('a \<Rightarrow> u64) \<Rightarrow> 'a list \<Rightarrow> u64 \<Rightarrow> int \<Rightarrow> int \<Rightarrow> 'a option res" where
  "site_search key tab k mn mx =
     (if mn \<le> mx then
        let mid = (mx + mn) div 2 in
        bindE (array_get tab (nat mid)) (\<lambda>x.
          if key x = k then Inr (Some x)
          else if key x < k then site_search key tab k (mid + 1) mx
          else site_search key tab k mn (mid - 1))
      else Inr None)"
  by pat_completeness auto
termination
  by (relation "measure (\<lambda>(key, tab, k, mn, mx). nat (mx - mn + 1))") auto

declare site_search.simps [simp del]

definition get_site_by_addr :: "'raw st_handle \<Rightarrow> u64 \<Rightarrow> call_site option res" where
  "get_site_by_addr h ret_addr =
     site_search cs_addr (sites_addr h) ret_addr 0 (last_index (sites_count h))"

definition get_site_by_id :: "'raw st_handle \<Rightarrow> u64 \<Rightarrow> call_site option res" where
  "get_site_by_id h csid =
     site_search cs_id (sites_id h) csid 0 (last_index (sites_count h))"

section \<open>Binary search for the enclosing function\<close>

function unwind_search :: "unwind_addr list \<Rightarrow> u64 \<Rightarrow> u64 \<Rightarrow> int \<Rightarrow> int \<Rightarrow> unwind_addr option res" where
  "unwind_search tab count a mn mx =
     (if mn \<le> mx then
        let mid = (mx + mn) div 2 in
        bindE (array_get tab (nat mid)) (\<lambda>x.
          if word_of_int mid = count - 1 then
            (if ua_addr x \<le> a then Inr (Some x) else Inr None)
          else
            bindE (array_get tab (nat mid + 1)) (\<lambda>y.
              if ua_addr x \<le> a \<and> a < ua_addr y then Inr (Some x)
              else if ua_addr x < a then unwind_search tab count a (mid + 1) mx
              else unwind_search tab count a mn (mid - 1)))
      else Inr None)"
  by pat_completeness auto
termination
  by (relation "measure (\<lambda>(tab, count, a, mn, mx). nat (mx - mn + 1))") auto

declare unwind_search.simps [simp del]

definition get_unwind_offset_by_addr :: "'raw st_handle \<Rightarrow> u64 \<Rightarrow> unwind_addr option res" where
  "get_unwind_offset_by_addr h a =
     unwind_search (unwind_addrs h) (unwind_addr_count h) a 0 (last_index (unwind_addr_count h))"

definition get_function_address :: "'raw st_handle \<Rightarrow> u64 \<Rightarrow> u64 res" where
  "get_function_address h a =
     bindE (get_unwind_offset_by_addr h a) (\<lambda>r. case r of None \<Rightarrow> Inr 0 | Some x \<Rightarrow> Inr (ua_addr x))"

section \<open>Correctness of the searches\<close>

text \<open>A count that describes the table: as many entries, fewer than \<open>2 ^ 63\<close>.\<close>

definition counts :: "u64 \<Rightarrow> 'a list \<Rightarrow> bool" where
  "counts n tab \<longleftrightarrow> unat n = length tab \<and> length tab < 2 ^ 63"

lemma sint_unat_small:
  fixes w :: u64
  assumes "unat w < 2 ^ 63" shows "sint w = int (unat w)"
proof -
  have "int (unat w) < 2 ^ 63" using assms by (metis of_nat_less_iff of_nat_numeral of_nat_power)
  then have "uint w < 2 ^ 63" by simp
  then have "signed_take_bit 63 (uint w) = uint w"
    by (intro signed_take_bit_int_eq_self) (auto intro: order_trans[of _ 0])
  then show ?thesis by (simp add: sint_uint)
qed

lemma last_index_counts:
  assumes "counts n tab" shows "last_index n = int (length tab) - 1"
proof (cases "n = 0")
  case True
  with assms show ?thesis by (simp add: last_index_def counts_def)
next
  case False
  then have "unat (n - 1) = unat n - 1" by (metis unat_minus_one)
  moreover have "0 < unat n" using False by (simp add: unat_gt_0)
  moreover have "unat n - 1 < 2 ^ 63" using assms by (auto simp: counts_def)
  ultimately show ?thesis
    using assms sint_unat_small[of "n - 1"] by (auto simp: last_index_def counts_def of_nat_diff)
qed

text \<open>
  The invariant of the exact search: what lies outside the current bounds is not the key. On a
  table sorted by key it finds an entry with the key exactly when there is one.
\<close>

lemma site_search_correct:
  assumes "sorted (map key tab)" and "0 \<le> mn" and "mx < int (length tab)"
    and "\<forall>i<length tab. int i < mn \<or> mx < int i \<longrightarrow> key (tab ! i) \<noteq> k"
  shows "\<exists>r. site_search key tab k mn mx = Inr r \<and>
    (case r of None \<Rightarrow> k \<notin> key ` set tab | Some x \<Rightarrow> x \<in> set tab \<and> key x = k)"
  using assms
proof (induction key tab k mn mx rule: site_search.induct)
  case (1 key tab k mn mx)
  show ?case
  proof (cases "mn \<le> mx")
    case False
    then have "k \<notin> key ` set tab" using 1(6) by (force simp: in_set_conv_nth)
    with False show ?thesis by (simp add: site_search.simps)
  next
    case True
    define mid where "mid = (mx + mn) div 2"
    have mid: "mn \<le> mid" "mid \<le> mx" "0 \<le> mid" "nat mid < length tab"
      using True 1(4,5) by (auto simp: mid_def)
    define x where "x = tab ! nat mid"
    have get: "array_get tab (nat mid) = Inr x" using mid by (simp add: x_def)
    have mono: "i \<le> j \<Longrightarrow> j < length tab \<Longrightarrow> key (tab ! i) \<le> key (tab ! j)" for i j
      using sorted_nth_mono[OF 1(3), of i j] by simp
    consider "key x = k" | "key x < k" | "k < key x" by force
    then show ?thesis
    proof cases
      case 1
      then show ?thesis
        using True get mid by (subst site_search.simps) (auto simp: Let_def mid_def[symmetric] x_def)
    next
      case 2
      then have "key (tab ! i) \<noteq> k" if "i < length tab" "int i < mid + 1" for i
        using that mono[of i "nat mid"] mid by (force simp: x_def)
      then have "\<forall>i<length tab. int i < mid + 1 \<or> mx < int i \<longrightarrow> key (tab ! i) \<noteq> k"
        using 1(6) by blast
      then show ?thesis
        using 1(1)[OF True mid_def get _ 2] 2 True get mid 1(3-5)
        by (subst site_search.simps) (auto simp: Let_def mid_def[symmetric])
    next
      case 3
      then have "key (tab ! i) \<noteq> k" if "i < length tab" "mid - 1 < int i" for i
        using that mono[of "nat mid" i] mid by (force simp: x_def)
      then have "\<forall>i<length tab. int i < mn \<or> mid - 1 < int i \<longrightarrow> key (tab ! i) \<noteq> k"
        using 1(6) by blast
      then show ?thesis
        using 1(2)[OF True mid_def get] 3 True get mid 1(3-5)
        by (subst site_search.simps) (auto simp: Let_def mid_def[symmetric])
    qed
  qed
qed

text \<open>
  The enclosing-function search: \<open>enclosing\<close> says that an answer is the record with the
  greatest start address not above the given one. The search keeps the entry at its lower
  bound at or below the address and the entry after its upper bound above it.
\<close>

definition enclosing :: "unwind_addr list \<Rightarrow> u64 \<Rightarrow> unwind_addr option \<Rightarrow> bool" where
  "enclosing tab a r \<longleftrightarrow>
     (case r of None \<Rightarrow> (\<forall>x\<in>set tab. a < ua_addr x)
      | Some x \<Rightarrow> x \<in> set tab \<and> ua_addr x \<le> a \<and>
          (\<forall>y\<in>set tab. ua_addr y \<le> a \<longrightarrow> ua_addr y \<le> ua_addr x))"

lemma last_test:
  assumes "counts n tab" and "0 \<le> mid" and "mid < int (length tab)"
  shows "word_of_int mid = n - 1 \<longleftrightarrow> mid = int (length tab) - 1"
proof -
  have len: "0 < length tab" "length tab < 2 ^ 63" "unat n = length tab"
    using assms by (auto simp: counts_def)
  then have "n \<noteq> 0" by auto
  then have "unat (n - 1) = length tab - 1" using len by (metis unat_minus_one)
  moreover have "unat (word_of_int mid :: u64) = nat mid"
  proof -
    have "word_of_int mid = (of_nat (nat mid) :: u64)" using assms(2) by simp
    moreover have "nat mid < 2 ^ 64" using assms(2,3) len by auto
    ultimately show ?thesis by (simp only: unat_of_nat_small)
  qed
  ultimately have "word_of_int mid = n - 1 \<longleftrightarrow> nat mid = length tab - 1"
    by (metis word_unat_eq_iff)
  also have "\<dots> \<longleftrightarrow> mid = int (length tab) - 1" using assms(2) len(1) by linarith
  finally show ?thesis .
qed

text \<open>Tables with strictly increasing start addresses, and the two ways the search can end.\<close>

lemma strict_table:
  assumes "sorted_wrt (<) (map ua_addr tab)" "j < length tab"
  shows "i < j \<Longrightarrow> ua_addr (tab ! i) < ua_addr (tab ! j)"
    and "i \<le> j \<Longrightarrow> ua_addr (tab ! i) \<le> ua_addr (tab ! j)"
proof -
  show less: "ua_addr (tab ! i) < ua_addr (tab ! j)" if "i < j"
    using sorted_wrt_nth_less [OF assms(1), of i j] assms(2) that by simp
  show "ua_addr (tab ! i) \<le> ua_addr (tab ! j)" if "i \<le> j"
    using less that by (cases "i = j") auto
qed

lemma enclosing_hit:
  assumes srt: "sorted_wrt (<) (map ua_addr tab)" and k: "k < length tab"
    and le: "ua_addr (tab ! k) \<le> a" and nxt: "k + 1 < length tab \<longrightarrow> a < ua_addr (tab ! (k + 1))"
  shows "enclosing tab a (Some (tab ! k))"
proof -
  have "i \<le> k" if "i < length tab" "ua_addr (tab ! i) \<le> a" for i
    using strict_table(2) [OF srt that(1), of "k + 1"] that nxt
    by (cases "k + 1 \<le> i") (auto dest: order_trans)
  then show ?thesis
    using le k strict_table(2) [OF srt k] by (auto simp: enclosing_def in_set_conv_nth)
qed

lemma enclosing_none:
  assumes srt: "sorted_wrt (<) (map ua_addr tab)" and below: "tab = [] \<or> a < ua_addr (tab ! 0)"
  shows "enclosing tab a None"
proof -
  have "a < ua_addr (tab ! i)" if "i < length tab" for i
    using below strict_table(2) [OF srt that, of 0] that by (auto dest: order_less_le_trans)
  then show ?thesis by (auto simp: enclosing_def in_set_conv_nth)
qed

lemma unwind_search_correct:
  assumes "sorted_wrt (<) (map ua_addr tab)" and "counts count tab" and "0 \<le> mn"
    and "mx < int (length tab)" and "mn \<le> mx + 1" and "tab \<noteq> [] \<longrightarrow> mn < int (length tab)"
    and "0 < mn \<longrightarrow> ua_addr (tab ! nat mn) \<le> a"
    and "mx + 1 < int (length tab) \<longrightarrow> a < ua_addr (tab ! nat (mx + 1))"
  shows "\<exists>r. unwind_search tab count a mn mx = Inr r \<and> enclosing tab a r"
  using assms
proof (induction tab count a mn mx rule: unwind_search.induct)
  case (1 tab count a mn mx)
  show ?case
  proof (cases "mn \<le> mx")
    case False
    then have "mn = mx + 1" using 1(7) by simp
    moreover have "\<not> (0 < mn \<and> mn < int (length tab))" using 1(9,10) \<open>mn = mx + 1\<close> by auto
    ultimately have "tab = [] \<or> a < ua_addr (tab ! 0)" using 1(5,8,10) by auto
    with False show ?thesis using enclosing_none [OF 1(3)] by (simp add: unwind_search.simps)
  next
    case True
    define mid where "mid = (mx + mn) div 2"
    have mid: "mn \<le> mid" "mid \<le> mx" "0 \<le> mid" "nat mid < length tab" "mid < int (length tab)"
      using True 1(5,6) by (auto simp: mid_def)
    let ?x = "tab ! nat mid" and ?y = "tab ! (nat mid + 1)"
    have get: "array_get tab (nat mid) = Inr ?x" using mid by simp
    note lt = last_test[OF 1(4) mid(3) mid(5)]
    note hit = enclosing_hit [OF 1(3) mid(4)]
    show ?thesis
    proof (cases "mid = int (length tab) - 1")
      case last: True
      then have "mn = mid" using mid 1(6) unfolding mid_def by presburger
      then have "a < ua_addr ?x \<Longrightarrow> length tab = 1 \<and> mid = 0"
        using 1(9) last mid(3,4) by (cases "length tab") auto
      then have "enclosing tab a None" if "a < ua_addr ?x"
        using that by (auto simp: enclosing_def in_set_conv_nth)
      moreover have "enclosing tab a (Some ?x)" if "ua_addr ?x \<le> a"
        using that last by (intro hit) auto
      ultimately have "enclosing tab a (if ua_addr ?x \<le> a then Some ?x else None)"
        by (simp add: not_le)
      then show ?thesis
        using True get lt last
        by (subst unwind_search.simps) (auto simp: Let_def mid_def[symmetric])
    next
      case more: False
      then have nxt: "nat mid + 1 < length tab" using mid by auto
      have unf: "unwind_search tab count a mn mx =
          (if ua_addr ?x \<le> a \<and> a < ua_addr ?y then Inr (Some ?x)
           else if ua_addr ?x < a then unwind_search tab count a (mid + 1) mx
           else unwind_search tab count a mn (mid - 1))"
        using True get lt more nxt
        by (subst unwind_search.simps) (simp add: Let_def mid_def[symmetric])
      have s: "ua_addr ?x < ua_addr ?y" using strict_table(1) [OF 1(3) nxt] by simp
      consider "ua_addr ?x \<le> a" "a < ua_addr ?y" | "ua_addr ?y \<le> a" | "a < ua_addr ?x" by force
      then show ?thesis
      proof cases
        case 1
        then show ?thesis using unf hit by auto
      next
        case 2
        have "nat (mid + 1) = nat mid + 1" using mid(3) by simp
        then show ?thesis
          using 1(1)[OF True mid_def get _ _ _ _ 1(3,4)] 2 1(6) 1(10) more mid nxt s lt unf by auto
      next
        case 3
        then show ?thesis
          using 1(2)[OF True mid_def get _ _ _ _ 1(3,4)] 1(5,8,9) more mid nxt s lt unf by auto
      qed
    qed
  qed
qed

text \<open>
  The contract the unwinder and the rewriter rely on: looking a key up never runs outside the
  table, and finds an entry with the key exactly when the table has one. Where no two entries
  share a key, the entry found is the one whose key was asked for.
\<close>

locale keyed_lookup =
  fixes wf :: "'h \<Rightarrow> bool" and table :: "'h \<Rightarrow> 'e list" and key :: "'e \<Rightarrow> 'k"
    and find :: "'h \<Rightarrow> 'k \<Rightarrow> 'e option res"
  assumes total: "wf h \<Longrightarrow> \<exists>r. find h k = Inr r"
    and found: "wf h \<Longrightarrow> find h k = Inr (Some x) \<Longrightarrow> x \<in> set (table h) \<and> key x = k"
    and missing: "wf h \<Longrightarrow> find h k = Inr None \<Longrightarrow> k \<notin> key ` set (table h)"
begin

lemma find_present:
  assumes "wf h" and "x \<in> set (table h)"
  shows "\<exists>y. find h (key x) = Inr (Some y) \<and> y \<in> set (table h) \<and> key y = key x"
proof -
  obtain r where r: "find h (key x) = Inr r" using total assms(1) by blast
  with assms missing[of h "key x"] obtain y where "r = Some y" by (cases r) auto
  with r assms found show ?thesis by blast
qed

lemma find_unique:
  assumes "wf h" and "x \<in> set (table h)" and "inj_on key (set (table h))"
  shows "find h (key x) = Inr (Some x)"
  using find_present[OF assms(1,2)] assms(2,3) by (auto dest: inj_onD)

lemma find_iff:
  assumes "wf h" and "inj_on key (set (table h))"
  shows "find h k = Inr (Some x) \<longleftrightarrow> x \<in> set (table h) \<and> key x = k"
  using found[of h k x] find_unique[OF assms(1) _ assms(2), of x] assms(1) by auto

lemma find_None_iff:
  assumes "wf h" shows "find h k = Inr None \<longleftrightarrow> k \<notin> key ` set (table h)"
  using missing[of h k] found[of h k] total[of h k] assms by (metis imageI not_None_eq)

end

definition sites_addr_wf :: "'raw st_handle \<Rightarrow> bool" where
  "sites_addr_wf h \<longleftrightarrow> counts (sites_count h) (sites_addr h) \<and> sorted (map cs_addr (sites_addr h))"

definition sites_id_wf :: "'raw st_handle \<Rightarrow> bool" where
  "sites_id_wf h \<longleftrightarrow> counts (sites_count h) (sites_id h) \<and> sorted (map cs_id (sites_id h))"

definition unwind_addrs_wf :: "'raw st_handle \<Rightarrow> bool" where
  "unwind_addrs_wf h \<longleftrightarrow> counts (unwind_addr_count h) (unwind_addrs h) \<and>
     sorted_wrt (<) (map ua_addr (unwind_addrs h))"

lemma whole_table_search:
  assumes "counts n tab" and "sorted (map key tab)"
  shows "\<exists>r. site_search key tab k 0 (last_index n) = Inr r \<and>
    (case r of None \<Rightarrow> k \<notin> key ` set tab | Some x \<Rightarrow> x \<in> set tab \<and> key x = k)"
  using site_search_correct[of key tab 0 "last_index n" k] assms last_index_counts[OF assms(1)]
  by auto

interpretation by_addr: keyed_lookup sites_addr_wf sites_addr cs_addr get_site_by_addr
proof unfold_locales
  fix h :: "'a st_handle" and k x
  assume "sites_addr_wf h"
  then have s: "\<exists>r. get_site_by_addr h k = Inr r \<and> (case r of None \<Rightarrow> k \<notin> cs_addr ` set (sites_addr h)
      | Some x \<Rightarrow> x \<in> set (sites_addr h) \<and> cs_addr x = k)"
    unfolding sites_addr_wf_def get_site_by_addr_def by (blast intro: whole_table_search)
  then show "\<exists>r. get_site_by_addr h k = Inr r" by blast
  show "x \<in> set (sites_addr h) \<and> cs_addr x = k" if "get_site_by_addr h k = Inr (Some x)"
    using s that by auto
  show "k \<notin> cs_addr ` set (sites_addr h)" if "get_site_by_addr h k = Inr None"
    using s that by auto
qed

interpretation by_id: keyed_lookup sites_id_wf sites_id cs_id get_site_by_id
proof unfold_locales
  fix h :: "'a st_handle" and k x
  assume "sites_id_wf h"
  then have s: "\<exists>r. get_site_by_id h k = Inr r \<and> (case r of None \<Rightarrow> k \<notin> cs_id ` set (sites_id h)
      | Some x \<Rightarrow> x \<in> set (sites_id h) \<and> cs_id x = k)"
    unfolding sites_id_wf_def get_site_by_id_def by (blast intro: whole_table_search)
  then show "\<exists>r. get_site_by_id h k = Inr r" by blast
  show "x \<in> set (sites_id h) \<and> cs_id x = k" if "get_site_by_id h k = Inr (Some x)"
    using s that by auto
  show "k \<notin> cs_id ` set (sites_id h)" if "get_site_by_id h k = Inr None"
    using s that by auto
qed

lemma get_unwind_offset_correct:
  assumes "unwind_addrs_wf h"
  shows "\<exists>r. get_unwind_offset_by_addr h a = Inr r \<and> enclosing (unwind_addrs h) a r"
  using unwind_search_correct[of "unwind_addrs h" "unwind_addr_count h" 0
      "last_index (unwind_addr_count h)" a] assms
  by (auto simp: unwind_addrs_wf_def get_unwind_offset_by_addr_def last_index_counts)

end
