(* ===== verification/Regs_aarch64.thy ===== *)
theory Regs_aarch64
  imports Regs
begin

text \<open>
  The aarch64 register set and stack properties: \<open>include/arch/aarch64/regs.h\<close>,
  \<open>src/arch/aarch64/regs.c\<close> and \<open>src/arch/aarch64/properties.c\<close>. Registers are addressed by
  their DWARF numbers: 0 to 30 are X0 to X30, 31 is SP, 64 to 95 are V0 to V31. The arrays of
  the structure are functions on the indices, of which the code uses 0..30 and 0..31.
\<close>

record regset_aarch64 =
  a64_sp :: u64
  a64_pc :: u64
  a64_x :: "nat \<Rightarrow> u64"
  a64_v :: "nat \<Rightarrow> u128"

text \<open>The \<open>#define\<close>s of the DWARF register mapping, as the register a number names.\<close>

datatype a64_reg = X nat | SP | V nat

definition a64_dwarf :: "nat \<Rightarrow> a64_reg option" where
  "a64_dwarf r =
     (if r \<le> 30 then Some (X r) else if r = 31 then Some SP
      else if 64 \<le> r \<and> r \<le> 95 then Some (V (r - 64)) else None)"

definition AARCH64_NUM_REGS :: nat where "AARCH64_NUM_REGS = 128"
definition AARCH64_FBP_REG :: nat where "AARCH64_FBP_REG = 29"
definition AARCH64_LINK_REG :: nat where "AARCH64_LINK_REG = 30"

type_synonym regset_obj_aarch64 = "regset_aarch64 regset_obj"

definition zero_aarch64 :: regset_aarch64 where
  "zero_aarch64 = \<lparr>a64_sp = 0, a64_pc = 0, a64_x = (\<lambda>_. 0), a64_v = (\<lambda>_. 0)\<rparr>"

definition regset_default_aarch64 :: regset_obj_aarch64 where
  "regset_default_aarch64 = \<lparr>initialized = True, raw_regs = zero_aarch64\<rparr>"

definition regset_init_aarch64 :: "regset_aarch64 \<Rightarrow> regset_obj_aarch64" where
  "regset_init_aarch64 rr = \<lparr>initialized = True, raw_regs = rr\<rparr>"

definition regset_clone_aarch64 :: "regset_obj_aarch64 \<Rightarrow> regset_obj_aarch64 \<Rightarrow> regset_obj_aarch64" where
  "regset_clone_aarch64 src dest = src"

definition regset_copyin_aarch64 :: "regset_obj_aarch64 \<Rightarrow> regset_aarch64 \<Rightarrow> regset_obj_aarch64" where
  "regset_copyin_aarch64 rs rr = rs\<lparr>initialized := True, raw_regs := rr\<rparr>"

definition regset_copyout_aarch64 :: "regset_obj_aarch64 \<Rightarrow> regset_aarch64 \<Rightarrow> regset_aarch64" where
  "regset_copyout_aarch64 rs rr = raw_regs rs"

definition pc_aarch64 :: "regset_obj_aarch64 \<Rightarrow> u64" where
  "pc_aarch64 rs = a64_pc (raw_regs rs)"

definition sp_aarch64 :: "regset_obj_aarch64 \<Rightarrow> u64" where
  "sp_aarch64 rs = a64_sp (raw_regs rs)"

definition fbp_aarch64 :: "regset_obj_aarch64 \<Rightarrow> u64" where
  "fbp_aarch64 rs = a64_x (raw_regs rs) AARCH64_FBP_REG"

definition ra_reg_aarch64 :: "regset_obj_aarch64 \<Rightarrow> u64 res" where
  "ra_reg_aarch64 rs = Inr (a64_x (raw_regs rs) AARCH64_LINK_REG)"

text \<open>Assignment to \<open>cur->regs.x[i]\<close>.\<close>

definition a64_set_x :: "regset_obj_aarch64 \<Rightarrow> nat \<Rightarrow> u64 \<Rightarrow> regset_obj_aarch64" where
  "a64_set_x rs i v = rs\<lparr>raw_regs := (raw_regs rs)\<lparr>a64_x := (a64_x (raw_regs rs))(i := v)\<rparr>\<rparr>"

definition set_pc_aarch64 :: "regset_obj_aarch64 \<Rightarrow> u64 \<Rightarrow> regset_obj_aarch64" where
  "set_pc_aarch64 rs v = rs\<lparr>raw_regs := (raw_regs rs)\<lparr>a64_pc := v\<rparr>\<rparr>"

definition set_sp_aarch64 :: "regset_obj_aarch64 \<Rightarrow> u64 \<Rightarrow> regset_obj_aarch64" where
  "set_sp_aarch64 rs v = rs\<lparr>raw_regs := (raw_regs rs)\<lparr>a64_sp := v\<rparr>\<rparr>"

definition set_fbp_aarch64 :: "regset_obj_aarch64 \<Rightarrow> u64 \<Rightarrow> regset_obj_aarch64" where
  "set_fbp_aarch64 rs v = a64_set_x rs AARCH64_FBP_REG v"

definition set_ra_reg_aarch64 :: "regset_obj_aarch64 \<Rightarrow> u64 \<Rightarrow> regset_obj_aarch64 res" where
  "set_ra_reg_aarch64 rs v = Inr (a64_set_x rs AARCH64_LINK_REG v)"

definition setup_fbp_aarch64 :: "bool \<Rightarrow> regset_obj_aarch64 \<Rightarrow> u64 \<Rightarrow> regset_obj_aarch64 res" where
  "setup_fbp_aarch64 checks rs cfa =
     bindE (ASSERT checks (cfa \<noteq> 0)) (\<lambda>_. Inr (a64_set_x rs AARCH64_FBP_REG (cfa - 0x10)))"

definition reg_size_aarch64 :: "nat \<Rightarrow> nat res" where
  "reg_size_aarch64 r = (case a64_dwarf r of
     Some (X _) \<Rightarrow> Inr 8 | Some SP \<Rightarrow> Inr 8 | Some (V _) \<Rightarrow> Inr 16
   | None \<Rightarrow> Inl (ST_ERR 1 Err_bad_register))"

text \<open>\<open>reg_aarch64\<close>: reading the register it points to, and writing its first bytes.\<close>

definition reg_aarch64 :: "regset_obj_aarch64 \<Rightarrow> nat \<Rightarrow> u8 list res" where
  "reg_aarch64 rs r = (case a64_dwarf r of
     Some (X i) \<Rightarrow> Inr (le_bytes 8 (a64_x (raw_regs rs) i))
   | Some SP \<Rightarrow> Inr (le_bytes 8 (a64_sp (raw_regs rs)))
   | Some (V i) \<Rightarrow> Inr (le_bytes 16 (a64_v (raw_regs rs) i))
   | None \<Rightarrow> Inl (ST_ERR 1 Err_bad_register))"

definition reg_write_aarch64 :: "regset_obj_aarch64 \<Rightarrow> nat \<Rightarrow> u8 list \<Rightarrow> regset_obj_aarch64 res" where
  "reg_write_aarch64 rs r bs = (case a64_dwarf r of
     Some (X i) \<Rightarrow> bindE (overlay bs (a64_x (raw_regs rs) i)) (\<lambda>v. Inr (a64_set_x rs i v))
   | Some SP \<Rightarrow> bindE (overlay bs (a64_sp (raw_regs rs))) (\<lambda>v. Inr (set_sp_aarch64 rs v))
   | Some (V i) \<Rightarrow> bindE (overlay bs (a64_v (raw_regs rs) i)) (\<lambda>v.
       Inr (rs\<lparr>raw_regs := (raw_regs rs)\<lparr>a64_v := (a64_v (raw_regs rs))(i := v)\<rparr>\<rparr>))
   | None \<Rightarrow> Inl (ST_ERR 1 Err_bad_register))"

text \<open>\<open>sizeof(regset_obj_aarch64)\<close>: the flag padded to 16, then 264 + 8 + 512 bytes.\<close>

definition regs_aarch64 :: "regset_aarch64 regops_t" where
  "regs_aarch64 = \<lparr>
     num_regs = AARCH64_NUM_REGS, has_ra_reg = True, regset_size = 800,
     regset_default = regset_default_aarch64, regset_init = regset_init_aarch64,
     regset_clone = regset_clone_aarch64, regset_copyin = regset_copyin_aarch64,
     regset_copyout = regset_copyout_aarch64,
     pc = pc_aarch64, sp = sp_aarch64, fbp = fbp_aarch64, ra_reg = ra_reg_aarch64,
     set_pc = set_pc_aarch64, set_sp = set_sp_aarch64, set_fbp = set_fbp_aarch64,
     set_ra_reg = set_ra_reg_aarch64, setup_fbp = setup_fbp_aarch64,
     reg_size = reg_size_aarch64, reg_get = reg_aarch64, reg_put = reg_write_aarch64\<rparr>"

section \<open>Stack properties\<close>

definition callee_saved_aarch64 :: "nat list" where
  "callee_saved_aarch64 = [19, 20, 21, 22, 23, 24, 25, 26, 27, 28, 29, 30,
     72, 73, 74, 75, 76, 77, 78, 79]"

definition callee_saved_size_aarch64 :: "nat list" where
  "callee_saved_size_aarch64 = [8, 8, 8, 8, 8, 8, 8, 8, 8, 8, 8, 8, 8, 8, 8, 8, 8, 8, 8, 8]"

definition align_sp_aarch64 :: "u64 \<Rightarrow> u64 res" where
  "align_sp_aarch64 v = Inl (ST_ERR 0 Err_no_align)"

definition is_callee_saved_aarch64 :: "nat \<Rightarrow> bool" where
  "is_callee_saved_aarch64 r = (case a64_dwarf r of
     Some (X i) \<Rightarrow> 19 \<le> i | Some (V i) \<Rightarrow> 8 \<le> i \<and> i \<le> 15 | _ \<Rightarrow> False)"

definition callee_reg_size_aarch64 :: "nat \<Rightarrow> nat res" where
  "callee_reg_size_aarch64 r = (case a64_dwarf r of
     Some (X i) \<Rightarrow> if 19 \<le> i then Inr 8 else Inl (ST_ERR 1 Err_bad_register)
   | Some (V i) \<Rightarrow> if 8 \<le> i \<and> i \<le> 15 then Inr 8 else Inl (ST_ERR 1 Err_bad_register)
   | _ \<Rightarrow> Inl (ST_ERR 1 Err_bad_register))"

definition properties_aarch64 :: properties_t where
  "properties_aarch64 = \<lparr>
     sp_needs_align = False, num_callee_saved = 20,
     callee_saved_regs = callee_saved_aarch64, callee_saved_size = callee_saved_size_aarch64,
     ra_offset = -0x8, savedfbp_offset = -0x10, cfa_offset_funcentry = 0,
     align_sp = align_sp_aarch64, is_callee_saved = is_callee_saved_aarch64,
     callee_reg_size = callee_reg_size_aarch64\<rparr>"

section \<open>The laws hold\<close>

definition a64_width :: "nat \<Rightarrow> nat option" where
  "a64_width r = map_option (\<lambda>g. case g of V _ \<Rightarrow> 16 | _ \<Rightarrow> 8) (a64_dwarf r)"

lemmas a64_special_defs = pc_aarch64_def sp_aarch64_def fbp_aarch64_def set_pc_aarch64_def
  set_sp_aarch64_def set_fbp_aarch64_def a64_set_x_def setup_fbp_aarch64_def
  AARCH64_FBP_REG_def AARCH64_LINK_REG_def

lemmas a64_reg_defs = reg_aarch64_def reg_write_aarch64_def reg_size_aarch64_def a64_width_def

lemma a64_dwarf_inj: "a64_dwarf r = Some g \<Longrightarrow> a64_dwarf r' = Some g \<Longrightarrow> r = r'"
  by (auto simp: a64_dwarf_def split: if_splits)

lemma a64_width_cases:
  assumes "a64_width r = Some n"
  obtains (X) i where "a64_dwarf r = Some (X i)" "n = 8"
  | (SP) "a64_dwarf r = Some SP" "n = 8"
  | (V) i where "a64_dwarf r = Some (V i)" "n = 16"
proof -
  obtain g where "a64_dwarf r = Some g" using assms by (auto simp: a64_width_def)
  with assms that show ?thesis by (cases g) (auto simp: a64_width_def)
qed

lemma a64_put_some:
  assumes "a64_width r = Some n" and "length bs \<le> n" and "reg_aarch64 rs r = Inr old"
  shows "\<exists>rs'. reg_write_aarch64 rs r bs = Inr rs' \<and>
    reg_aarch64 rs' r = Inr (bs @ drop (length bs) old)"
  using assms(1)
proof (cases rule: a64_width_cases)
  case (X i)
  then obtain w where "overlay bs (a64_x (raw_regs rs) i) = Inr w"
    "le_bytes 8 w = bs @ drop (length bs) (le_bytes 8 (a64_x (raw_regs rs) i))"
    using overlay_law[of 8 bs "a64_x (raw_regs rs) i"] assms(2) by auto
  with X assms show ?thesis by (auto simp: a64_reg_defs a64_set_x_def)
next
  case SP
  then obtain w where "overlay bs (a64_sp (raw_regs rs)) = Inr w"
    "le_bytes 8 w = bs @ drop (length bs) (le_bytes 8 (a64_sp (raw_regs rs)))"
    using overlay_law[of 8 bs "a64_sp (raw_regs rs)"] assms(2) by auto
  with SP assms show ?thesis by (auto simp: a64_reg_defs set_sp_aarch64_def)
next
  case (V i)
  then obtain w where "overlay bs (a64_v (raw_regs rs) i) = Inr w"
    "le_bytes 16 w = bs @ drop (length bs) (le_bytes 16 (a64_v (raw_regs rs) i))"
    using overlay_law[of 16 bs "a64_v (raw_regs rs) i"] assms(2) by auto
  with V assms show ?thesis by (auto simp: a64_reg_defs)
qed

lemma a64_put_other:
  assumes "reg_write_aarch64 rs r bs = Inr rs'" and "r' \<noteq> r"
  shows "reg_aarch64 rs' r' = reg_aarch64 rs r'"
proof -
  obtain g where g: "a64_dwarf r = Some g"
    using assms(1) by (auto simp: reg_write_aarch64_def split: option.splits)
  have "a64_dwarf r' \<noteq> Some g" using a64_dwarf_inj g assms(2) by blast
  with assms(1) g show ?thesis
    by (cases g; auto simp: a64_reg_defs a64_set_x_def set_sp_aarch64_def res_simps
        split: option.splits a64_reg.splits)
qed

lemma a64_put_overrun:
  "a64_width r = Some n \<Longrightarrow> n < length bs \<Longrightarrow> reg_write_aarch64 rs r bs = Inl (UB Register_overrun)"
  by (erule a64_width_cases)
     (simp_all add: reg_write_aarch64_def overlay_overrun[of 8] overlay_overrun[of 16])

interpretation a64: register_file regs_aarch64 a64_width 31 29 30
proof unfold_locales
  show "a64_width r = Some n \<Longrightarrow> length bs \<le> n \<Longrightarrow> reg_get regs_aarch64 rs r = Inr old \<Longrightarrow>
      \<exists>rs'. reg_put regs_aarch64 rs r bs = Inr rs' \<and>
        reg_get regs_aarch64 rs' r = Inr (bs @ drop (length bs) old)" for r n bs rs old
    using a64_put_some by (simp add: regs_aarch64_def)
  show "a64_width r = Some n \<Longrightarrow> n < length bs \<Longrightarrow>
      reg_put regs_aarch64 rs r bs = Inl (UB Register_overrun)" for r n bs rs
    using a64_put_overrun by (simp add: regs_aarch64_def)
  show "reg_put regs_aarch64 rs r bs = Inr rs' \<Longrightarrow> r' \<noteq> r \<Longrightarrow>
      reg_get regs_aarch64 rs' r' = reg_get regs_aarch64 rs r'" for rs r bs rs' r'
    using a64_put_other by (simp add: regs_aarch64_def)
  show "reg_put regs_aarch64 rs r bs = Inr rs' \<Longrightarrow> r \<noteq> 30 \<Longrightarrow> pc regs_aarch64 rs' = pc regs_aarch64 rs" for rs r bs rs'
    by (auto simp: regs_aarch64_def reg_write_aarch64_def a64_special_defs res_simps split: option.splits a64_reg.splits)
  show "a64_width r = Some n \<Longrightarrow> \<exists>bs. reg_get regs_aarch64 rs r = Inr bs \<and> length bs = n" for r n rs
    by (erule a64_width_cases) (simp_all add: regs_aarch64_def reg_aarch64_def)
  show "\<exists>rs'. set_ra_reg regs_aarch64 rs v = Inr rs' \<and> ra_reg regs_aarch64 rs' = Inr v \<and>
      pc regs_aarch64 rs' = pc regs_aarch64 rs \<and>
      (\<forall>r. r \<noteq> 30 \<longrightarrow> reg_get regs_aarch64 rs' r = reg_get regs_aarch64 rs r)" for rs v
    by (auto simp: regs_aarch64_def set_ra_reg_aarch64_def ra_reg_aarch64_def a64_set_x_def
        pc_aarch64_def reg_aarch64_def AARCH64_LINK_REG_def a64_dwarf_def)
qed (auto simp: regs_aarch64_def a64_reg_defs a64_special_defs a64_dwarf_def ra_reg_aarch64_def
    AARCH64_LINK_REG_def regset_clone_aarch64_def regset_copyin_aarch64_def regset_copyout_aarch64_def
    split: option.splits a64_reg.splits)

lemma is_callee_saved_aarch64_set:
  "is_callee_saved_aarch64 r \<longleftrightarrow> r \<in> set callee_saved_aarch64"
  by (auto simp: is_callee_saved_aarch64_def callee_saved_aarch64_def a64_dwarf_def) presburger+

interpretation a64p: stack_properties regs_aarch64 a64_width 31 29 30 properties_aarch64
proof unfold_locales
  show "is_callee_saved properties_aarch64 r \<longleftrightarrow> r \<in> set (callee_saved_regs properties_aarch64)" for r
    by (simp add: properties_aarch64_def is_callee_saved_aarch64_set)
  show "is_callee_saved properties_aarch64 r \<Longrightarrow> r < num_regs regs_aarch64 \<and> r mod 64 < 31" for r
    by (auto simp: properties_aarch64_def is_callee_saved_aarch64_set callee_saved_aarch64_def
        regs_aarch64_def AARCH64_NUM_REGS_def)
  show "is_callee_saved properties_aarch64 r \<Longrightarrow> \<exists>n\<ge>8. a64_width r = Some n" for r
    by (auto simp: properties_aarch64_def is_callee_saved_aarch64_set callee_saved_aarch64_def
        a64_width_def a64_dwarf_def)
qed (auto simp: properties_aarch64_def regs_aarch64_def callee_reg_size_aarch64_def is_callee_saved_aarch64_def
    callee_saved_size_aarch64_def callee_saved_aarch64_def a64_dwarf_def numeral_eq_Suc
    split: option.splits a64_reg.splits)

end
