(* ===== verification/Regs_x86_64.thy ===== *)
theory Regs_x86_64
  imports Regs
begin

text \<open>
  The x86-64 register set and stack properties: \<open>include/arch/x86_64/regs.h\<close>,
  \<open>src/arch/x86_64/regs.c\<close> and \<open>src/arch/x86_64/properties.c\<close>. DWARF numbers 0 to 15 are the
  general-purpose registers in the order RAX, RDX, RCX, RBX, \<dots>, 16 is the instruction pointer
  and 17 to 32 are XMM0 to XMM15. The \<open>long double\<close> fields are kept as their 128-bit images.
\<close>

record regset_x86_64 =
  x86_rip :: u64
  x86_rax :: u64
  x86_rdx :: u64
  x86_rcx :: u64
  x86_rbx :: u64
  x86_rsi :: u64
  x86_rdi :: u64
  x86_rbp :: u64
  x86_rsp :: u64
  x86_r8 :: u64
  x86_r9 :: u64
  x86_r10 :: u64
  x86_r11 :: u64
  x86_r12 :: u64
  x86_r13 :: u64
  x86_r14 :: u64
  x86_r15 :: u64
  x86_mmx :: "nat \<Rightarrow> u64"
  x86_xmm :: "nat \<Rightarrow> u128"
  x86_st :: "nat \<Rightarrow> u128"
  x86_cs :: u32
  x86_ss :: u32
  x86_ds :: u32
  x86_es :: u32
  x86_fs :: u32
  x86_gs :: u32
  x86_rflags :: u64

datatype x86_gpr = RAX | RDX | RCX | RBX | RSI | RDI | RBP | RSP | R8 | R9 | R10 | R11 | R12 | R13 | R14 | R15 | RIP

datatype x86_reg = GPR x86_gpr | XMM nat

definition x86_gprs :: "x86_gpr list" where
  "x86_gprs = [RAX, RDX, RCX, RBX, RSI, RDI, RBP, RSP, R8, R9, R10, R11, R12, R13, R14, R15, RIP]"

text \<open>The \<open>#define\<close>s of the DWARF register mapping, as the register a number names.\<close>

definition x86_dwarf :: "nat \<Rightarrow> x86_reg option" where
  "x86_dwarf r =
     (if r \<le> 16 then Some (GPR (x86_gprs ! r))
      else if r \<le> 32 then Some (XMM (r - 17)) else None)"

definition X86_64_NUM_REGS :: nat where "X86_64_NUM_REGS = 67"

text \<open>\<open>&cur->regs.rax\<close> and its companions: the field a register name selects.\<close>

fun x86_get :: "regset_x86_64 \<Rightarrow> x86_gpr \<Rightarrow> u64" where
  "x86_get rr RAX = x86_rax rr"
| "x86_get rr RDX = x86_rdx rr"
| "x86_get rr RCX = x86_rcx rr"
| "x86_get rr RBX = x86_rbx rr"
| "x86_get rr RSI = x86_rsi rr"
| "x86_get rr RDI = x86_rdi rr"
| "x86_get rr RBP = x86_rbp rr"
| "x86_get rr RSP = x86_rsp rr"
| "x86_get rr R8 = x86_r8 rr"
| "x86_get rr R9 = x86_r9 rr"
| "x86_get rr R10 = x86_r10 rr"
| "x86_get rr R11 = x86_r11 rr"
| "x86_get rr R12 = x86_r12 rr"
| "x86_get rr R13 = x86_r13 rr"
| "x86_get rr R14 = x86_r14 rr"
| "x86_get rr R15 = x86_r15 rr"
| "x86_get rr RIP = x86_rip rr"

fun x86_set :: "regset_x86_64 \<Rightarrow> x86_gpr \<Rightarrow> u64 \<Rightarrow> regset_x86_64" where
  "x86_set rr RAX v = rr\<lparr>x86_rax := v\<rparr>"
| "x86_set rr RDX v = rr\<lparr>x86_rdx := v\<rparr>"
| "x86_set rr RCX v = rr\<lparr>x86_rcx := v\<rparr>"
| "x86_set rr RBX v = rr\<lparr>x86_rbx := v\<rparr>"
| "x86_set rr RSI v = rr\<lparr>x86_rsi := v\<rparr>"
| "x86_set rr RDI v = rr\<lparr>x86_rdi := v\<rparr>"
| "x86_set rr RBP v = rr\<lparr>x86_rbp := v\<rparr>"
| "x86_set rr RSP v = rr\<lparr>x86_rsp := v\<rparr>"
| "x86_set rr R8 v = rr\<lparr>x86_r8 := v\<rparr>"
| "x86_set rr R9 v = rr\<lparr>x86_r9 := v\<rparr>"
| "x86_set rr R10 v = rr\<lparr>x86_r10 := v\<rparr>"
| "x86_set rr R11 v = rr\<lparr>x86_r11 := v\<rparr>"
| "x86_set rr R12 v = rr\<lparr>x86_r12 := v\<rparr>"
| "x86_set rr R13 v = rr\<lparr>x86_r13 := v\<rparr>"
| "x86_set rr R14 v = rr\<lparr>x86_r14 := v\<rparr>"
| "x86_set rr R15 v = rr\<lparr>x86_r15 := v\<rparr>"
| "x86_set rr RIP v = rr\<lparr>x86_rip := v\<rparr>"

type_synonym regset_obj_x86_64 = "regset_x86_64 regset_obj"

definition x86_upd :: "regset_obj_x86_64 \<Rightarrow> x86_gpr \<Rightarrow> u64 \<Rightarrow> regset_obj_x86_64" where
  "x86_upd rs g v = rs\<lparr>raw_regs := x86_set (raw_regs rs) g v\<rparr>"

definition zero_x86_64 :: regset_x86_64 where
  "zero_x86_64 = \<lparr>x86_rip = 0, x86_rax = 0, x86_rdx = 0, x86_rcx = 0, x86_rbx = 0, x86_rsi = 0, x86_rdi = 0, x86_rbp = 0, x86_rsp = 0, x86_r8 = 0, x86_r9 = 0, x86_r10 = 0, x86_r11 = 0, x86_r12 = 0, x86_r13 = 0, x86_r14 = 0, x86_r15 = 0,
     x86_mmx = (\<lambda>_. 0), x86_xmm = (\<lambda>_. 0), x86_st = (\<lambda>_. 0),
     x86_cs = 0, x86_ss = 0, x86_ds = 0, x86_es = 0, x86_fs = 0, x86_gs = 0, x86_rflags = 0\<rparr>"

definition regset_default_x86_64 :: regset_obj_x86_64 where
  "regset_default_x86_64 = \<lparr>initialized = True, raw_regs = zero_x86_64\<rparr>"

definition regset_init_x86_64 :: "regset_x86_64 \<Rightarrow> regset_obj_x86_64" where
  "regset_init_x86_64 rr = \<lparr>initialized = True, raw_regs = rr\<rparr>"

definition regset_clone_x86_64 :: "regset_obj_x86_64 \<Rightarrow> regset_obj_x86_64 \<Rightarrow> regset_obj_x86_64" where
  "regset_clone_x86_64 src dest = src"

definition regset_copyin_x86_64 :: "regset_obj_x86_64 \<Rightarrow> regset_x86_64 \<Rightarrow> regset_obj_x86_64" where
  "regset_copyin_x86_64 rs rr = rs\<lparr>initialized := True, raw_regs := rr\<rparr>"

definition regset_copyout_x86_64 :: "regset_obj_x86_64 \<Rightarrow> regset_x86_64 \<Rightarrow> regset_x86_64" where
  "regset_copyout_x86_64 rs rr = raw_regs rs"

definition pc_x86_64 :: "regset_obj_x86_64 \<Rightarrow> u64" where
  "pc_x86_64 rs = x86_rip (raw_regs rs)"

definition sp_x86_64 :: "regset_obj_x86_64 \<Rightarrow> u64" where
  "sp_x86_64 rs = x86_rsp (raw_regs rs)"

definition fbp_x86_64 :: "regset_obj_x86_64 \<Rightarrow> u64" where
  "fbp_x86_64 rs = x86_rbp (raw_regs rs)"

definition ra_reg_x86_64 :: "regset_obj_x86_64 \<Rightarrow> u64 res" where
  "ra_reg_x86_64 rs = Inl (ST_ERR 1 Err_no_ra_reg)"

definition set_pc_x86_64 :: "regset_obj_x86_64 \<Rightarrow> u64 \<Rightarrow> regset_obj_x86_64" where
  "set_pc_x86_64 rs v = x86_upd rs RIP v"

definition set_sp_x86_64 :: "regset_obj_x86_64 \<Rightarrow> u64 \<Rightarrow> regset_obj_x86_64" where
  "set_sp_x86_64 rs v = x86_upd rs RSP v"

definition set_fbp_x86_64 :: "regset_obj_x86_64 \<Rightarrow> u64 \<Rightarrow> regset_obj_x86_64" where
  "set_fbp_x86_64 rs v = x86_upd rs RBP v"

definition set_ra_reg_x86_64 :: "regset_obj_x86_64 \<Rightarrow> u64 \<Rightarrow> regset_obj_x86_64 res" where
  "set_ra_reg_x86_64 rs v = Inl (ST_ERR 1 Err_no_ra_reg)"

definition setup_fbp_x86_64 :: "bool \<Rightarrow> regset_obj_x86_64 \<Rightarrow> u64 \<Rightarrow> regset_obj_x86_64 res" where
  "setup_fbp_x86_64 checks rs cfa =
     bindE (ASSERT checks (cfa \<noteq> 0)) (\<lambda>_. Inr (x86_upd rs RBP (cfa - 0x10)))"

definition reg_size_x86_64 :: "nat \<Rightarrow> nat res" where
  "reg_size_x86_64 r = (case x86_dwarf r of
     Some (GPR _) \<Rightarrow> Inr 8 | Some (XMM _) \<Rightarrow> Inr 16
   | None \<Rightarrow> Inl (ST_ERR 1 Err_bad_register))"

text \<open>\<open>reg_x86_64\<close>: reading the register it points to, and writing its first bytes.\<close>

definition reg_x86_64 :: "regset_obj_x86_64 \<Rightarrow> nat \<Rightarrow> u8 list res" where
  "reg_x86_64 rs r = (case x86_dwarf r of
     Some (GPR g) \<Rightarrow> Inr (le_bytes 8 (x86_get (raw_regs rs) g))
   | Some (XMM i) \<Rightarrow> Inr (le_bytes 16 (x86_xmm (raw_regs rs) i))
   | None \<Rightarrow> Inl (ST_ERR 1 Err_bad_register))"

definition reg_write_x86_64 :: "regset_obj_x86_64 \<Rightarrow> nat \<Rightarrow> u8 list \<Rightarrow> regset_obj_x86_64 res" where
  "reg_write_x86_64 rs r bs = (case x86_dwarf r of
     Some (GPR g) \<Rightarrow> bindE (overlay bs (x86_get (raw_regs rs) g)) (\<lambda>v. Inr (x86_upd rs g v))
   | Some (XMM i) \<Rightarrow> bindE (overlay bs (x86_xmm (raw_regs rs) i)) (\<lambda>v.
       Inr (rs\<lparr>raw_regs := (raw_regs rs)\<lparr>x86_xmm := (x86_xmm (raw_regs rs))(i := v)\<rparr>\<rparr>))
   | None \<Rightarrow> Inl (ST_ERR 1 Err_bad_register))"

text \<open>\<open>sizeof(regset_obj_x86_64)\<close>: the flag padded to 16, then 208 + 256 + 128 + 24 + 8 bytes.\<close>

definition regs_x86_64 :: "regset_x86_64 regops_t" where
  "regs_x86_64 = \<lparr>
     num_regs = X86_64_NUM_REGS, has_ra_reg = False, regset_size = 640,
     regset_default = regset_default_x86_64, regset_init = regset_init_x86_64,
     regset_clone = regset_clone_x86_64, regset_copyin = regset_copyin_x86_64,
     regset_copyout = regset_copyout_x86_64,
     pc = pc_x86_64, sp = sp_x86_64, fbp = fbp_x86_64, ra_reg = ra_reg_x86_64,
     set_pc = set_pc_x86_64, set_sp = set_sp_x86_64, set_fbp = set_fbp_x86_64,
     set_ra_reg = set_ra_reg_x86_64, setup_fbp = setup_fbp_x86_64,
     reg_size = reg_size_x86_64, reg_get = reg_x86_64, reg_put = reg_write_x86_64\<rparr>"

section \<open>Stack properties\<close>

definition X86_64_STACK_ALIGNMENT :: nat where "X86_64_STACK_ALIGNMENT = 0x10"

definition callee_saved_x86_64 :: "nat list" where
  "callee_saved_x86_64 = [3, 6, 12, 13, 14, 15, 16]"

definition callee_saved_size_x86_64 :: "nat list" where
  "callee_saved_size_x86_64 = [8, 8, 8, 8, 8, 8, 8]"

definition align_sp_x86_64 :: "u64 \<Rightarrow> u64 res" where
  "align_sp_x86_64 stack_ptr =
     Inr (if (stack_ptr + 8) mod of_nat X86_64_STACK_ALIGNMENT \<noteq> 0 then stack_ptr - 8 else stack_ptr)"

definition is_callee_saved_x86_64 :: "nat \<Rightarrow> bool" where
  "is_callee_saved_x86_64 r =
     (x86_dwarf r \<in> Some ` GPR ` {RBX, RBP, R12, R13, R14, R15, RIP})"

definition callee_reg_size_x86_64 :: "nat \<Rightarrow> nat res" where
  "callee_reg_size_x86_64 r =
     (if x86_dwarf r \<in> Some ` GPR ` {RBX, RBP, R12, R13, R14, R15, RIP} then Inr 8
      else Inl (ST_ERR 1 Err_bad_register))"

definition properties_x86_64 :: properties_t where
  "properties_x86_64 = \<lparr>
     sp_needs_align = True, num_callee_saved = 7,
     callee_saved_regs = callee_saved_x86_64, callee_saved_size = callee_saved_size_x86_64,
     ra_offset = -0x8, savedfbp_offset = -0x10, cfa_offset_funcentry = 8,
     align_sp = align_sp_x86_64, is_callee_saved = is_callee_saved_x86_64,
     callee_reg_size = callee_reg_size_x86_64\<rparr>"

section \<open>The laws hold\<close>

definition x86_width :: "nat \<Rightarrow> nat option" where
  "x86_width r = map_option (\<lambda>g. case g of GPR _ \<Rightarrow> 8 | XMM _ \<Rightarrow> 16) (x86_dwarf r)"

lemma x86_get_set: "x86_get (x86_set rr g v) g' = (if g' = g then v else x86_get rr g')"
  by (cases g; cases g'; simp)

lemma x86_xmm_set [simp]: "x86_xmm (x86_set rr g v) = x86_xmm rr"
  by (cases g) simp_all

lemma x86_get_xmm [simp]: "x86_get (rr\<lparr>x86_xmm := f\<rparr>) g = x86_get rr g"
  by (cases g) simp_all

lemma x86_special:
  "pc_x86_64 rs = x86_get (raw_regs rs) RIP" "sp_x86_64 rs = x86_get (raw_regs rs) RSP"
  "fbp_x86_64 rs = x86_get (raw_regs rs) RBP"
  by (simp_all add: pc_x86_64_def sp_x86_64_def fbp_x86_64_def)

declare x86_get.simps [simp del] x86_set.simps [simp del]

lemma nat_le_16_cases:
  assumes "(r :: nat) \<le> 16"
  obtains "r = 0" | "r = 1" | "r = 2" | "r = 3" | "r = 4" | "r = 5" | "r = 6" | "r = 7" | "r = 8"
  | "r = 9" | "r = 10" | "r = 11" | "r = 12" | "r = 13" | "r = 14" | "r = 15" | "r = 16"
proof -
  have "r = 0 \<or> r = 1 \<or> r = 2 \<or> r = 3 \<or> r = 4 \<or> r = 5 \<or> r = 6 \<or> r = 7 \<or> r = 8 \<or> r = 9 \<or>
    r = 10 \<or> r = 11 \<or> r = 12 \<or> r = 13 \<or> r = 14 \<or> r = 15 \<or> r = 16"
    using assms by presburger
  then show thesis using that by blast
qed

lemma x86_gprs_inj:
  assumes "r \<le> 16" and "r' \<le> 16" and "x86_gprs ! r = x86_gprs ! r'"
  shows "r = r'"
proof -
  have "distinct x86_gprs" by (simp add: x86_gprs_def)
  moreover have "length x86_gprs = 17" by (simp add: x86_gprs_def)
  ultimately show ?thesis using assms by (simp add: nth_eq_iff_index_eq)
qed

lemma x86_dwarf_inj: "x86_dwarf r = Some g \<Longrightarrow> x86_dwarf r' = Some g \<Longrightarrow> r = r'"
  by (auto simp: x86_dwarf_def dest: x86_gprs_inj split: if_splits)

lemma x86_dwarf_special [simp]:
  "x86_dwarf 6 = Some (GPR RBP)" "x86_dwarf 7 = Some (GPR RSP)" "x86_dwarf 16 = Some (GPR RIP)"
  by (simp_all add: x86_dwarf_def x86_gprs_def)

lemma x86_width_cases:
  assumes "x86_width r = Some n"
  obtains (GPR) g where "x86_dwarf r = Some (GPR g)" "n = 8"
  | (XMM) i where "x86_dwarf r = Some (XMM i)" "n = 16"
proof -
  obtain g where "x86_dwarf r = Some g" using assms by (auto simp: x86_width_def)
  with assms that show ?thesis by (cases g) (auto simp: x86_width_def)
qed

lemma x86_put_some:
  assumes "x86_width r = Some n" and "length bs \<le> n" and "reg_x86_64 rs r = Inr old"
  shows "\<exists>rs'. reg_write_x86_64 rs r bs = Inr rs' \<and>
    reg_x86_64 rs' r = Inr (bs @ drop (length bs) old)"
  using assms(1)
proof (cases rule: x86_width_cases)
  case (GPR g)
  then obtain w where "overlay bs (x86_get (raw_regs rs) g) = Inr w"
    "le_bytes 8 w = bs @ drop (length bs) (le_bytes 8 (x86_get (raw_regs rs) g))"
    using overlay_law[of 8 bs "x86_get (raw_regs rs) g"] assms(2) by auto
  with GPR assms show ?thesis
    by (auto simp: reg_write_x86_64_def reg_x86_64_def x86_upd_def x86_get_set)
next
  case (XMM i)
  then obtain w where "overlay bs (x86_xmm (raw_regs rs) i) = Inr w"
    "le_bytes 16 w = bs @ drop (length bs) (le_bytes 16 (x86_xmm (raw_regs rs) i))"
    using overlay_law[of 16 bs "x86_xmm (raw_regs rs) i"] assms(2) by auto
  with XMM assms show ?thesis by (auto simp: reg_write_x86_64_def reg_x86_64_def)
qed

lemma x86_put_other:
  assumes "reg_write_x86_64 rs r bs = Inr rs'" and "r' \<noteq> r"
  shows "reg_x86_64 rs' r' = reg_x86_64 rs r'"
proof -
  obtain g where g: "x86_dwarf r = Some g"
    using assms(1) by (auto simp: reg_write_x86_64_def split: option.splits)
  have "x86_dwarf r' \<noteq> Some g" using x86_dwarf_inj g assms(2) by blast
  with assms(1) g show ?thesis
    by (cases g; auto simp: reg_write_x86_64_def reg_x86_64_def x86_upd_def x86_get_set res_simps
        split: option.splits x86_reg.splits)
qed

interpretation x86: register_file regs_x86_64 x86_width 7 6 16
proof unfold_locales
  show "x86_width r = Some n \<Longrightarrow> length bs \<le> n \<Longrightarrow> reg_get regs_x86_64 rs r = Inr old \<Longrightarrow>
      \<exists>rs'. reg_put regs_x86_64 rs r bs = Inr rs' \<and>
        reg_get regs_x86_64 rs' r = Inr (bs @ drop (length bs) old)" for r n bs rs old
    using x86_put_some by (simp add: regs_x86_64_def)
  show "x86_width r = Some n \<Longrightarrow> n < length bs \<Longrightarrow>
      reg_put regs_x86_64 rs r bs = Inl (UB Register_overrun)" for r n bs rs
    by (erule x86_width_cases)
       (simp_all add: regs_x86_64_def reg_write_x86_64_def overlay_overrun[of 8] overlay_overrun[of 16])
  show "reg_put regs_x86_64 rs r bs = Inr rs' \<Longrightarrow> r' \<noteq> r \<Longrightarrow>
      reg_get regs_x86_64 rs' r' = reg_get regs_x86_64 rs r'" for rs r bs rs' r'
    using x86_put_other by (simp add: regs_x86_64_def)
  show "reg_put regs_x86_64 rs r bs = Inr rs' \<Longrightarrow> r \<noteq> 16 \<Longrightarrow> pc regs_x86_64 rs' = pc regs_x86_64 rs" for rs r bs rs'
    using x86_put_other[of rs r bs rs' 16] by (simp add: regs_x86_64_def reg_x86_64_def x86_special)
  show "x86_width r = Some n \<Longrightarrow> \<exists>bs. reg_get regs_x86_64 rs r = Inr bs \<and> length bs = n" for r n rs
    by (erule x86_width_cases) (simp_all add: regs_x86_64_def reg_x86_64_def)
  show "r \<noteq> 7 \<Longrightarrow> reg_get regs_x86_64 (set_sp regs_x86_64 rs v) r = reg_get regs_x86_64 rs r" for r rs v
    using x86_dwarf_inj[of r "GPR RSP" 7]
    by (auto simp: regs_x86_64_def reg_x86_64_def set_sp_x86_64_def x86_upd_def x86_get_set
        split: option.splits x86_reg.splits)
  show "r \<noteq> 6 \<Longrightarrow> reg_get regs_x86_64 (set_fbp regs_x86_64 rs v) r = reg_get regs_x86_64 rs r" for r rs v
    using x86_dwarf_inj[of r "GPR RBP" 6]
    by (auto simp: regs_x86_64_def reg_x86_64_def set_fbp_x86_64_def x86_upd_def x86_get_set
        split: option.splits x86_reg.splits)
qed (auto simp: regs_x86_64_def reg_x86_64_def reg_write_x86_64_def reg_size_x86_64_def x86_width_def
    x86_special set_pc_x86_64_def set_sp_x86_64_def set_fbp_x86_64_def x86_upd_def x86_get_set
    setup_fbp_x86_64_def regset_clone_x86_64_def regset_copyin_x86_64_def regset_copyout_x86_64_def
    split: option.splits x86_reg.splits)

lemma is_callee_saved_x86_64_set: "is_callee_saved_x86_64 r \<longleftrightarrow> r \<in> set callee_saved_x86_64"
proof (cases "r \<le> 16")
  case True
  then show ?thesis
    by (rule nat_le_16_cases)
       (auto simp: is_callee_saved_x86_64_def callee_saved_x86_64_def x86_dwarf_def x86_gprs_def)
next
  case False
  then show ?thesis
    by (auto simp: is_callee_saved_x86_64_def callee_saved_x86_64_def x86_dwarf_def)
qed

interpretation x86p: stack_properties regs_x86_64 x86_width 7 6 16 properties_x86_64
proof unfold_locales
  show "is_callee_saved properties_x86_64 r \<longleftrightarrow> r \<in> set (callee_saved_regs properties_x86_64)" for r
    by (simp add: properties_x86_64_def is_callee_saved_x86_64_set)
  show "callee_reg_size properties_x86_64 r =
      (if is_callee_saved properties_x86_64 r then Inr 8 else Inl (ST_ERR 1 Err_bad_register))" for r
    by (simp add: properties_x86_64_def callee_reg_size_x86_64_def is_callee_saved_x86_64_def)
  show "is_callee_saved properties_x86_64 r \<Longrightarrow> \<exists>n\<ge>8. x86_width r = Some n" for r
    by (auto simp: properties_x86_64_def is_callee_saved_x86_64_def x86_width_def)
  show "callee_saved_size properties_x86_64 =
      replicate (length (callee_saved_regs properties_x86_64)) 8"
    by (simp add: properties_x86_64_def callee_saved_x86_64_def callee_saved_size_x86_64_def)
  show "is_callee_saved properties_x86_64 r \<Longrightarrow> r < num_regs regs_x86_64 \<and> r mod 64 < 31" for r
    by (auto simp: properties_x86_64_def is_callee_saved_x86_64_set callee_saved_x86_64_def
        regs_x86_64_def X86_64_NUM_REGS_def)
qed (simp_all add: properties_x86_64_def align_sp_x86_64_def regs_x86_64_def is_callee_saved_x86_64_set callee_saved_x86_64_def)

text \<open>
  The alignment of the stack pointer at function entry: the result plus 8 is a multiple of 16
  whenever the input was 8-byte aligned, and the stack pointer moves down by at most 8.
\<close>

lemma align_sp_x86_64_aligned:
  assumes "unat v mod 8 = 0"
  shows "\<exists>a. align_sp_x86_64 v = Inr a \<and> (unat a + 8) mod 16 = 0 \<and> (a = v \<or> a = v - 8)"
proof -
  have "unat ((v + 8) mod 16) = (unat v + 8) mod 2 ^ 64 mod 16"
    by (simp add: unat_mod unat_word_ariths)
  also have "\<dots> = (unat v + 8) mod 16"
    by (rule mod_mod_cancel) simp
  finally have "(v + 8) mod 16 = 0 \<longleftrightarrow> (unat v + 8) mod 16 = 0"
    by (metis unat_eq_zero)
  then have run: "align_sp_x86_64 v = Inr (if (unat v + 8) mod 16 \<noteq> 0 then v - 8 else v)"
    by (simp add: align_sp_x86_64_def X86_64_STACK_ALIGNMENT_def)
  show ?thesis
  proof (cases "(unat v + 8) mod 16 = 0")
    case True
    with run show ?thesis by simp
  next
    case False
    with assms have v: "unat v mod 16 = 0" by presburger
    have "(unat (v - 8) + 8) mod 16 = 0"
    proof (cases "8 \<le> unat v")
      case True
      then have "unat (v - 8) = unat v - 8" by (simp add: unat_sub word_le_nat_alt)
      with True v show ?thesis by simp
    next
      case False
      with v have "unat v = 0" by presburger
      then have "v = 0" by (simp add: unat_eq_zero)
      then show ?thesis by simp
    qed
    with run False show ?thesis by simp
  qed
qed

end
