(* ===== verification/Unwind.thy ===== *)
theory Unwind
  imports Lookup Regs_aarch64 Regs_x86_64
begin

text \<open>
  Unwinding of frame activations, \<open>lib/stack_transformation/src/unwind.c\<close>. An activation number
  outside the array \<open>acts[MAX_FRAMES]\<close> is undefined behaviour, as is a callee-saved bitmap that
  lies outside the pool. Stack memory is an argument: the unwinder only reads it.
\<close>

section \<open>Operations\<close>

definition act_slot :: "nat \<Rightarrow> unit res" where
  "act_slot i = (if i < MAX_FRAMES then Inr () else Inl (UB Out_of_bounds))"

definition setup_regset :: "'raw rewrite_context \<Rightarrow> nat \<Rightarrow> 'raw rewrite_context res" where
  "setup_regset ctx i =
     bindE (act_slot i) (\<lambda>_.
       Inr (upd_act ctx i (\<lambda>a. a\<lparr>act_regs :=
         regset_clone (REGOPS ctx) (act_regs (acts ctx (i - 1))) (act_regs a)\<rparr>)))"

text \<open>
  The pool is an array of words and the bitmap size is a number of bytes: the index of the
  bitmap of activation \<open>i\<close> is \<open>i\<close> times the size in bytes, as in the source.
\<close>

definition setup_callee_saved_bits :: "'raw rewrite_context \<Rightarrow> nat \<Rightarrow> 'raw rewrite_context res" where
  "setup_callee_saved_bits ctx i =
     bindE (act_slot i) (\<lambda>_.
       Inr (upd_act ctx i (\<lambda>a. a\<lparr>act_callee_saved :=
         \<lparr>bm_size = num_regs (REGOPS ctx),
          bm_bits = Some (i * bitmap_size (num_regs (REGOPS ctx)))\<rparr>\<rparr>)))"

text \<open>The records of one call site: a range of 32-bit indices that may wrap around.\<close>

definition unwind_range :: "call_site \<Rightarrow> nat list" where
  "unwind_range site =
     (let unwind_start = (ucast (cs_unwind_offset site) :: u32);
          unwind_end = unwind_start + ucast (cs_num_unwind site)
      in [unat unwind_start..<unat unwind_end])"

definition save_slot :: "'raw rewrite_context \<Rightarrow> 'raw activation \<Rightarrow> unwind_loc \<Rightarrow> u64" where
  "save_slot ctx a l = ptr_add (fbp (REGOPS ctx) (act_regs a)) (sint (ul_offset l))"

definition restore_reg :: "bool \<Rightarrow> mem \<Rightarrow> nat \<Rightarrow> 'raw rewrite_context \<Rightarrow> unwind_loc \<Rightarrow>
    'raw rewrite_context res" where
  "restore_reg checks m i ctx l =
     (let saved_loc = save_slot ctx (acts ctx (i - 1)) l; r = unat (ul_reg l) in
      bindE (callee_reg_size (PROPS ctx) r) (\<lambda>sz.
      bindE (reg_put (REGOPS ctx) (act_regs (acts ctx i)) r (read_bytes m saved_loc sz)) (\<lambda>rs.
      let ctx1 = upd_act ctx i (\<lambda>a. a\<lparr>act_regs := rs\<rparr>) in
      bindE (bitmap_set checks (callee_saved_pool ctx1) (act_callee_saved (acts ctx1 (i - 1))) r)
        (\<lambda>pool. Inr (ctx1\<lparr>callee_saved_pool := pool\<rparr>)))))"

primrec restore_loop :: "bool \<Rightarrow> mem \<Rightarrow> nat \<Rightarrow> 'raw rewrite_context \<Rightarrow> nat list \<Rightarrow>
    'raw rewrite_context res" where
  "restore_loop checks m i ctx [] = Inr ctx"
| "restore_loop checks m i ctx (k # ks) =
     bindE (array_get (unwind_locs (handle ctx)) k) (\<lambda>l.
     bindE (restore_reg checks m i ctx l) (\<lambda>ctx1. restore_loop checks m i ctx1 ks))"

definition set_pc_from_ra :: "nat \<Rightarrow> 'raw rewrite_context \<Rightarrow> 'raw rewrite_context res" where
  "set_pc_from_ra i ctx =
     (if has_ra_reg (REGOPS ctx) then
        bindE (ra_reg (REGOPS ctx) (act_regs (acts ctx i))) (\<lambda>ra.
          Inr (upd_act ctx i (\<lambda>a. a\<lparr>act_regs := set_pc (REGOPS ctx) (act_regs a) ra\<rparr>)))
      else Inr ctx)"

definition restore_callee_saved_regs :: "bool \<Rightarrow> mem \<Rightarrow> 'raw rewrite_context \<Rightarrow> nat \<Rightarrow>
    'raw rewrite_context res" where
  "restore_callee_saved_regs checks m ctx i =
     bindE (ASSERT checks (0 < i)) (\<lambda>_.
     bindE (restore_loop checks m i ctx (unwind_range (act_site (acts ctx (i - 1))))) (\<lambda>ctx1.
       set_pc_from_ra i ctx1))"

definition calculate_cfa :: "bool \<Rightarrow> 'raw rewrite_context \<Rightarrow> nat \<Rightarrow> u64 res" where
  "calculate_cfa checks ctx i =
     bindE (ASSERT checks (cs_addr (act_site (acts ctx i)) \<noteq> 0)) (\<lambda>_.
       Inr (sp (REGOPS ctx) (act_regs (acts ctx i)) + ucast (cs_frame_size (act_site (acts ctx i)))))"

definition setup_frame_bounds :: "bool \<Rightarrow> 'raw rewrite_context \<Rightarrow> nat \<Rightarrow> 'raw rewrite_context res" where
  "setup_frame_bounds checks ctx i =
     bindE (ASSERT checks (0 < i)) (\<lambda>_.
     bindE (ASSERT checks (act_cfa (acts ctx (i - 1)) \<noteq> 0)) (\<lambda>_.
     bindE (ASSERT checks (cs_addr (act_site (acts ctx i)) \<noteq> 0)) (\<lambda>_.
     let new_sp = act_cfa (acts ctx (i - 1));
         ctx1 = upd_act ctx i (\<lambda>a. a\<lparr>act_regs := set_sp (REGOPS ctx) (act_regs a) new_sp\<rparr>) in
     bindE (calculate_cfa checks ctx1 i) (\<lambda>cfa.
     let ctx2 = upd_act ctx1 i (\<lambda>a. a\<lparr>act_cfa := cfa\<rparr>) in
     bindE (setup_fbp (REGOPS ctx) checks (act_regs (acts ctx2 i)) (act_cfa (acts ctx2 i))) (\<lambda>rs.
     let ctx3 = upd_act ctx2 i (\<lambda>a. a\<lparr>act_regs := rs\<rparr>) in
     bindE (ASSERT checks (fbp (REGOPS ctx) (act_regs (acts ctx3 i)) \<noteq> 0)) (\<lambda>_.
       Inr ctx3))))))"

definition first_frame :: "u64 \<Rightarrow> bool" where
  "first_frame i = (if i = UINT64_MAX \<or> i = UINT64_MAX - 1 then True else False)"

definition bootstrap_first_frame :: "bool \<Rightarrow> 'raw rewrite_context \<Rightarrow> 'raw rewrite_context res" where
  "bootstrap_first_frame checks ctx =
     bindE (ASSERT checks (act ctx = 0)) (\<lambda>_.
     bindE (setup_callee_saved_bits ctx (act ctx)) (\<lambda>ctx1.
     bindE (calculate_cfa checks ctx1 (act ctx1)) (\<lambda>cfa.
       Inr (upd_act ctx1 (act ctx1) (\<lambda>a. a\<lparr>act_cfa := cfa\<rparr>)))))"

definition bootstrap_first_frame_funcentry :: "bool \<Rightarrow> 'raw rewrite_context \<Rightarrow>
    'raw rewrite_context res" where
  "bootstrap_first_frame_funcentry checks ctx =
     bindE (ASSERT checks (act ctx = 0)) (\<lambda>_.
     bindE (setup_callee_saved_bits ctx (act ctx)) (\<lambda>ctx1.
       Inr (upd_act ctx1 (act ctx1) (\<lambda>a. a\<lparr>act_cfa :=
         ptr_add (sp (REGOPS ctx1) (act_regs a)) (cfa_offset_funcentry (PROPS ctx1))\<rparr>))))"

text \<open>The check of the number of frames follows the writes to the new activation.\<close>

definition advance :: "bool \<Rightarrow> 'raw rewrite_context \<Rightarrow> 'raw rewrite_context res" where
  "advance checks ctx =
     (let ctx1 = ctx\<lparr>act := act ctx + 1\<rparr> in
      bindE (ASSERT checks (act ctx1 < MAX_FRAMES)) (\<lambda>_. Inr ctx1))"

definition pop_frame :: "bool \<Rightarrow> mem \<Rightarrow> 'raw rewrite_context \<Rightarrow> bool \<Rightarrow> 'raw rewrite_context res" where
  "pop_frame checks m ctx setup_bounds =
     (let next_frame = act ctx + 1 in
      bindE (setup_regset ctx next_frame) (\<lambda>ctx1.
      bindE (setup_callee_saved_bits ctx1 next_frame) (\<lambda>ctx2.
      bindE (restore_callee_saved_regs checks m ctx2 next_frame) (\<lambda>ctx3.
      bindE (if setup_bounds then setup_frame_bounds checks ctx3 next_frame
             else Inr (upd_act ctx3 (act ctx3 + 1) (\<lambda>a. a\<lparr>act_regs :=
               set_sp (REGOPS ctx3) (act_regs a) (act_cfa (ACT ctx3))\<rparr>)))
        (advance checks)))))"

definition pop_frame_funcentry :: "bool \<Rightarrow> mem \<Rightarrow> 'raw rewrite_context \<Rightarrow> 'raw rewrite_context res" where
  "pop_frame_funcentry checks m ctx =
     (let next_frame = act ctx + 1 in
      bindE (setup_regset ctx next_frame) (\<lambda>ctx1.
      bindE (setup_callee_saved_bits ctx1 next_frame) (\<lambda>ctx2.
      bindE (if has_ra_reg (REGOPS ctx2) then ra_reg (REGOPS ctx2) (act_regs (ACT ctx2))
             else Inr (load64 m (sp (REGOPS ctx2) (act_regs (ACT ctx2))))) (\<lambda>ra.
      let ctx3 = upd_act ctx2 (act ctx2 + 1) (\<lambda>a. a\<lparr>act_regs :=
            set_pc (REGOPS ctx2) (act_regs a) ra\<rparr>) in
      bindE (setup_frame_bounds checks ctx3 next_frame) (\<lambda>ctx4.
      let ctx5 = upd_act ctx4 (act ctx4) (\<lambda>a. a\<lparr>act_regs :=
            set_fbp (REGOPS ctx4) (act_regs a) (fbp (REGOPS ctx4) (act_regs (NEXT_ACT ctx4)))\<rparr>) in
      advance checks ctx5)))))"

text \<open>
  The saved location of a register in an activation; \<open>0\<close> (\<open>NULL\<close>) when the site has no record
  of it. The bitmap is consulted only by the assertion.
\<close>

primrec save_search :: "'raw rewrite_context \<Rightarrow> 'raw activation \<Rightarrow> nat \<Rightarrow> nat list \<Rightarrow> u64 res" where
  "save_search ctx a r [] = Inr 0"
| "save_search ctx a r (k # ks) =
     bindE (array_get (unwind_locs (handle ctx)) k) (\<lambda>l.
       if unat (ul_reg l) = r then Inr (save_slot ctx a l) else save_search ctx a r ks)"

definition get_register_save_loc :: "bool \<Rightarrow> 'raw rewrite_context \<Rightarrow> 'raw activation \<Rightarrow> nat \<Rightarrow> u64 res" where
  "get_register_save_loc checks ctx a r =
     bindE (if checks then
              bindE (bitmap_is_set checks (callee_saved_pool ctx) (act_callee_saved a) r)
                (ASSERT checks)
            else Inr ()) (\<lambda>_.
       save_search ctx a r (unwind_range (act_site a)))"

text \<open>Clearing an activation, done only in builds with checks; all bytes become zero.\<close>

definition free_activation :: "bool \<Rightarrow> 'raw st_handle \<Rightarrow> 'raw activation \<Rightarrow> 'raw activation" where
  "free_activation checks h a =
     (if checks then
        a\<lparr>act_site := EMPTY_CALL_SITE\<lparr>cs_padding := 0\<rparr>, act_cfa := 0,
          act_regs := (regset_default (h_regops h))\<lparr>initialized := False\<rparr>,
          act_callee_saved := \<lparr>bm_size = 0, bm_bits = None\<rparr>\<rparr>
      else a)"

section \<open>What unwinding restores\<close>

text \<open>
  The restored context differs from the old one in the registers of the new activation and in
  the pool; \<open>with_regs\<close> names that shape. \<open>site_locs\<close> are the unwinding records of a site.
\<close>

definition with_regs :: "'raw rewrite_context \<Rightarrow> nat \<Rightarrow> 'raw regset_obj \<Rightarrow> u64 list \<Rightarrow>
    'raw rewrite_context" where
  "with_regs ctx i rs pool = (upd_act ctx i (\<lambda>a. a\<lparr>act_regs := rs\<rparr>))\<lparr>callee_saved_pool := pool\<rparr>"

definition site_locs :: "'raw st_handle \<Rightarrow> call_site \<Rightarrow> unwind_loc list" where
  "site_locs h site = map ((!) (unwind_locs h)) (unwind_range site)"

definition loc_reg :: "unwind_loc \<Rightarrow> nat" where
  "loc_reg l = unat (ul_reg l)"

lemma with_regs_simps [simp]:
  "handle (with_regs ctx i rs pool) = handle ctx"
  "act (with_regs ctx i rs pool) = act ctx" "num_acts (with_regs ctx i rs pool) = num_acts ctx"
  "stack (with_regs ctx i rs pool) = stack ctx" "stack_base (with_regs ctx i rs pool) = stack_base ctx"
  "out_regs (with_regs ctx i rs pool) = out_regs ctx"
  "stack_pointers (with_regs ctx i rs pool) = stack_pointers ctx"
  "callee_saved_pool (with_regs ctx i rs pool) = pool"
  "acts (with_regs ctx i rs pool) j = (if j = i then (acts ctx i)\<lparr>act_regs := rs\<rparr> else acts ctx j)"
  by (simp_all add: with_regs_def)

lemma with_regs_with_regs [simp]:
  "with_regs (with_regs ctx i rs pool) i rs' pool' = with_regs ctx i rs' pool'"
  by (simp add: with_regs_def upd_act_def)

lemma with_regs_id [simp]: "with_regs ctx i (act_regs (acts ctx i)) (callee_saved_pool ctx) = ctx"
  by (simp add: with_regs_def upd_act_def)

lemma save_slot_with_regs [simp]: "save_slot (with_regs ctx i rs pool) a l = save_slot ctx a l"
  by (simp add: save_slot_def)

text \<open>
  An activation can be unwound when its records lie inside the table and name callee-saved
  registers, each once, and its bitmap lies inside the pool.
\<close>

definition unwindable :: "properties_t \<Rightarrow> nat \<Rightarrow> 'raw rewrite_context \<Rightarrow> 'raw activation \<Rightarrow> bool" where
  "unwindable props n ctx a \<longleftrightarrow>
     (\<forall>k\<in>set (unwind_range (act_site a)). k < length (unwind_locs (handle ctx))) \<and>
     (\<forall>l\<in>set (site_locs (handle ctx) (act_site a)). is_callee_saved props (loc_reg l)) \<and>
     distinct (map loc_reg (site_locs (handle ctx) (act_site a))) \<and>
     bitmap_wf (callee_saved_pool ctx) (act_callee_saved a) \<and> bm_size (act_callee_saved a) = n"

text \<open>
  The register set of a caller, as seen from the activation \<open>a\<close> of its callee: the stack pointer
  is the callee's canonical frame address, the saved registers have the contents of their
  slots, the other registers those of the callee, and the program counter is the value of the
  register \<open>rar\<close> that stands for the return address.
\<close>

definition caller_regs :: "'raw regops_t \<Rightarrow> nat \<Rightarrow> nat \<Rightarrow> mem \<Rightarrow> 'raw rewrite_context \<Rightarrow> 'raw activation \<Rightarrow>
    'raw regset_obj \<Rightarrow> bool" where
  "caller_regs ops spr rar m ctx a rs \<longleftrightarrow>
     sp ops rs = act_cfa a \<and>
     (\<forall>l\<in>set (site_locs (handle ctx) (act_site a)).
        reg_read64 ops rs (loc_reg l) = Inr (load64 m (save_slot ctx a l))) \<and>
     (\<forall>r. r \<notin> loc_reg ` set (site_locs (handle ctx) (act_site a)) \<longrightarrow> r \<noteq> spr \<longrightarrow>
        reg_get ops rs r = reg_get ops (act_regs a) r) \<and>
     reg_read64 ops rs rar = Inr (pc ops rs)"

text \<open>The context with the bitmap of the next activation set up.\<close>

definition entered :: "'raw rewrite_context \<Rightarrow> 'raw rewrite_context" where
  "entered ctx = upd_act ctx (act ctx + 1) (\<lambda>a. a\<lparr>act_callee_saved :=
     \<lparr>bm_size = num_regs (REGOPS ctx),
      bm_bits = Some ((act ctx + 1) * bitmap_size (num_regs (REGOPS ctx)))\<rparr>\<rparr>)"

lemma entered_simps [simp]:
  "handle (entered ctx) = handle ctx" "act (entered ctx) = act ctx"
  "num_acts (entered ctx) = num_acts ctx" "stack (entered ctx) = stack ctx"
  "stack_base (entered ctx) = stack_base ctx" "out_regs (entered ctx) = out_regs ctx"
  "stack_pointers (entered ctx) = stack_pointers ctx"
  "callee_saved_pool (entered ctx) = callee_saved_pool ctx"
  "j \<noteq> Suc (act ctx) \<Longrightarrow> acts (entered ctx) j = acts ctx j"
  "act_site (acts (entered ctx) j) = act_site (acts ctx j)"
  "act_cfa (acts (entered ctx) j) = act_cfa (acts ctx j)"
  "act_regs (acts (entered ctx) j) = act_regs (acts ctx j)"
  by (simp_all add: entered_def)

lemma activation_upd_comm:
  "a\<lparr>act_regs := rs, act_callee_saved := b\<rparr> = a\<lparr>act_callee_saved := b, act_regs := rs\<rparr>"
  "a\<lparr>act_regs := rs, act_cfa := c\<rparr> = a\<lparr>act_cfa := c, act_regs := rs\<rparr>"
  by (cases a; simp)+

lemma act_slot_in [simp]: "i < MAX_FRAMES \<Longrightarrow> act_slot i = Inr ()"
  by (simp add: act_slot_def)

context stack_properties
begin

lemma restore_reg_law:
  assumes ops: "REGOPS ctx = ops" "PROPS ctx = props" and i: "0 < i"
    and callee: "is_callee_saved props (loc_reg l)"
    and wf: "bitmap_wf (callee_saved_pool ctx) (act_callee_saved (acts ctx (i - 1)))"
    and size: "bm_size (act_callee_saved (acts ctx (i - 1))) = num_regs ops"
  shows "\<exists>rs pool. restore_reg checks m i ctx l = Inr (with_regs ctx i rs pool) \<and>
    reg_read ops rs (loc_reg l) 8 = Inr (read_bytes m (save_slot ctx (acts ctx (i - 1)) l) 8) \<and>
    (\<forall>r. r \<noteq> loc_reg l \<longrightarrow> reg_get ops rs r = reg_get ops (act_regs (acts ctx i)) r) \<and>
    bitmap_wf pool (act_callee_saved (acts ctx (i - 1))) \<and>
    length pool = length (callee_saved_pool ctx) \<and>
    bitmap_elems pool (act_callee_saved (acts ctx (i - 1))) =
      insert (loc_reg l) (bitmap_elems (callee_saved_pool ctx) (act_callee_saved (acts ctx (i - 1))))"
proof -
  let ?bs = "read_bytes m (save_slot ctx (acts ctx (i - 1)) l) 8"
  obtain n where n: "8 \<le> n" "width (loc_reg l) = Some n" using callee_width[OF callee] by blast
  obtain rs where rs: "reg_put ops (act_regs (acts ctx i)) (loc_reg l) ?bs = Inr rs"
    "reg_read ops rs (loc_reg l) 8 = Inr ?bs"
    using read_put_same[OF n(2), of ?bs] n(1) by auto
  have "shiftable (act_callee_saved (acts ctx (i - 1))) (loc_reg l)"
    using callee_shift[OF callee] size by (simp add: shiftable_def)
  from bitmap_set_wf[OF wf this] obtain pool where pool:
    "bitmap_set checks (callee_saved_pool ctx) (act_callee_saved (acts ctx (i - 1))) (loc_reg l) = Inr pool"
    "bitmap_wf pool (act_callee_saved (acts ctx (i - 1)))" "length pool = length (callee_saved_pool ctx)"
    "bitmap_elems pool (act_callee_saved (acts ctx (i - 1))) =
      insert (loc_reg l) (bitmap_elems (callee_saved_pool ctx) (act_callee_saved (acts ctx (i - 1))))"
    by blast
  have "restore_reg checks m i ctx l = Inr (with_regs ctx i rs pool)"
    using rs(1) pool(1) callee i ops
    by (simp add: restore_reg_def loc_reg_def Let_def callee_size with_regs_def)
  with rs put_other[OF rs(1)] pool show ?thesis by blast
qed

lemma restore_loop_law:
  assumes ops: "REGOPS ctx = ops" "PROPS ctx = props" and i: "0 < i"
    and "\<forall>k\<in>set ks. k < length (unwind_locs (handle ctx))"
    and "\<forall>k\<in>set ks. is_callee_saved props (loc_reg (unwind_locs (handle ctx) ! k))"
    and "bitmap_wf (callee_saved_pool ctx) (act_callee_saved (acts ctx (i - 1)))"
    and "bm_size (act_callee_saved (acts ctx (i - 1))) = num_regs ops"
    and "distinct (map (\<lambda>k. loc_reg (unwind_locs (handle ctx) ! k)) ks)"
  shows "\<exists>rs pool. restore_loop checks m i ctx ks = Inr (with_regs ctx i rs pool) \<and>
    (\<forall>k\<in>set ks. reg_read ops rs (loc_reg (unwind_locs (handle ctx) ! k)) 8 =
       Inr (read_bytes m (save_slot ctx (acts ctx (i - 1)) (unwind_locs (handle ctx) ! k)) 8)) \<and>
    (\<forall>r. r \<notin> (\<lambda>k. loc_reg (unwind_locs (handle ctx) ! k)) ` set ks \<longrightarrow>
       reg_get ops rs r = reg_get ops (act_regs (acts ctx i)) r) \<and>
    bitmap_wf pool (act_callee_saved (acts ctx (i - 1))) \<and>
    length pool = length (callee_saved_pool ctx) \<and>
    bitmap_elems pool (act_callee_saved (acts ctx (i - 1))) =
      bitmap_elems (callee_saved_pool ctx) (act_callee_saved (acts ctx (i - 1))) \<union>
      (\<lambda>k. loc_reg (unwind_locs (handle ctx) ! k)) ` set ks"
  using assms
proof (induction ks arbitrary: ctx)
  case Nil
  then show ?case
    by (intro exI[of _ "act_regs (acts ctx i)"] exI[of _ "callee_saved_pool ctx"]) simp
next
  case (Cons k ks)
  let ?l = "unwind_locs (handle ctx) ! k" and ?prev = "act_callee_saved (acts ctx (i - 1))"
  have callee: "is_callee_saved props (loc_reg ?l)" using Cons.prems by simp
  from restore_reg_law[OF Cons.prems(1-3) callee Cons.prems(6,7), of checks m]
  obtain rs pool where 1: "restore_reg checks m i ctx ?l = Inr (with_regs ctx i rs pool)"
    "reg_read ops rs (loc_reg ?l) 8 = Inr (read_bytes m (save_slot ctx (acts ctx (i - 1)) ?l) 8)"
    "\<forall>r. r \<noteq> loc_reg ?l \<longrightarrow> reg_get ops rs r = reg_get ops (act_regs (acts ctx i)) r"
    "bitmap_wf pool ?prev" "length pool = length (callee_saved_pool ctx)"
    "bitmap_elems pool ?prev = insert (loc_reg ?l) (bitmap_elems (callee_saved_pool ctx) ?prev)"
    by blast
  let ?ctx = "with_regs ctx i rs pool"
  have prev: "acts ?ctx (i - 1) = acts ctx (i - 1)" using i by simp
  have "\<exists>rs2 pool2. restore_loop checks m i ?ctx ks = Inr (with_regs ?ctx i rs2 pool2) \<and>
    (\<forall>k\<in>set ks. reg_read ops rs2 (loc_reg (unwind_locs (handle ?ctx) ! k)) 8 =
       Inr (read_bytes m (save_slot ?ctx (acts ?ctx (i - 1)) (unwind_locs (handle ?ctx) ! k)) 8)) \<and>
    (\<forall>r. r \<notin> (\<lambda>k. loc_reg (unwind_locs (handle ?ctx) ! k)) ` set ks \<longrightarrow>
       reg_get ops rs2 r = reg_get ops (act_regs (acts ?ctx i)) r) \<and>
    bitmap_wf pool2 (act_callee_saved (acts ?ctx (i - 1))) \<and>
    length pool2 = length (callee_saved_pool ?ctx) \<and>
    bitmap_elems pool2 (act_callee_saved (acts ?ctx (i - 1))) =
      bitmap_elems (callee_saved_pool ?ctx) (act_callee_saved (acts ?ctx (i - 1))) \<union>
      (\<lambda>k. loc_reg (unwind_locs (handle ?ctx) ! k)) ` set ks"
    by (rule Cons.IH) (use Cons.prems 1(4) prev in simp_all)
  then obtain rs2 pool2 where 2: "restore_loop checks m i ?ctx ks = Inr (with_regs ctx i rs2 pool2)"
    "\<forall>k\<in>set ks. reg_read ops rs2 (loc_reg (unwind_locs (handle ctx) ! k)) 8 =
       Inr (read_bytes m (save_slot ctx (acts ctx (i - 1)) (unwind_locs (handle ctx) ! k)) 8)"
    "\<forall>r. r \<notin> (\<lambda>k. loc_reg (unwind_locs (handle ctx) ! k)) ` set ks \<longrightarrow>
       reg_get ops rs2 r = reg_get ops rs r"
    "bitmap_wf pool2 ?prev" "length pool2 = length pool"
    "bitmap_elems pool2 ?prev = bitmap_elems pool ?prev \<union>
      (\<lambda>k. loc_reg (unwind_locs (handle ctx) ! k)) ` set ks"
    unfolding prev by auto
  have run: "restore_loop checks m i ctx (k # ks) = Inr (with_regs ctx i rs2 pool2)"
    using Cons.prems(4) 1(1) 2(1) by simp
  have "loc_reg ?l \<notin> (\<lambda>k. loc_reg (unwind_locs (handle ctx) ! k)) ` set ks"
    using Cons.prems(8) by simp
  then have "reg_read ops rs2 (loc_reg ?l) 8 = reg_read ops rs (loc_reg ?l) 8"
    using 2(3) by (simp add: reg_read_def)
  with run 1 2 show ?case by (intro exI[of _ rs2] exI[of _ pool2]) auto
qed

lemma rar_read64:
  "reg_read64 ops rs rar = (if has_ra_reg ops then ra_reg ops rs else Inr (pc ops rs))"
  using ra_law[of rs] ra_pc_law[of rs]
  by (auto simp: reg_read64_def reg_read_def le_word_le_bytes)

lemma read64_of_read: "reg_read ops rs r 8 = Inr (read_bytes m a 8) \<Longrightarrow>
    reg_read64 ops rs r = Inr (load64 m a)"
  by (simp add: reg_read64_def load64_def)

lemma read64_cong: "reg_get ops rs r = reg_get ops rs' r \<Longrightarrow> reg_read64 ops rs r = reg_read64 ops rs' r"
  by (simp add: reg_read64_def reg_read_def)

text \<open>
  Moving to the next activation: its registers after the restore, with the stack pointer set
  as \<open>pop_frame\<close> then sets it, are the caller's registers.
\<close>

lemma set_pc_from_ra_law:
  assumes "REGOPS ctx = ops"
  shows "\<exists>rs. set_pc_from_ra i ctx = Inr (with_regs ctx i rs (callee_saved_pool ctx)) \<and>
    reg_read64 ops rs rar = Inr (pc ops rs) \<and>
    (\<forall>r. reg_get ops rs r = reg_get ops (act_regs (acts ctx i)) r)"
proof (cases "has_ra_reg ops")
  case True
  let ?rs = "act_regs (acts ctx i)"
  obtain v where v: "ra_reg ops ?rs = Inr v" using ra_law[OF True] by blast
  have "reg_read64 ops (set_pc ops ?rs v) rar = reg_read64 ops ?rs rar"
    by (rule read64_cong) (rule get_set_pc[OF True])
  then have "reg_read64 ops (set_pc ops ?rs v) rar = Inr (pc ops (set_pc ops ?rs v))"
    using v True by (simp add: rar_read64 pc_set_pc)
  then show ?thesis
    using True v assms get_set_pc[OF True]
    by (intro exI[of _ "set_pc ops ?rs v"])
       (simp add: set_pc_from_ra_def with_regs_def upd_act_def)
next
  case False
  then show ?thesis
    using assms
    by (intro exI[of _ "act_regs (acts ctx i)"]) (simp add: set_pc_from_ra_def rar_read64)
qed

lemma set_sp_caller:
  assumes "reg_read64 ops rs rar = Inr (pc ops rs)"
  shows "reg_read64 ops (set_sp ops rs v) rar = Inr (pc ops (set_sp ops rs v))"
proof -
  have "reg_read64 ops (set_sp ops rs v) rar = reg_read64 ops rs rar"
    by (rule read64_cong) (rule get_set_sp[OF rar_special(1)])
  with assms show ?thesis by (simp add: special_simps)
qed

lemma enter_law:
  assumes ops: "REGOPS ctx = ops" "PROPS ctx = props"
    and uw: "unwindable props (num_regs ops) ctx (ACT ctx)"
    and room: "act ctx + 1 < MAX_FRAMES"
  shows "\<exists>rs pool. bindE (setup_regset ctx (act ctx + 1)) (\<lambda>ctx1.
      bindE (setup_callee_saved_bits ctx1 (act ctx + 1)) (\<lambda>ctx2.
        restore_callee_saved_regs checks m ctx2 (act ctx + 1))) =
      Inr (with_regs (entered ctx) (act ctx + 1) rs pool) \<and>
    caller_regs ops spr rar m ctx (ACT ctx) (set_sp ops rs (act_cfa (ACT ctx))) \<and>
    length pool = length (callee_saved_pool ctx) \<and>
    bitmap_elems pool (act_callee_saved (ACT ctx)) =
      bitmap_elems (callee_saved_pool ctx) (act_callee_saved (ACT ctx)) \<union>
      loc_reg ` set (site_locs (handle ctx) (act_site (ACT ctx)))"
proof -
  let ?i = "act ctx + 1" and ?ks = "unwind_range (act_site (ACT ctx))"
  let ?ctx = "with_regs (entered ctx) ?i (act_regs (ACT ctx)) (callee_saved_pool ctx)"
  have pre: "bindE (setup_regset ctx ?i) (\<lambda>ctx1. setup_callee_saved_bits ctx1 ?i) = Inr ?ctx"
    using room ops
    by (simp add: setup_regset_def setup_callee_saved_bits_def entered_def with_regs_def upd_act_def
        clone_law activation_upd_comm)
  have same: "handle ?ctx = handle ctx" "acts ?ctx (?i - 1) = ACT ctx" "callee_saved_pool ?ctx = callee_saved_pool ctx"
    "save_slot ?ctx = save_slot ctx"
    by (simp_all add: entered_def save_slot_def fun_eq_iff)
  note u = uw[unfolded unwindable_def site_locs_def]
  from restore_loop_law[of ?ctx ?i ?ks checks m, unfolded same] ops u
  obtain rs pool where 1: "restore_loop checks m ?i ?ctx ?ks = Inr (with_regs ?ctx ?i rs pool)"
    "\<forall>l\<in>set (site_locs (handle ctx) (act_site (ACT ctx))).
       reg_read ops rs (loc_reg l) 8 = Inr (read_bytes m (save_slot ctx (ACT ctx) l) 8)"
    "\<forall>r. r \<notin> loc_reg ` set (site_locs (handle ctx) (act_site (ACT ctx))) \<longrightarrow>
       reg_get ops rs r = reg_get ops (act_regs (ACT ctx)) r"
    "length pool = length (callee_saved_pool ctx)"
    "bitmap_elems pool (act_callee_saved (ACT ctx)) =
      bitmap_elems (callee_saved_pool ctx) (act_callee_saved (ACT ctx)) \<union>
      loc_reg ` set (site_locs (handle ctx) (act_site (ACT ctx)))"
    by (auto simp: comp_def image_image site_locs_def)
  let ?ctx2 = "with_regs ?ctx ?i rs pool"
  obtain rs2 where 2: "set_pc_from_ra ?i ?ctx2 = Inr (with_regs ?ctx2 ?i rs2 pool)"
    "reg_read64 ops rs2 rar = Inr (pc ops rs2)" "\<forall>r. reg_get ops rs2 r = reg_get ops rs r"
    using set_pc_from_ra_law[of ?ctx2 ?i] ops same(1) by auto
  have "restore_callee_saved_regs checks m ?ctx ?i = Inr (with_regs (entered ctx) ?i rs2 pool)"
    using 1(1) 2(1) same(2) by (simp add: restore_callee_saved_regs_def ASSERT_holds)
  then have run: "bindE (setup_regset ctx ?i) (\<lambda>ctx1. bindE (setup_callee_saved_bits ctx1 ?i)
      (\<lambda>ctx2. restore_callee_saved_regs checks m ctx2 ?i)) = Inr (with_regs (entered ctx) ?i rs2 pool)"
    unfolding bindE_assoc[symmetric] pre by simp
  let ?rs3 = "set_sp ops rs2 (act_cfa (ACT ctx))"
  have get3: "r \<noteq> spr \<Longrightarrow> reg_get ops ?rs3 r = reg_get ops rs r" for r
    using get_set_sp[of r rs2] 2(3) by simp
  have "reg_read64 ops ?rs3 (loc_reg l) = Inr (load64 m (save_slot ctx (ACT ctx) l))"
    if l: "l \<in> set (site_locs (handle ctx) (act_site (ACT ctx)))" for l
  proof -
    have "loc_reg l \<noteq> spr" using uw l callee_sp by (auto simp: unwindable_def)
    then have "reg_read64 ops ?rs3 (loc_reg l) = reg_read64 ops rs (loc_reg l)"
      by (intro read64_cong get3)
    with 1(2) l show ?thesis by (simp add: read64_of_read)
  qed
  then have "caller_regs ops spr rar m ctx (ACT ctx) ?rs3"
    using get3 1(3) set_sp_caller[OF 2(2)] by (simp add: caller_regs_def sp_set_sp)
  with run 1(4,5) show ?thesis by blast
qed

lemma pop_frame_law:
  assumes ops: "REGOPS ctx = ops" "PROPS ctx = props"
    and uw: "unwindable props (num_regs ops) ctx (ACT ctx)"
    and room: "act ctx + 1 < MAX_FRAMES"
  shows "\<exists>rs pool. pop_frame checks m ctx False =
      Inr ((with_regs (entered ctx) (act ctx + 1) rs pool)\<lparr>act := act ctx + 1\<rparr>) \<and>
    caller_regs ops spr rar m ctx (ACT ctx) rs \<and>
    length pool = length (callee_saved_pool ctx) \<and>
    bitmap_elems pool (act_callee_saved (ACT ctx)) =
      bitmap_elems (callee_saved_pool ctx) (act_callee_saved (ACT ctx)) \<union>
      loc_reg ` set (site_locs (handle ctx) (act_site (ACT ctx)))"
proof -
  let ?i = "act ctx + 1"
  obtain rs pool where 1: "bindE (setup_regset ctx ?i) (\<lambda>ctx1.
      bindE (setup_callee_saved_bits ctx1 ?i) (\<lambda>ctx2. restore_callee_saved_regs checks m ctx2 ?i)) =
      Inr (with_regs (entered ctx) ?i rs pool)"
    and 2: "caller_regs ops spr rar m ctx (ACT ctx) (set_sp ops rs (act_cfa (ACT ctx)))"
      "length pool = length (callee_saved_pool ctx)"
      "bitmap_elems pool (act_callee_saved (ACT ctx)) =
        bitmap_elems (callee_saved_pool ctx) (act_callee_saved (ACT ctx)) \<union>
        loc_reg ` set (site_locs (handle ctx) (act_site (ACT ctx)))"
    using enter_law[OF assms] by blast
  have "pop_frame checks m ctx False = bindE (bindE (setup_regset ctx ?i) (\<lambda>ctx1.
      bindE (setup_callee_saved_bits ctx1 ?i) (\<lambda>ctx2. restore_callee_saved_regs checks m ctx2 ?i)))
      (\<lambda>ctx3. advance checks (upd_act ctx3 (act ctx3 + 1) (\<lambda>a. a\<lparr>act_regs :=
        set_sp (REGOPS ctx3) (act_regs a) (act_cfa (ACT ctx3))\<rparr>)))"
    by (simp add: pop_frame_def Let_def bindE_assoc)
  also have "\<dots> = Inr ((with_regs (entered ctx) ?i (set_sp ops rs (act_cfa (ACT ctx))) pool)\<lparr>act := ?i\<rparr>)"
    unfolding 1 using room ops
    by (simp add: advance_def Let_def ASSERT_holds entered_def with_regs_def upd_act_def)
  finally show ?thesis using 2 by blast
qed

text \<open>
  With the frame bounds, the canonical frame address is the stack pointer plus the frame size
  and the frame pointer is 16 bytes below it. The assertions are the ones of the source.
\<close>

lemma setup_frame_bounds_law:
  assumes ops: "REGOPS ctx = ops" and i: "0 < i"
    and asserts: "checks \<longrightarrow> act_cfa (acts ctx (i - 1)) \<noteq> 0 \<and> cs_addr (act_site (acts ctx i)) \<noteq> 0 \<and>
      cfa \<noteq> 0 \<and> cfa \<noteq> 16"
    and cfa: "cfa = act_cfa (acts ctx (i - 1)) + ucast (cs_frame_size (act_site (acts ctx i)))"
  shows "setup_frame_bounds checks ctx i = Inr (upd_act ctx i (\<lambda>a. a\<lparr>act_cfa := cfa,
      act_regs := set_fbp ops (set_sp ops (act_regs a) (act_cfa (acts ctx (i - 1)))) (cfa - 16)\<rparr>))"
  using asserts i ops unfolding cfa
  by (simp add: setup_frame_bounds_def calculate_cfa_def ASSERT_holds Let_def sp_set_sp
      setup_fbp_law fbp_set_fbp upd_act_def activation_upd_comm)

lemma pop_frame_bounds_law:
  assumes ops: "REGOPS ctx = ops" "PROPS ctx = props"
    and uw: "unwindable props (num_regs ops) ctx (ACT ctx)"
    and room: "act ctx + 1 < MAX_FRAMES"
    and cfa: "cfa = act_cfa (ACT ctx) + ucast (cs_frame_size (act_site (NEXT_ACT ctx)))"
    and asserts: "checks \<longrightarrow> act_cfa (ACT ctx) \<noteq> 0 \<and> cs_addr (act_site (NEXT_ACT ctx)) \<noteq> 0 \<and>
      cfa \<noteq> 0 \<and> cfa \<noteq> 16"
  shows "\<exists>rs ctx'. pop_frame checks m ctx True = Inr ctx' \<and> act ctx' = act ctx + 1 \<and>
    caller_regs ops spr rar m ctx (ACT ctx) rs \<and>
    act_cfa (ACT ctx') = cfa \<and> act_regs (ACT ctx') = set_fbp ops rs (cfa - 16) \<and>
    act_site (ACT ctx') = act_site (NEXT_ACT ctx) \<and>
    (\<forall>j. j \<noteq> act ctx + 1 \<longrightarrow> acts ctx' j = acts ctx j) \<and>
    handle ctx' = handle ctx \<and> stack ctx' = stack ctx \<and> stack_base ctx' = stack_base ctx \<and>
    num_acts ctx' = num_acts ctx \<and> stack_pointers ctx' = stack_pointers ctx \<and>
    bitmap_elems (callee_saved_pool ctx') (act_callee_saved (ACT ctx)) =
      bitmap_elems (callee_saved_pool ctx) (act_callee_saved (ACT ctx)) \<union>
      loc_reg ` set (site_locs (handle ctx) (act_site (ACT ctx)))"
proof -
  let ?i = "act ctx + 1"
  obtain rs pool where 1: "bindE (setup_regset ctx ?i) (\<lambda>ctx1.
      bindE (setup_callee_saved_bits ctx1 ?i) (\<lambda>ctx2. restore_callee_saved_regs checks m ctx2 ?i)) =
      Inr (with_regs (entered ctx) ?i rs pool)"
    and 2: "caller_regs ops spr rar m ctx (ACT ctx) (set_sp ops rs (act_cfa (ACT ctx)))"
      "bitmap_elems pool (act_callee_saved (ACT ctx)) =
        bitmap_elems (callee_saved_pool ctx) (act_callee_saved (ACT ctx)) \<union>
        loc_reg ` set (site_locs (handle ctx) (act_site (ACT ctx)))"
    using enter_law[OF ops uw room] by blast
  let ?ctx3 = "with_regs (entered ctx) ?i rs pool"
  have e: "handle ?ctx3 = handle ctx" "acts ?ctx3 (?i - 1) = ACT ctx"
    "act_site (acts ?ctx3 ?i) = act_site (NEXT_ACT ctx)"
    by (simp_all add: entered_def)
  have "REGOPS ?ctx3 = ops" using ops e(1) by simp
  note sb = setup_frame_bounds_law[OF this _ , of ?i checks cfa]
  have 3: "setup_frame_bounds checks ?ctx3 ?i = Inr (upd_act ?ctx3 ?i (\<lambda>a. a\<lparr>act_cfa := cfa,
      act_regs := set_fbp ops (set_sp ops (act_regs a) (act_cfa (ACT ctx))) (cfa - 16)\<rparr>))"
    using sb[unfolded e] asserts cfa by simp
  have "pop_frame checks m ctx True = bindE (bindE (setup_regset ctx ?i) (\<lambda>ctx1.
      bindE (setup_callee_saved_bits ctx1 ?i) (\<lambda>ctx2. restore_callee_saved_regs checks m ctx2 ?i)))
      (\<lambda>ctx3. bindE (setup_frame_bounds checks ctx3 ?i) (advance checks))"
    by (simp add: pop_frame_def Let_def bindE_assoc)
  also have "\<dots> = Inr ((upd_act ?ctx3 ?i (\<lambda>a. a\<lparr>act_cfa := cfa,
      act_regs := set_fbp ops (set_sp ops (act_regs a) (act_cfa (ACT ctx))) (cfa - 16)\<rparr>))\<lparr>act := ?i\<rparr>)"
    unfolding 1 using 3 room by (simp add: advance_def Let_def ASSERT_holds entered_def)
  finally show ?thesis
    using 2 by (intro exI[of _ "set_sp ops rs (act_cfa (ACT ctx))"]) (simp add: entered_def)
qed

text \<open>
  At a function's entry nothing but the return address has been saved: the caller's registers
  are the callee's, with the program counter set to the return address and the frame bounds of
  the caller; the frame pointer of the callee's activation becomes the caller's.
\<close>

lemma pop_frame_funcentry_law:
  assumes ops: "REGOPS ctx = ops" "PROPS ctx = props"
    and room: "act ctx + 1 < MAX_FRAMES"
    and ra: "(if has_ra_reg ops then ra_reg ops (act_regs (ACT ctx))
              else Inr (load64 m (sp ops (act_regs (ACT ctx))))) = Inr ra"
    and cfa: "cfa = act_cfa (ACT ctx) + ucast (cs_frame_size (act_site (NEXT_ACT ctx)))"
    and asserts: "checks \<longrightarrow> act_cfa (ACT ctx) \<noteq> 0 \<and> cs_addr (act_site (NEXT_ACT ctx)) \<noteq> 0 \<and>
      cfa \<noteq> 0 \<and> cfa \<noteq> 16"
  shows "\<exists>ctx'. pop_frame_funcentry checks m ctx = Inr ctx' \<and> act ctx' = act ctx + 1 \<and>
    pc ops (act_regs (ACT ctx')) = ra \<and> sp ops (act_regs (ACT ctx')) = act_cfa (ACT ctx) \<and>
    fbp ops (act_regs (ACT ctx')) = cfa - 16 \<and> act_cfa (ACT ctx') = cfa \<and>
    act_site (ACT ctx') = act_site (NEXT_ACT ctx) \<and>
    act_regs (acts ctx' (act ctx)) = set_fbp ops (act_regs (ACT ctx)) (cfa - 16) \<and>
    (\<forall>j. j \<noteq> act ctx \<longrightarrow> j \<noteq> act ctx + 1 \<longrightarrow> acts ctx' j = acts ctx j) \<and>
    handle ctx' = handle ctx \<and> callee_saved_pool ctx' = callee_saved_pool ctx \<and> stack ctx' = stack ctx \<and>
    stack_pointers ctx' = stack_pointers ctx \<and> out_regs ctx' = out_regs ctx \<and> num_acts ctx' = num_acts ctx \<and>
    act_cfa (acts ctx' (act ctx)) = act_cfa (ACT ctx) \<and> act_site (acts ctx' (act ctx)) = act_site (ACT ctx) \<and>
    act_callee_saved (ACT ctx') = \<lparr>bm_size = num_regs ops, bm_bits = Some ((act ctx + 1) * bitmap_size (num_regs ops))\<rparr>"
proof -
  let ?i = "act ctx + 1"
  let ?ctx2 = "with_regs (entered ctx) ?i (act_regs (ACT ctx)) (callee_saved_pool ctx)"
  have pre: "bindE (setup_regset ctx ?i) (\<lambda>ctx1. setup_callee_saved_bits ctx1 ?i) = Inr ?ctx2"
    using room ops
    by (simp add: setup_regset_def setup_callee_saved_bits_def entered_def with_regs_def upd_act_def
        clone_law activation_upd_comm)
  let ?ctx3 = "upd_act ?ctx2 ?i (\<lambda>a. a\<lparr>act_regs := set_pc ops (act_regs a) ra\<rparr>)"
  have 3: "setup_frame_bounds checks ?ctx3 ?i = Inr (upd_act ?ctx3 ?i (\<lambda>a. a\<lparr>act_cfa := cfa,
      act_regs := set_fbp ops (set_sp ops (act_regs a) (act_cfa (ACT ctx))) (cfa - 16)\<rparr>))"
    using setup_frame_bounds_law[of ?ctx3 ?i checks cfa] ops asserts cfa by (simp add: entered_def)
  have ra2: "(if has_ra_reg (REGOPS ?ctx2) then ra_reg (REGOPS ?ctx2) (act_regs (ACT ?ctx2))
      else Inr (load64 m (sp (REGOPS ?ctx2) (act_regs (ACT ?ctx2))))) = Inr ra"
    using ra ops by (simp split: if_splits)
  have "pop_frame_funcentry checks m ctx =
      bindE (bindE (setup_regset ctx ?i) (\<lambda>ctx1. setup_callee_saved_bits ctx1 ?i)) (\<lambda>ctx2.
      bindE (if has_ra_reg (REGOPS ctx2) then ra_reg (REGOPS ctx2) (act_regs (ACT ctx2))
             else Inr (load64 m (sp (REGOPS ctx2) (act_regs (ACT ctx2))))) (\<lambda>ra.
      bindE (setup_frame_bounds checks (upd_act ctx2 (act ctx2 + 1) (\<lambda>a. a\<lparr>act_regs :=
            set_pc (REGOPS ctx2) (act_regs a) ra\<rparr>)) ?i) (\<lambda>ctx4.
      advance checks (upd_act ctx4 (act ctx4) (\<lambda>a. a\<lparr>act_regs :=
            set_fbp (REGOPS ctx4) (act_regs a) (fbp (REGOPS ctx4) (act_regs (NEXT_ACT ctx4)))\<rparr>)))))"
    by (simp add: pop_frame_funcentry_def Let_def bindE_assoc)
  also have "\<dots> = Inr ((upd_act (upd_act ?ctx3 ?i (\<lambda>a. a\<lparr>act_cfa := cfa,
      act_regs := set_fbp ops (set_sp ops (act_regs a) (act_cfa (ACT ctx))) (cfa - 16)\<rparr>)) (act ctx)
      (\<lambda>a. a\<lparr>act_regs := set_fbp ops (act_regs a) (cfa - 16)\<rparr>))\<lparr>act := ?i\<rparr>)"
    unfolding pre bindE_Inr ra2 using 3 room ops
    by (simp add: advance_def Let_def ASSERT_holds special_simps split del: if_split)
  finally show ?thesis using ops by (simp add: special_simps entered_def)
qed

text \<open>
  The pool holds \<open>MAX_FRAMES\<close> bitmaps but the bitmap of activation \<open>i\<close> starts at word
  \<open>i * bitmap_size\<close>, eight times too far: from activation 64 on, restoring the first saved
  register writes outside the pool.
\<close>

lemma pop_frame_pool_overflow:
  assumes ops: "REGOPS ctx = ops" "PROPS ctx = props"
    and pool: "length (callee_saved_pool ctx) = MAX_FRAMES * bitmap_words (num_regs ops)"
    and bits: "act_callee_saved (ACT ctx) = \<lparr>bm_size = num_regs ops,
      bm_bits = Some (act ctx * bitmap_size (num_regs ops))\<rparr>"
    and deep: "64 \<le> act ctx" "act ctx + 1 < MAX_FRAMES"
    and locs: "unwind_range (act_site (ACT ctx)) = k # ks" "k < length (unwind_locs (handle ctx))"
      "is_callee_saved props (loc_reg (unwind_locs (handle ctx) ! k))"
  shows "pop_frame checks m ctx setup_bounds = Inl (UB Out_of_bounds)"
proof -
  let ?i = "act ctx + 1" and ?l = "unwind_locs (handle ctx) ! k"
  let ?ctx2 = "with_regs (entered ctx) ?i (act_regs (ACT ctx)) (callee_saved_pool ctx)"
  have pre: "bindE (setup_regset ctx ?i) (\<lambda>ctx1. setup_callee_saved_bits ctx1 ?i) = Inr ?ctx2"
    using deep ops
    by (simp add: setup_regset_def setup_callee_saved_bits_def entered_def with_regs_def upd_act_def
        clone_law activation_upd_comm)
  obtain n where n: "8 \<le> n" "width (loc_reg ?l) = Some n" using callee_width[OF locs(3)] by blast
  let ?bs = "read_bytes m (save_slot ctx (ACT ctx) ?l) 8"
  obtain rs where rs: "reg_put ops (act_regs (ACT ctx)) (loc_reg ?l) ?bs = Inr rs"
    using read_put_same[OF n(2), of ?bs] n(1) by auto
  have shift: "loc_reg ?l < num_regs ops" "loc_reg ?l mod 64 < 31" using callee_shift[OF locs(3)] by auto
  have "MAX_FRAMES * bitmap_words (num_regs ops) \<le> act ctx * bitmap_size (num_regs ops)"
    using deep(1) by (simp add: MAX_FRAMES_def bitmap_size_def)
  then have "array_get (callee_saved_pool ctx) (act ctx * bitmap_size (num_regs ops) + j) =
      Inl (UB Out_of_bounds)" for j
    using pool by (intro array_get_out) simp
  then have "bitmap_set checks (callee_saved_pool ctx) (act_callee_saved (ACT ctx)) (loc_reg ?l) =
      Inl (UB Out_of_bounds)"
    using shift bits by (simp add: bitmap_set_def Let_def int_shl_1_def STORAGE_TYPE_BITS_def ASSERT_holds)
  then have "restore_reg checks m ?i ?ctx2 ?l = Inl (UB Out_of_bounds)"
    using rs ops locs(3)
    by (simp add: restore_reg_def Let_def loc_reg_def callee_size entered_def save_slot_def)
  then have "restore_callee_saved_regs checks m ?ctx2 ?i = Inl (UB Out_of_bounds)"
    using locs by (simp add: restore_callee_saved_regs_def entered_def)
  moreover have "pop_frame checks m ctx setup_bounds =
      bindE (bindE (setup_regset ctx ?i) (\<lambda>ctx1. setup_callee_saved_bits ctx1 ?i)) (\<lambda>ctx2.
      bindE (restore_callee_saved_regs checks m ctx2 ?i) (\<lambda>ctx3.
      bindE (if setup_bounds then setup_frame_bounds checks ctx3 ?i
             else Inr (upd_act ctx3 (act ctx3 + 1) (\<lambda>a. a\<lparr>act_regs :=
               set_sp (REGOPS ctx3) (act_regs a) (act_cfa (ACT ctx3))\<rparr>))) (advance checks)))"
    unfolding pop_frame_def Let_def bindE_assoc by (rule refl)
  ultimately show ?thesis unfolding pre by simp
qed

end

text \<open>
  The saved location of a register is the slot of its record, the one \<open>pop_frame\<close> restored the
  register from.
\<close>

lemma save_search_found:
  assumes "\<forall>k\<in>set ks. k < length (unwind_locs (handle ctx))"
    and "distinct (map (\<lambda>k. loc_reg (unwind_locs (handle ctx) ! k)) ks)" and "k \<in> set ks"
  shows "save_search ctx a (loc_reg (unwind_locs (handle ctx) ! k)) ks =
    Inr (save_slot ctx a (unwind_locs (handle ctx) ! k))"
  using assms by (induction ks) (auto simp: loc_reg_def image_iff)

lemma get_register_save_loc_law:
  assumes "unwindable props n ctx a" and "l \<in> set (site_locs (handle ctx) (act_site a))"
    and "checks \<longrightarrow> shiftable (act_callee_saved a) (loc_reg l) \<and>
      loc_reg l \<in> bitmap_elems (callee_saved_pool ctx) (act_callee_saved a)"
  shows "get_register_save_loc checks ctx a (loc_reg l) = Inr (save_slot ctx a l)"
proof -
  obtain k where k: "k \<in> set (unwind_range (act_site a))" "l = unwind_locs (handle ctx) ! k"
    using assms(2) by (auto simp: site_locs_def)
  have "save_search ctx a (loc_reg l) (unwind_range (act_site a)) = Inr (save_slot ctx a l)"
    using save_search_found[of "unwind_range (act_site a)" ctx k a] assms(1) k
    by (simp add: unwindable_def site_locs_def comp_def)
  moreover have "bitmap_wf (callee_saved_pool ctx) (act_callee_saved a)"
    using assms(1) by (simp add: unwindable_def)
  ultimately show ?thesis
    using assms(3) bitmap_is_set_wf[of "callee_saved_pool ctx" "act_callee_saved a" "loc_reg l" checks]
    by (cases checks) (simp_all add: get_register_save_loc_def)
qed

end
