(* ===== verification/Data_Access.thy ===== *)
theory Data_Access
  imports Unwind
begin

text \<open>
  Access to the data of a frame, \<open>lib/stack_transformation/src/data.c\<close>: locations of live values,
  copying a value from the source to the destination frame, pointers to the stack and the
  pointed-to analysis, return addresses and the operations that generate
  architecture-specific values. A \<open>void*\<close> of the source is a register of an activation or a
  stack address; source and destination stacks live in one memory, register sets outside it.
  A copy reads its source before it writes, as \<open>memcpy\<close> does on ranges that do not overlap.
\<close>

section \<open>Locations\<close>

datatype loc = Loc_reg nat nat | Loc_mem u64

text \<open>The location of a source value can also be the constant inside its record.\<close>

datatype src_loc = Src_loc loc | Src_const live_value

definition reg_exists :: "'raw rewrite_context \<Rightarrow> nat \<Rightarrow> nat \<Rightarrow> unit res" where
  "reg_exists ctx i r = bindE (reg_get (REGOPS ctx) (act_regs (acts ctx i)) r) (\<lambda>_. Inr ())"

definition read_loc :: "'raw rewrite_context \<Rightarrow> mem \<Rightarrow> loc \<Rightarrow> nat \<Rightarrow> u8 list res" where
  "read_loc ctx m l n =
     (case l of
        Loc_reg i r \<Rightarrow> reg_read (REGOPS ctx) (act_regs (acts ctx i)) r n
      | Loc_mem a \<Rightarrow> if a = 0 then Inl (UB Null_deref) else Inr (read_bytes m a n))"

definition write_loc :: "'raw rewrite_context \<Rightarrow> mem \<Rightarrow> loc \<Rightarrow> u8 list \<Rightarrow>
    (mem \<times> 'raw rewrite_context) res" where
  "write_loc ctx m l bs =
     (case l of
        Loc_reg i r \<Rightarrow> bindE (reg_put (REGOPS ctx) (act_regs (acts ctx i)) r bs) (\<lambda>rs.
          Inr (m, upd_act ctx i (\<lambda>a. a\<lparr>act_regs := rs\<rparr>)))
      | Loc_mem a \<Rightarrow> if a = 0 then Inl (UB Null_deref) else Inr (write_bytes m a bs, ctx))"

text \<open>
  A constant is read from its packed record: the four bytes of \<open>offset_or_constant\<close> are followed
  by those of \<open>alloca_size\<close>, which ends the record.
\<close>

definition read_src :: "'raw rewrite_context \<Rightarrow> mem \<Rightarrow> src_loc \<Rightarrow> nat \<Rightarrow> u8 list res" where
  "read_src ctx m l n =
     (case l of
        Src_loc l \<Rightarrow> read_loc ctx m l n
      | Src_const v \<Rightarrow>
          if n \<le> 8 then Inr (take n (le_bytes 4 (lv_offset v) @ le_bytes 4 (alloca_size v)))
          else Inl (UB Out_of_bounds))"

definition get_val_loc :: "'raw rewrite_context \<Rightarrow> location_type \<Rightarrow> nat \<Rightarrow> u32 \<Rightarrow> nat \<Rightarrow> loc res" where
  "get_val_loc ctx type regnum offset_or_constant i =
     (case type of
        SM_REGISTER \<Rightarrow> bindE (reg_exists ctx i regnum) (\<lambda>_. Inr (Loc_reg i regnum))
      | SM_DIRECT \<Rightarrow> bindE (reg_read64 (REGOPS ctx) (act_regs (acts ctx i)) regnum) (\<lambda>p.
          Inr (Loc_mem (ptr_add p (sint offset_or_constant))))
      | SM_INDIRECT \<Rightarrow> bindE (reg_read64 (REGOPS ctx) (act_regs (acts ctx i)) regnum) (\<lambda>p.
          Inr (Loc_mem (ptr_add p (sint offset_or_constant))))
      | SM_CONSTANT \<Rightarrow> Inl (ST_ERR 1 Err_no_const_location)
      | SM_CONST_IDX \<Rightarrow> Inl (ST_ERR 1 Err_no_const_location)
      | SM_OTHER _ \<Rightarrow> Inl (ST_ERR 1 Err_bad_location_type))"

definition get_src_loc :: "'raw rewrite_context \<Rightarrow> live_value \<Rightarrow> nat \<Rightarrow> src_loc res" where
  "get_src_loc ctx val i =
     (if lv_type val \<in> {SM_REGISTER, SM_DIRECT, SM_INDIRECT} then
        bindE (get_val_loc ctx (lv_type val) (unat (lv_regnum val)) (lv_offset val) i) (\<lambda>l. Inr (Src_loc l))
      else if lv_type val = SM_CONSTANT then Inr (Src_const val)
      else if lv_type val = SM_CONST_IDX then Inl (ST_ERR 1 Err_const_pool)
      else Inl (ST_ERR 1 Err_bad_location_type))"

definition get_dest_loc :: "'raw rewrite_context \<Rightarrow> live_value \<Rightarrow> nat \<Rightarrow> loc res" where
  "get_dest_loc ctx val i = get_val_loc ctx (lv_type val) (unat (lv_regnum val)) (lv_offset val) i"

text \<open>
  The walk from activation \<open>k - 1\<close> outwards for the activation that saved the register. \<open>None\<close>
  is \<open>NULL\<close>: no second location to write.
\<close>

primrec callee_walk :: "bool \<Rightarrow> 'raw rewrite_context \<Rightarrow> nat \<Rightarrow> nat \<Rightarrow> loc option res" where
  "callee_walk checks ctx r 0 = bindE (reg_exists ctx 0 r) (\<lambda>_. Inr (Some (Loc_reg 0 r)))"
| "callee_walk checks ctx r (Suc k) =
     bindE (bitmap_is_set checks (callee_saved_pool ctx) (act_callee_saved (acts ctx k)) r) (\<lambda>saved.
       if saved then
         bindE (get_register_save_loc checks ctx (acts ctx k) r) (\<lambda>saved_addr.
         bindE (ASSERT checks (saved_addr \<noteq> 0)) (\<lambda>_.
           Inr (if saved_addr = 0 then None else Some (Loc_mem saved_addr))))
       else callee_walk checks ctx r k)"

definition callee_saved_loc :: "bool \<Rightarrow> 'raw rewrite_context \<Rightarrow> nat \<Rightarrow> nat \<Rightarrow> loc option res" where
  "callee_saved_loc checks ctx regnum i =
     (if i = 0 then Inr None else callee_walk checks ctx regnum i)"

definition callee_addr_of :: "bool \<Rightarrow> 'raw rewrite_context \<Rightarrow> location_type \<Rightarrow> nat \<Rightarrow> nat \<Rightarrow> loc option res" where
  "callee_addr_of checks ctx type regnum i =
     (if type = SM_REGISTER \<and> is_callee_saved (PROPS ctx) regnum
      then callee_saved_loc checks ctx regnum i else Inr None)"

section \<open>Writing values\<close>

definition write_opt :: "'raw rewrite_context \<Rightarrow> mem \<Rightarrow> loc option \<Rightarrow> u8 list \<Rightarrow>
    (mem \<times> 'raw rewrite_context) res" where
  "write_opt ctx m l bs = (case l of None \<Rightarrow> Inr (m, ctx) | Some l \<Rightarrow> write_loc ctx m l bs)"

definition is_const :: "location_type \<Rightarrow> bool" where
  "is_const t \<longleftrightarrow> t = SM_CONSTANT \<or> t = SM_CONST_IDX"

definition put_val :: "bool \<Rightarrow> mem \<Rightarrow> 'raw rewrite_context \<Rightarrow> live_value \<Rightarrow> 'raw2 rewrite_context \<Rightarrow>
    live_value \<Rightarrow> (mem \<times> 'raw2 rewrite_context) res" where
  "put_val checks m src src_val dest dest_val =
     bindE (ASSERT checks (act src = act dest)) (\<lambda>_.
     if is_const (lv_type dest_val) then Inr (m, dest)
     else
       bindE (ASSERT checks (VAL_SIZE src_val = VAL_SIZE dest_val)) (\<lambda>_.
       bindE (get_src_loc src src_val (act src)) (\<lambda>src_addr.
       bindE (get_dest_loc dest dest_val (act src)) (\<lambda>dest_addr.
       bindE (callee_addr_of checks dest (lv_type dest_val) (unat (lv_regnum dest_val)) (act dest))
         (\<lambda>callee_addr.
       bindE (ASSERT checks (dest_addr \<noteq> Loc_mem 0)) (\<lambda>_.
       bindE (read_src src m src_addr (VAL_SIZE dest_val)) (\<lambda>bs.
       bindE (write_loc dest m dest_addr bs) (\<lambda>(m1, dest1).
       case callee_addr of
         None \<Rightarrow> Inr (m1, dest1)
       | Some l \<Rightarrow> bindE (read_src src m1 src_addr (VAL_SIZE dest_val)) (\<lambda>bs1.
           write_loc dest1 m1 l bs1)))))))))"

definition put_val_data :: "bool \<Rightarrow> mem \<Rightarrow> 'raw rewrite_context \<Rightarrow> live_value \<Rightarrow> nat \<Rightarrow> u64 \<Rightarrow>
    (mem \<times> 'raw rewrite_context) res" where
  "put_val_data checks m ctx val i data =
     (if is_const (lv_type val) then Inr (m, ctx)
      else
        bindE (get_dest_loc ctx val i) (\<lambda>dest_addr.
        bindE (callee_addr_of checks ctx (lv_type val) (unat (lv_regnum val)) i) (\<lambda>callee_addr.
        bindE (ASSERT checks (dest_addr \<noteq> Loc_mem 0)) (\<lambda>_.
        bindE (write_loc ctx m dest_addr (le_bytes 8 data)) (\<lambda>(m1, ctx1).
          write_opt ctx1 m1 callee_addr (le_bytes 8 data))))))"

section \<open>Architecture-specific values\<close>

definition get_arch_operand_loc :: "bool \<Rightarrow> mem \<Rightarrow> 'raw rewrite_context \<Rightarrow> arch_live_value \<Rightarrow> nat \<Rightarrow>
    u64 res" where
  "get_arch_operand_loc checks m ctx val i =
     bindE (ASSERT checks (al_operand_size val = 8)) (\<lambda>_.
     if al_operand_type val = SM_CONSTANT then Inr (al_operand_offset_or_constant val)
     else
       bindE (get_val_loc ctx (al_operand_type val) (unat (al_operand_regnum val))
           (ucast (al_operand_offset_or_constant val)) i) (\<lambda>val_loc.
       case (al_operand_type val, val_loc) of
         (SM_REGISTER, _) \<Rightarrow> bindE (read_loc ctx m val_loc 8) (\<lambda>bs. Inr (le_word bs))
       | (SM_DIRECT, Loc_mem a) \<Rightarrow> Inr a
       | _ \<Rightarrow> Inl (ST_ERR 1 Err_bad_operand)))"

text \<open>
  The value an instruction generates. The original value is unsigned, so both right shifts are
  logical; \<open>Load\<close> has no \<open>break\<close> and runs into the error of the default case.
\<close>

definition shift_by :: "(nat \<Rightarrow> u64 \<Rightarrow> u64) \<Rightarrow> u64 \<Rightarrow> u64 \<Rightarrow> u64 res" where
  "shift_by f orig_val operand =
     (if operand < 64 then Inr (f (unat operand) orig_val) else Inl (UB Bad_shift))"

definition arch_result :: "u64 \<Rightarrow> u64 \<Rightarrow> inst_type \<Rightarrow> u64 res" where
  "arch_result orig_val operand inst =
     (case inst of
        Inst_Set \<Rightarrow> Inr operand
      | Inst_Add \<Rightarrow> Inr (orig_val + operand)
      | Inst_Subtract \<Rightarrow> Inr (orig_val - operand)
      | Inst_Multiply \<Rightarrow> Inr (orig_val * operand)
      | Inst_Divide \<Rightarrow> if operand = 0 then Inl (UB Divide_by_zero) else Inr (orig_val div operand)
      | Inst_LeftShift \<Rightarrow> shift_by push_bit orig_val operand
      | Inst_RightShiftLog \<Rightarrow> shift_by drop_bit orig_val operand
      | Inst_RightShiftArith \<Rightarrow> shift_by drop_bit orig_val operand
      | Inst_Mask \<Rightarrow> Inr (orig_val AND operand)
      | Inst_Load \<Rightarrow> Inl (ST_ERR 1 Err_bad_inst)
      | _ \<Rightarrow> Inl (ST_ERR 1 Err_bad_inst))"

definition apply_arch_operation :: "mem \<Rightarrow> 'raw rewrite_context \<Rightarrow> loc \<Rightarrow> loc option \<Rightarrow> u64 \<Rightarrow> inst_type \<Rightarrow>
    (mem \<times> 'raw rewrite_context) res" where
  "apply_arch_operation m ctx dest callee_dest operand inst =
     bindE (read_loc ctx m dest 8) (\<lambda>orig.
     bindE (arch_result (le_word orig) operand inst) (\<lambda>v.
     bindE (write_loc ctx m dest (le_bytes 8 v)) (\<lambda>(m1, ctx1).
     case callee_dest of
       None \<Rightarrow> Inr (m1, ctx1)
     | Some l \<Rightarrow> bindE (read_loc ctx1 m1 dest 8) (\<lambda>bs. write_loc ctx1 m1 l bs))))"

definition put_val_arch :: "bool \<Rightarrow> mem \<Rightarrow> 'raw rewrite_context \<Rightarrow> arch_live_value \<Rightarrow>
    (mem \<times> 'raw rewrite_context) res" where
  "put_val_arch checks m ctx val =
     bindE (ASSERT checks (al_type val = SM_REGISTER \<or> al_type val = SM_INDIRECT)) (\<lambda>_.
     bindE (get_val_loc ctx (al_type val) (unat (al_regnum val)) (al_offset val) (act ctx)) (\<lambda>dest_addr.
     bindE (callee_addr_of checks ctx (al_type val) (unat (al_regnum val)) (act ctx)) (\<lambda>callee_addr.
     bindE (ASSERT checks (dest_addr \<noteq> Loc_mem 0)) (\<lambda>_.
     bindE (get_arch_operand_loc checks m ctx val (act ctx)) (\<lambda>operand.
       apply_arch_operation m ctx dest_addr callee_addr operand (al_inst_type val))))))"

section \<open>Pointers to the stack\<close>

definition ptr_reg_check :: "bool \<Rightarrow> 'raw rewrite_context \<Rightarrow> nat \<Rightarrow> unit res" where
  "ptr_reg_check checks ctx r =
     (if checks then bindE (reg_size (REGOPS ctx) r) (\<lambda>n. ASSERT checks (n = 8)) else Inr ())"

definition pointed_address :: "bool \<Rightarrow> mem \<Rightarrow> 'raw rewrite_context \<Rightarrow> live_value \<Rightarrow> u64 res" where
  "pointed_address checks m ctx val =
     (let r = unat (lv_regnum val) in
      case lv_type val of
        SM_REGISTER \<Rightarrow> bindE (ptr_reg_check checks ctx r) (\<lambda>_.
          reg_read64 (REGOPS ctx) (act_regs (ACT ctx)) r)
      | SM_DIRECT \<Rightarrow> Inl (ST_ERR 1 Err_bad_live_value)
      | SM_INDIRECT \<Rightarrow> bindE (ptr_reg_check checks ctx r) (\<lambda>_.
          bindE (reg_read64 (REGOPS ctx) (act_regs (ACT ctx)) r) (\<lambda>p.
            Inr (load64 m (ptr_add p (sint (lv_offset val))))))
      | SM_CONSTANT \<Rightarrow> Inl (ST_ERR 1 Err_const_too_small)
      | SM_CONST_IDX \<Rightarrow> Inl (ST_ERR 1 Err_const_pool)
      | SM_OTHER _ \<Rightarrow> Inl (ST_ERR 1 Err_bad_location_type))"

text \<open>The address of a pointer to the stack, \<open>0\<close> for any other value.\<close>

definition points_to_stack :: "bool \<Rightarrow> mem \<Rightarrow> 'raw rewrite_context \<Rightarrow> live_value \<Rightarrow> u64 res" where
  "points_to_stack checks m ctx val =
     (if is_ptr val \<and> \<not> is_alloca val then
        bindE (pointed_address checks m ctx val) (\<lambda>stack_addr.
          Inr (if stack_addr < stack ctx \<or> stack_base ctx \<le> stack_addr then 0 else stack_addr))
      else Inr 0)"

text \<open>
  The destination address that corresponds to \<open>src_ptr\<close> when it points into the source value, \<open>0\<close>
  otherwise. Comparing the address of a register with a stack address is undefined.
\<close>

definition points_to_data :: "bool \<Rightarrow> 'raw rewrite_context \<Rightarrow> live_value \<Rightarrow> 'raw2 rewrite_context \<Rightarrow>
    live_value \<Rightarrow> u64 \<Rightarrow> u64 res" where
  "points_to_data checks src src_val dest dest_val src_ptr =
     bindE (ASSERT checks (lv_type src_val = SM_DIRECT \<and> lv_type dest_val = SM_DIRECT)) (\<lambda>_.
     bindE (get_val_loc src (lv_type src_val) (unat (lv_regnum src_val)) (lv_offset src_val) (act src))
       (\<lambda>l. case l of Loc_reg _ _ \<Rightarrow> Inl (UB Register_address)
       | Loc_mem src_addr \<Rightarrow>
         if src_addr \<le> src_ptr \<and> src_ptr < src_addr + of_nat (VAL_SIZE src_val) then
           bindE (get_val_loc dest (lv_type dest_val) (unat (lv_regnum dest_val)) (lv_offset dest_val)
               (act dest))
             (\<lambda>l. case l of Loc_reg _ _ \<Rightarrow> Inl (UB Register_address)
             | Loc_mem dest_addr \<Rightarrow> Inr (dest_addr + (src_ptr - src_addr)))
         else Inr 0))"

section \<open>Return addresses and saved frame pointers\<close>

definition set_return_address :: "bool \<Rightarrow> mem \<Rightarrow> 'raw rewrite_context \<Rightarrow> u64 \<Rightarrow> mem res" where
  "set_return_address checks m ctx retaddr =
     bindE (ASSERT checks (retaddr \<noteq> 0)) (\<lambda>_.
       Inr (store64 m (ptr_add (act_cfa (ACT ctx)) (ra_offset (PROPS ctx))) retaddr))"

definition set_return_address_funcentry :: "bool \<Rightarrow> mem \<Rightarrow> 'raw rewrite_context \<Rightarrow> u64 \<Rightarrow>
    (mem \<times> 'raw rewrite_context) res" where
  "set_return_address_funcentry checks m ctx retaddr =
     bindE (ASSERT checks (retaddr \<noteq> 0)) (\<lambda>_.
     if has_ra_reg (REGOPS ctx) then
       bindE (set_ra_reg (REGOPS ctx) (act_regs (ACT ctx)) retaddr) (\<lambda>rs.
         Inr (m, upd_act ctx (act ctx) (\<lambda>a. a\<lparr>act_regs := rs\<rparr>)))
     else Inr (store64 m (ptr_add (act_cfa (ACT ctx)) (ra_offset (PROPS ctx))) retaddr, ctx))"

definition get_savedfbp_loc :: "'raw rewrite_context \<Rightarrow> u64" where
  "get_savedfbp_loc ctx = ptr_add (act_cfa (ACT ctx)) (savedfbp_offset (PROPS ctx))"

section \<open>Reading back what was written\<close>

definition loc_apart :: "loc \<Rightarrow> loc \<Rightarrow> nat \<Rightarrow> bool" where
  "loc_apart l l' n \<longleftrightarrow>
     (case (l, l') of (Loc_mem a, Loc_mem b) \<Rightarrow> disjoint_ranges a n b n | _ \<Rightarrow> l \<noteq> l')"

lemma read_loc_length: "read_loc ctx m l n = Inr bs \<Longrightarrow> length bs = n"
  by (auto simp: read_loc_def reg_read_def res_simps split: loc.splits if_splits)

lemma read_src_length: "read_src ctx m l n = Inr bs \<Longrightarrow> length bs = n"
  by (auto simp: read_src_def read_loc_length split: src_loc.splits if_splits)

lemma write_loc_handle: "write_loc ctx m l bs = Inr (m', ctx') \<Longrightarrow>
    handle ctx' = handle ctx \<and> act ctx' = act ctx \<and> num_acts ctx' = num_acts ctx \<and>
    stack ctx' = stack ctx \<and> stack_base ctx' = stack_base ctx \<and> out_regs ctx' = out_regs ctx \<and>
    stack_pointers ctx' = stack_pointers ctx \<and> callee_saved_pool ctx' = callee_saved_pool ctx \<and>
    (\<forall>i. act_site (acts ctx' i) = act_site (acts ctx i) \<and> act_cfa (acts ctx' i) = act_cfa (acts ctx i) \<and>
      act_callee_saved (acts ctx' i) = act_callee_saved (acts ctx i))"
  by (auto simp: write_loc_def res_simps split: loc.splits if_splits)

context register_file
begin

lemma put_fits:
  assumes "reg_put ops rs r bs = Inr rs'"
  obtains n where "width r = Some n" and "length bs \<le> n"
  using assms put_none[of r rs bs] put_overrun[of r _ bs rs]
  by (cases "width r") (auto simp: not_le[symmetric])

lemma read_write_loc:
  assumes "REGOPS ctx = ops" and "write_loc ctx m l bs = Inr (m', ctx')" and "length bs \<le> 2 ^ 64"
  shows "read_loc ctx' m' l (length bs) = Inr bs"
proof (cases l)
  case (Loc_mem a)
  with assms show ?thesis by (auto simp: write_loc_def read_loc_def read_write_same split: if_splits)
next
  case (Loc_reg i r)
  with assms obtain rs where rs: "reg_put ops (act_regs (acts ctx i)) r bs = Inr rs"
    "ctx' = upd_act ctx i (\<lambda>a. a\<lparr>act_regs := rs\<rparr>)"
    by (auto simp: write_loc_def res_simps)
  obtain n where "width r = Some n" "length bs \<le> n" using put_fits[OF rs(1)] .
  from read_put_same[OF this, of "act_regs (acts ctx i)"] rs Loc_reg assms(1)
  show ?thesis by (auto simp: read_loc_def)
qed

lemma read_write_loc_apart:
  assumes "REGOPS ctx = ops" and "write_loc ctx m l bs = Inr (m', ctx')"
    and "loc_apart l l' n" and "length bs = n"
  shows "read_loc ctx' m' l' n = read_loc ctx m l' n"
proof (cases l)
  case (Loc_mem a)
  with assms show ?thesis
    by (auto simp: write_loc_def read_loc_def loc_apart_def read_write_other split: if_splits loc.splits)
next
  case (Loc_reg i r)
  with assms obtain rs where rs: "reg_put ops (act_regs (acts ctx i)) r bs = Inr rs"
    "ctx' = upd_act ctx i (\<lambda>a. a\<lparr>act_regs := rs\<rparr>)" "m' = m"
    by (auto simp: write_loc_def res_simps)
  with Loc_reg assms(1,3) show ?thesis
    using read_put_other[OF rs(1)]
    by (cases l') (auto simp: read_loc_def loc_apart_def)
qed

text \<open>
  A second location exists only for a callee-saved register of an inner activation, and is the
  save slot of a frame or the register of the outermost activation: it never coincides with
  the first.
\<close>

lemma callee_walk_loc:
  "callee_walk checks ctx r k = Inr (Some c) \<Longrightarrow> c = Loc_reg 0 r \<or> (\<exists>a. c = Loc_mem a \<and> a \<noteq> 0)"
  by (induction k) (auto simp: res_simps split: if_splits)

lemma callee_addr_apart:
  assumes "callee_addr_of checks ctx (lv_type v) (unat (lv_regnum v)) (act ctx) = Inr (Some c)"
    and "get_dest_loc ctx v (act ctx) = Inr dl"
  shows "loc_apart c dl n \<and> dl = Loc_reg (act ctx) (unat (lv_regnum v))"
proof -
  from assms(1) have t: "lv_type v = SM_REGISTER" "act ctx \<noteq> 0"
    "callee_walk checks ctx (unat (lv_regnum v)) (act ctx) = Inr (Some c)"
    by (auto simp: callee_addr_of_def callee_saved_loc_def split: if_splits)
  have "dl = Loc_reg (act ctx) (unat (lv_regnum v))"
    using assms(2) t(1) by (auto simp: get_dest_loc_def get_val_loc_def res_simps)
  with callee_walk_loc[OF t(3)] t(2) show ?thesis by (auto simp: loc_apart_def)
qed

text \<open>
  A copied value: the destination location holds the bytes of the source location, and so does
  the save slot (or outermost register) of a callee-saved register.
\<close>

lemma put_val_copies:
  assumes ops: "REGOPS dest = ops" and same: "act src = act dest"
    and run: "put_val checks m src sv dest dv = Inr (m', dest')"
    and dynamic: "\<not> is_const (lv_type dv)"
    and locs: "get_src_loc src sv (act src) = Inr sl" "get_dest_loc dest dv (act dest) = Inr dl"
      "callee_addr_of checks dest (lv_type dv) (unat (lv_regnum dv)) (act dest) = Inr cl"
    and bs: "read_src src m sl (VAL_SIZE dv) = Inr bs"
  shows "read_loc dest' m' dl (VAL_SIZE dv) = Inr bs \<and>
    (\<forall>c. cl = Some c \<longrightarrow> read_loc dest' m' c (VAL_SIZE dv) = Inr bs)"
proof -
  have len: "length bs = VAL_SIZE dv" by (rule read_src_length[OF bs])
  have "unat w < 2 ^ 64" for w :: u32
    using unsigned_less[of w, where 'a = nat] by simp
  moreover have "unat w < 2 ^ 64" for w :: u8
    using unsigned_less[of w, where 'a = nat] by simp
  ultimately have small: "length bs \<le> 2 ^ 64"
    unfolding len VAL_SIZE_def by (simp add: less_imp_le)
  from run dynamic locs same bs obtain m1 d1 where w: "write_loc dest m dl bs = Inr (m1, d1)"
    and rest: "(case cl of None \<Rightarrow> Inr (m1, d1) | Some l \<Rightarrow>
      bindE (read_src src m1 sl (VAL_SIZE dv)) (\<lambda>b. write_loc d1 m1 l b)) = Inr (m', dest')"
    by (auto simp: put_val_def res_simps)
  have r1: "read_loc d1 m1 dl (VAL_SIZE dv) = Inr bs"
    using read_write_loc[OF ops w small] len by simp
  show ?thesis
  proof (cases cl)
    case None
    with rest r1 show ?thesis by simp
  next
    case (Some c)
    then have apart: "loc_apart c dl (VAL_SIZE dv)" "dl = Loc_reg (act dest) (unat (lv_regnum dv))"
      using callee_addr_apart[of checks dest dv c dl] locs by auto
    then have "m1 = m" using w by (auto simp: write_loc_def res_simps)
    with rest Some bs have w2: "write_loc d1 m1 c bs = Inr (m', dest')" by auto
    have "REGOPS d1 = ops" using write_loc_handle[OF w] ops by simp
    from read_write_loc[OF this w2 small] read_write_loc_apart[OF this w2 apart(1) len] Some r1 len
    show ?thesis by simp
  qed
qed

text \<open>
  A fixup resolved to an address writes that address where the destination value lives, and to
  the second location of a callee-saved register.
\<close>

lemma put_val_data_stores:
  assumes ops: "REGOPS ctx = ops"
    and run: "put_val_data checks m ctx v i d = Inr (m', ctx')"
    and dynamic: "\<not> is_const (lv_type v)"
    and locs: "get_dest_loc ctx v i = Inr dl"
      "callee_addr_of checks ctx (lv_type v) (unat (lv_regnum v)) i = Inr cl"
  shows "read_loc ctx' m' dl 8 = Inr (le_bytes 8 d) \<and>
    (\<forall>c. cl = Some c \<longrightarrow> read_loc ctx' m' c 8 = Inr (le_bytes 8 d))"
proof -
  from run dynamic locs obtain m1 c1 where w: "write_loc ctx m dl (le_bytes 8 d) = Inr (m1, c1)"
    and w2: "write_opt c1 m1 cl (le_bytes 8 d) = Inr (m', ctx')"
    by (auto simp: put_val_data_def res_simps)
  have r1: "read_loc c1 m1 dl 8 = Inr (le_bytes 8 d)" using read_write_loc[OF ops w] by simp
  show ?thesis
  proof (cases cl)
    case None
    with r1 w2 show ?thesis by (simp add: write_opt_def)
  next
    case (Some c)
    then have t: "lv_type v = SM_REGISTER" "i \<noteq> 0" "callee_walk checks ctx (unat (lv_regnum v)) i = Inr (Some c)"
      using locs(2) by (auto simp: callee_addr_of_def callee_saved_loc_def split: if_splits)
    have "dl = Loc_reg i (unat (lv_regnum v))"
      using locs(1) t(1) by (auto simp: get_dest_loc_def get_val_loc_def res_simps)
    with callee_walk_loc[OF t(3)] t(2) have apart: "loc_apart c dl 8" by (auto simp: loc_apart_def)
    have w3: "write_loc c1 m1 c (le_bytes 8 d) = Inr (m', ctx')" using w2 Some by (simp add: write_opt_def)
    have "REGOPS c1 = ops" using write_loc_handle[OF w] ops by simp
    from read_write_loc[OF this w3] read_write_loc_apart[OF this w3 apart] Some r1
    show ?thesis by simp
  qed
qed

end

text \<open>
  The pointed-to analysis keeps the offset of the pointer inside the value: a pointer into the
  source value becomes the pointer at the same offset of the destination value, and every
  other pointer is left for another value.
\<close>

lemma points_to_data_direct:
  assumes "lv_type sv = SM_DIRECT" and "lv_type dv = SM_DIRECT"
    and "reg_read64 (REGOPS src) (act_regs (ACT src)) (unat (lv_regnum sv)) = Inr p"
    and "reg_read64 (REGOPS dest) (act_regs (ACT dest)) (unat (lv_regnum dv)) = Inr q"
    and "s = ptr_add p (sint (lv_offset sv))" and "d = ptr_add q (sint (lv_offset dv))"
  shows "points_to_data checks src sv dest dv a =
    Inr (if s \<le> a \<and> a < s + of_nat (VAL_SIZE sv) then d + (a - s) else 0)"
  using assms by (simp add: points_to_data_def get_val_loc_def)

text \<open>The nearest inner activation that saved a register: the walk is a search for it.\<close>

lemma callee_walk_saved:
  assumes "k < i" and "is_saved k" and "\<forall>j. k < j \<longrightarrow> j < i \<longrightarrow> \<not> is_saved j"
    and "\<forall>j<i. bitmap_is_set checks (callee_saved_pool ctx) (act_callee_saved (acts ctx j)) r = Inr (is_saved j)"
    and "get_register_save_loc checks ctx (acts ctx k) r = Inr a" and "a \<noteq> 0"
  shows "callee_walk checks ctx r i = Inr (Some (Loc_mem a))"
  using assms
proof (induction i)
  case (Suc i)
  show ?case
  proof (cases "k = i")
    case True
    with Suc.prems show ?thesis by simp
  next
    case False
    with Suc.prems have "\<not> is_saved i" "k < i" by auto
    with Suc show ?thesis by simp
  qed
qed simp

lemma callee_walk_live:
  assumes "\<forall>j<i. bitmap_is_set checks (callee_saved_pool ctx) (act_callee_saved (acts ctx j)) r = Inr False"
  shows "callee_walk checks ctx r i = callee_walk checks ctx r 0"
  using assms by (induction i) simp_all

text \<open>The arithmetic right shift works on an unsigned value and is logical; \<open>Load\<close> falls into the error of the default case.\<close>

lemma arch_result_shifts_logically:
  assumes "operand < 64"
  shows "arch_result v operand Inst_RightShiftArith = Inr (drop_bit (unat operand) v)"
    and "\<exists>e. arch_result v operand Inst_Load = Inl e"
  using assms by (simp_all add: arch_result_def shift_by_def)

section \<open>Return addresses at a function entry\<close>

text \<open>On aarch64 the round trip goes through the link register and writes no memory.\<close>

lemma return_address_round_trip_aarch64:
  assumes "REGOPS ctx = regs_aarch64" and "PROPS ctx = properties_aarch64" and "act ctx + 1 < MAX_FRAMES"
    and "retaddr \<noteq> 0"
    and "cfa = act_cfa (ACT ctx) + ucast (cs_frame_size (act_site (NEXT_ACT ctx)))"
    and "act_cfa (ACT ctx) \<noteq> 0" and "cs_addr (act_site (NEXT_ACT ctx)) \<noteq> 0" and "cfa \<noteq> 0" and "cfa \<noteq> 16"
  shows "\<exists>ctx1 ctx'. set_return_address_funcentry checks m ctx retaddr = Inr (m, ctx1) \<and>
    pop_frame_funcentry checks m ctx1 = Inr ctx' \<and> act ctx' = act ctx + 1 \<and>
    pc_aarch64 (act_regs (ACT ctx')) = retaddr \<and> sp_aarch64 (act_regs (ACT ctx')) = act_cfa (ACT ctx) \<and>
    fbp_aarch64 (act_regs (ACT ctx')) = cfa - 16 \<and> act_cfa (ACT ctx') = cfa"
proof -
  have s: "has_ra_reg regs_aarch64" "sp regs_aarch64 = sp_aarch64" "pc regs_aarch64 = pc_aarch64" "fbp regs_aarch64 = fbp_aarch64"
    by (simp_all add: regs_aarch64_def)
  obtain rs where rs: "set_ra_reg regs_aarch64 (act_regs (ACT ctx)) retaddr = Inr rs" "ra_reg regs_aarch64 rs = Inr retaddr"
    using a64.set_ra_law[OF s(1)] by blast
  let ?ctx = "upd_act ctx (act ctx) (\<lambda>a. a\<lparr>act_regs := rs\<rparr>)"
  have "set_return_address_funcentry checks m ctx retaddr = Inr (m, ?ctx)"
    using assms s rs by (simp add: set_return_address_funcentry_def)
  moreover have "\<exists>ctx'. pop_frame_funcentry checks m ?ctx = Inr ctx' \<and> act ctx' = act ctx + 1 \<and>
    pc regs_aarch64 (act_regs (ACT ctx')) = retaddr \<and> sp regs_aarch64 (act_regs (ACT ctx')) = act_cfa (ACT ctx) \<and>
    fbp regs_aarch64 (act_regs (ACT ctx')) = cfa - 16 \<and> act_cfa (ACT ctx') = cfa"
    using a64p.pop_frame_funcentry_law[of ?ctx m retaddr cfa checks] assms s rs by auto
  ultimately show ?thesis unfolding s by blast
qed

end
