(* ===== verification/Rewrite.thy ===== *)
theory Rewrite
  imports Data_Access
begin

text \<open>
  The stack rewriting of \<open>lib/stack_transformation/src/rewrite.c\<close>: setting up the two contexts,
  unwinding the source stack while sizing the destination stack, copying the live values of
  each frame with the fixups for pointers to the stack, and the driver \<open>st_rewrite_stack\<close>.
  The list of fixups is the list of its data; the pointer loops over it are related to lists in
  \<open>Linked_List\<close>. Sums of metadata offsets and loop indices are natural numbers.
\<close>

section \<open>Contexts\<close>

text \<open>
  What the allocator hands out: the contents of the context's activation array with the
  register pool, and the words of the bitmap pool. \<open>None\<close> is a
  failed allocation, which is a null pointer used at once in builds without checks.
\<close>

record 'raw fresh =
  fresh_acts :: "nat \<Rightarrow> 'raw activation"
  fresh_word :: "nat \<Rightarrow> u64"

definition init_data_pools :: "bool \<Rightarrow> 'raw fresh option \<Rightarrow> 'raw rewrite_context \<Rightarrow>
    'raw rewrite_context res" where
  "init_data_pools checks alloc ctx =
     bindE (ASSERT checks (alloc \<noteq> None)) (\<lambda>_.
       case alloc of None \<Rightarrow> Inl (UB Null_deref)
       | Some a \<Rightarrow> Inr (ctx\<lparr>acts := fresh_acts a,
           callee_saved_pool := map (fresh_word a)
             [0..<bitmap_words (num_regs (REGOPS ctx)) * MAX_FRAMES]\<rparr>))"

definition blank_context :: "'raw st_handle \<Rightarrow> 'raw \<Rightarrow> u64 \<Rightarrow> 'raw rewrite_context" where
  "blank_context h regset sp_base =
     \<lparr>handle = h, stack_base = sp_base, stack = 0, out_regs = regset, num_acts = 0, act = 0,
      acts = (\<lambda>_. \<lparr>act_site = EMPTY_CALL_SITE, act_cfa = 0, act_regs = regset_init (h_regops h) regset,
        act_callee_saved = \<lparr>bm_size = 0, bm_bits = None\<rparr>\<rparr>),
      stack_pointers = [], callee_saved_pool = []\<rparr>"

definition init_src_context :: "bool \<Rightarrow> 'raw fresh option \<Rightarrow> 'raw st_handle \<Rightarrow> 'raw \<Rightarrow> u64 \<Rightarrow>
    'raw rewrite_context res" where
  "init_src_context checks alloc h regset sp_base =
     bindE (init_data_pools checks alloc (blank_context h regset sp_base)) (\<lambda>ctx1.
     let ctx2 = upd_act ctx1 (act ctx1) (\<lambda>a. a\<lparr>act_regs := regset_copyin (REGOPS ctx1) (act_regs a) regset\<rparr>);
         ctx3 = ctx2\<lparr>stack := sp (REGOPS ctx2) (act_regs (ACT ctx2))\<rparr> in
     bindE (get_site_by_addr h (pc (REGOPS ctx3) (act_regs (ACT ctx3)))) (\<lambda>r.
     case r of None \<Rightarrow> Inl (ST_ERR 1 Err_src_site)
     | Some site \<Rightarrow>
       let ctx4 = upd_act ctx3 (act ctx3) (\<lambda>a. a\<lparr>act_site := site\<rparr>) in
       bindE (ASSERT checks (stack ctx4 \<noteq> 0)) (\<lambda>_.
         bootstrap_first_frame checks ctx4)))"

definition init_dest_context :: "bool \<Rightarrow> 'raw fresh option \<Rightarrow> 'raw st_handle \<Rightarrow> 'raw \<Rightarrow> u64 \<Rightarrow> u64 \<Rightarrow>
    'raw rewrite_context res" where
  "init_dest_context checks alloc h regset sp_base new_pc =
     bindE (init_data_pools checks alloc (blank_context h regset sp_base)) (\<lambda>ctx1.
       Inr (upd_act ctx1 (act ctx1) (\<lambda>a. a\<lparr>act_regs := set_pc (REGOPS ctx1) (act_regs a) new_pc,
         act_site := EMPTY_CALL_SITE\<rparr>)))"

definition free_context :: "bool \<Rightarrow> 'raw rewrite_context \<Rightarrow> 'raw rewrite_context" where
  "free_context checks ctx = ctx\<lparr>stack_pointers := [],
     acts := (\<lambda>i. if i < num_acts ctx then free_activation checks (handle ctx) (acts ctx i)
                  else acts ctx i),
     callee_saved_pool := []\<rparr>"

section \<open>Unwinding the source stack\<close>

text \<open>One iteration of the loop of \<open>unwind_and_size\<close>: the contexts and the size so far.\<close>

definition unwind_step :: "bool \<Rightarrow> mem \<Rightarrow> 'a rewrite_context \<times> 'b rewrite_context \<times> u64 \<Rightarrow>
    ('a rewrite_context \<times> 'b rewrite_context \<times> u64) res" where
  "unwind_step checks m = (\<lambda>(src, dest, stack_size).
     bindE (pop_frame checks m src False) (\<lambda>src1.
     let src2 = src1\<lparr>num_acts := num_acts src1 + 1\<rparr>;
         dest1 = dest\<lparr>num_acts := num_acts dest + 1, act := act dest + 1\<rparr> in
     bindE (get_site_by_addr (handle src2) (pc (REGOPS src2) (act_regs (ACT src2)))) (\<lambda>r.
     case r of None \<Rightarrow> Inl (ST_ERR 1 Err_src_site)
     | Some site \<Rightarrow>
       let src3 = upd_act src2 (act src2) (\<lambda>a. a\<lparr>act_site := site\<rparr>) in
       bindE (get_site_by_id (handle dest1) (cs_id site)) (\<lambda>r.
       case r of None \<Rightarrow> Inl (ST_ERR 1 Err_dest_site)
       | Some dsite \<Rightarrow>
         let dest2 = upd_act dest1 (act dest1) (\<lambda>a. a\<lparr>act_site := dsite\<rparr>) in
         bindE (calculate_cfa checks src3 (act src3)) (\<lambda>cfa.
           Inr (upd_act src3 (act src3) (\<lambda>a. a\<lparr>act_cfa := cfa\<rparr>), dest2,
             stack_size + ucast (cs_frame_size dsite)))))))"

lemma advance_act: "advance checks ctx = Inr ctx' \<Longrightarrow> act ctx' = act ctx + 1"
  by (auto simp: advance_def Let_def res_simps)

lemma restore_loop_act: "restore_loop checks m i ctx ks = Inr ctx' \<Longrightarrow> act ctx' = act ctx"
  by (induction ks arbitrary: ctx)
     (fastforce simp: res_simps restore_reg_def Let_def)+

lemma restore_callee_saved_act:
  "restore_callee_saved_regs checks m ctx i = Inr ctx' \<Longrightarrow> act ctx' = act ctx"
  by (auto simp: restore_callee_saved_regs_def set_pc_from_ra_def res_simps
      dest: restore_loop_act split: if_splits)

lemma pop_frame_act:
  assumes "pop_frame checks m ctx b = Inr ctx'"
  shows "act ctx' = act ctx + 1 \<and> act ctx + 1 < MAX_FRAMES"
proof -
  obtain c1 c2 c3 c4 where c: "setup_regset ctx (act ctx + 1) = Inr c1"
      "setup_callee_saved_bits c1 (act ctx + 1) = Inr c2"
      "restore_callee_saved_regs checks m c2 (act ctx + 1) = Inr c3"
      "(if b then setup_frame_bounds checks c3 (act ctx + 1)
        else Inr (upd_act c3 (act c3 + 1) (\<lambda>a. a\<lparr>act_regs :=
          set_sp (REGOPS c3) (act_regs a) (act_cfa (ACT c3))\<rparr>))) = Inr c4"
      "advance checks c4 = Inr ctx'"
    using assms unfolding pop_frame_def Let_def bindE_eq_Inr_iff by blast
  have 1: "act c1 = act ctx \<and> act ctx + 1 < MAX_FRAMES"
    using c(1) by (auto simp: setup_regset_def act_slot_def split: if_splits)
  have 2: "act c2 = act c1"
    using c(2) by (auto simp: setup_callee_saved_bits_def act_slot_def split: if_splits)
  have 3: "act c3 = act c2" by (rule restore_callee_saved_act[OF c(3)])
  have 4: "act c4 = act c3"
    using c(4) by (auto simp: setup_frame_bounds_def Let_def res_simps split: if_splits)
  show ?thesis using 1 2 3 4 advance_act[OF c(5)] by simp
qed

lemma unwind_step_act:
  "unwind_step checks m (src, dest, n) = Inr (src', dest', n') \<Longrightarrow>
    act src' = act src + 1 \<and> act src + 1 < MAX_FRAMES"
  by (auto simp: unwind_step_def Let_def res_simps dest!: pop_frame_act split: option.splits)

function unwind_loop :: "bool \<Rightarrow> mem \<Rightarrow> 'a rewrite_context \<times> 'b rewrite_context \<times> u64 \<Rightarrow>
    ('a rewrite_context \<times> 'b rewrite_context \<times> u64) res" where
  "unwind_loop checks m st =
     bindE (unwind_step checks m st) (\<lambda>st1.
       if \<not> first_frame (cs_id (act_site (ACT (fst st1)))) then unwind_loop checks m st1
       else Inr st1)"
  by pat_completeness auto
termination
  by (relation "measure (\<lambda>(checks, m, src, dest, n). MAX_FRAMES - act src)")
     (auto dest!: unwind_step_act)

declare unwind_loop.simps [simp del]

definition clear_pool :: "nat \<Rightarrow> u64 list \<Rightarrow> u64 list res" where
  "clear_pool n pool =
     (if n \<le> length pool then Inr (replicate n 0 @ drop n pool) else Inl (UB Out_of_bounds))"

definition unwind_and_size :: "bool \<Rightarrow> mem \<Rightarrow> 'a rewrite_context \<Rightarrow> 'b rewrite_context \<Rightarrow>
    ('a rewrite_context \<times> 'b rewrite_context) res" where
  "unwind_and_size checks m src dest =
     bindE (unwind_loop checks m (src, dest, 0)) (\<lambda>(src1, dest1, stack_size).
     bindE (pop_frame checks m src1 False) (\<lambda>src2.
     let src3 = src2\<lparr>num_acts := num_acts src2 + 1\<rparr>;
         dest2 = dest1\<lparr>num_acts := num_acts dest1 + 1, act := act dest1 + 1\<rparr> in
     bindE (ASSERT checks (stack_size < MAX_STACK_SIZE div 2)) (\<lambda>_.
     let src4 = src3\<lparr>act := 0\<rparr>; dest3 = dest2\<lparr>act := 0\<rparr>;
         top = stack_base dest3 - stack_size in
     bindE (if sp_needs_align (PROPS dest3) then align_sp (PROPS dest3) top else Inr top) (\<lambda>top.
     let dest4 = upd_act (dest3\<lparr>stack := top\<rparr>) 0 (\<lambda>a. a\<lparr>act_regs := set_sp (REGOPS dest3) (act_regs a) top\<rparr>) in
     bindE (clear_pool (bitmap_words (num_regs (REGOPS dest4)) * num_acts dest4) (callee_saved_pool dest4))
       (\<lambda>pool.
     bindE (bootstrap_first_frame_funcentry checks (dest4\<lparr>callee_saved_pool := pool\<rparr>)) (\<lambda>dest5.
       Inr (src4, dest5)))))))"

section \<open>Live values\<close>

text \<open>\<open>va_list\<close> has a different size on the two architectures and is not copied.\<close>

definition va_list_pair :: "live_value \<Rightarrow> live_value \<Rightarrow> bool" where
  "va_list_pair val_src val_dest \<longleftrightarrow>
     is_alloca val_src \<and> VAL_SIZE val_src = 24 \<and> is_alloca val_dest \<and> VAL_SIZE val_dest = 32 \<or>
     is_alloca val_src \<and> VAL_SIZE val_src = 32 \<and> is_alloca val_dest \<and> VAL_SIZE val_dest = 24"

text \<open>Copy the value, or record a fixup for a pointer to the stack.\<close>

definition copy_or_fixup :: "bool \<Rightarrow> mem \<Rightarrow> 'a rewrite_context \<Rightarrow> live_value \<Rightarrow> 'b rewrite_context \<Rightarrow>
    live_value \<Rightarrow> (mem \<times> 'b rewrite_context \<times> bool) res" where
  "copy_or_fixup checks m src val_src dest val_dest =
     bindE (points_to_stack checks m src val_src) (\<lambda>stack_addr.
     if stack_addr \<noteq> 0 then
       if act src = 0 \<or> act_cfa (PREV_ACT src) \<le> stack_addr then
         Inr (m, dest\<lparr>stack_pointers := stack_pointers dest @
             [\<lparr>fx_src_addr = stack_addr, fx_act = act dest, fx_dest_loc = val_dest\<rparr>]\<rparr>,
           stack_addr < act_cfa (ACT src))
       else Inr (m, dest, False)
     else bindE (put_val checks m src val_src dest val_dest) (\<lambda>(m1, dest1). Inr (m1, dest1, False)))"

text \<open>The body of the loop over the pending fixups: resolve and remove those that point here.\<close>

definition resolve_fixup :: "bool \<Rightarrow> 'a rewrite_context \<Rightarrow> live_value \<Rightarrow> live_value \<Rightarrow>
    mem \<times> 'b rewrite_context \<Rightarrow> fixup \<Rightarrow> ((mem \<times> 'b rewrite_context) \<times> bool) res" where
  "resolve_fixup checks src val_src val_dest = (\<lambda>(m, dest) fx.
     bindE (points_to_data checks src val_src dest val_dest (fx_src_addr fx)) (\<lambda>stack_addr.
     if stack_addr \<noteq> 0 then
       bindE (put_val_data checks m dest (fx_dest_loc fx) (fx_act fx) stack_addr) (\<lambda>md. Inr (md, True))
     else Inr ((m, dest), False)))"

definition rewrite_val :: "bool \<Rightarrow> mem \<Rightarrow> 'a rewrite_context \<Rightarrow> live_value \<Rightarrow> 'b rewrite_context \<Rightarrow>
    live_value \<Rightarrow> (mem \<times> 'b rewrite_context \<times> bool) res" where
  "rewrite_val checks m src val_src dest val_dest =
     (if va_list_pair val_src val_dest then Inr (m, dest, False)
      else
        bindE (ASSERT checks (VAL_SIZE val_src = VAL_SIZE val_dest)) (\<lambda>_.
        bindE (ASSERT checks (is_ptr val_src = is_ptr val_dest)) (\<lambda>_.
        bindE (ASSERT checks (is_alloca val_src = is_alloca val_dest)) (\<lambda>_.
        bindE (copy_or_fixup checks m src val_src dest val_dest) (\<lambda>(m1, dest1, needs_local_fixup).
        if is_alloca val_src then
          bindE (scan (resolve_fixup checks src val_src val_dest) (m1, dest1) (stack_pointers dest1))
            (\<lambda>((m2, dest2), pending). Inr (m2, dest2\<lparr>stack_pointers := pending\<rparr>, needs_local_fixup))
        else Inr (m1, dest1, needs_local_fixup))))))"

section \<open>Local fixups\<close>

definition live_at :: "live_value list \<Rightarrow> nat \<Rightarrow> nat \<Rightarrow> live_value res" where
  "live_at vals off i = array_get vals (off + i)"

text \<open>\<open>while(live_vals[i + 1 + offset].is_duplicate) i++;\<close>\<close>

function skip_duplicates :: "live_value list \<Rightarrow> nat \<Rightarrow> nat \<Rightarrow> nat res" where
  "skip_duplicates vals off i =
     bindE (live_at vals off (i + 1)) (\<lambda>v.
       if is_duplicate v then skip_duplicates vals off (i + 1) else Inr i)"
  by pat_completeness auto
termination
  by (relation "measure (\<lambda>(vals, off, i). length vals - (off + i))") (auto simp: live_at_def res_simps)

declare skip_duplicates.simps [simp del]

lemma skip_duplicates_ge: "skip_duplicates vals off i = Inr j \<Longrightarrow> i \<le> j"
proof (induction vals off i rule: skip_duplicates.induct)
  case (1 vals off i)
  obtain v where v: "live_at vals off (i + 1) = Inr v"
    "(if is_duplicate v then skip_duplicates vals off (i + 1) else Inr i) = Inr j"
    using 1(2) by (subst (asm) skip_duplicates.simps) (auto simp: bindE_eq_Inr_iff)
  then show ?case using 1(1)[OF v(1)] by (cases "is_duplicate v") auto
qed

text \<open>The search of a frame's values for the one a fixup points to.\<close>

function local_search :: "bool \<Rightarrow> mem \<Rightarrow> 'a rewrite_context \<Rightarrow> 'b rewrite_context \<Rightarrow> fixup \<Rightarrow> nat \<Rightarrow> nat \<Rightarrow>
    (mem \<times> 'b rewrite_context) option res" where
  "local_search checks m src dest fx i j =
     (if j < unat (cs_num_live (act_site (ACT dest))) then
        let svals = live_vals (handle src); soff = unat (cs_live_offset (act_site (ACT src)));
            dvals = live_vals (handle dest); doff = unat (cs_live_offset (act_site (ACT dest))) in
        bindE (live_at svals soff i) (\<lambda>val_src.
        bindE (live_at dvals doff j) (\<lambda>val_dest.
        bindE (ASSERT checks (\<not> is_duplicate val_src)) (\<lambda>_.
        bindE (ASSERT checks (\<not> is_duplicate val_dest)) (\<lambda>_.
        bindE (skip_duplicates svals soff i) (\<lambda>i1.
        bindE (skip_duplicates dvals doff j) (\<lambda>j1.
        if \<not> is_alloca val_src \<or> \<not> is_alloca val_dest then
          local_search checks m src dest fx (i1 + 1) (j1 + 1)
        else
          bindE (points_to_data checks src val_src dest val_dest (fx_src_addr fx)) (\<lambda>stack_addr.
          if stack_addr \<noteq> 0 then
            bindE (put_val_data checks m dest (fx_dest_loc fx) (fx_act fx) stack_addr) (\<lambda>md.
              Inr (Some md))
          else local_search checks m src dest fx (i1 + 1) (j1 + 1))))))))
      else Inr None)"
  by pat_completeness auto
termination
  by (relation "measure (\<lambda>(checks, m, src, dest, fx, i, j).
      unat (cs_num_live (act_site (ACT dest))) - j)") (auto dest!: skip_duplicates_ge)

declare local_search.simps [simp del]

text \<open>
  The loop over all fixups. \<open>todo\<close> starts at the current node, \<open>kept\<close> holds the nodes passed
  over. \<open>found\<close> is the variable \<open>found_fixup\<close>: it has no value before the first search and
  keeps that of the last one for a fixup that is not in this frame. Not returning is \<open>None\<close>.
\<close>

partial_function (option) fixup_loop :: "bool \<Rightarrow> 'a rewrite_context \<Rightarrow> mem \<Rightarrow> 'b rewrite_context \<Rightarrow>
    bool option \<Rightarrow> fixup list \<Rightarrow> fixup list \<Rightarrow> (mem \<times> 'b rewrite_context) res option" where
  "fixup_loop checks src m dest found kept todo =
     (case todo of
        [] \<Rightarrow> Some (Inr (m, dest\<lparr>stack_pointers := kept\<rparr>))
      | fx # rest \<Rightarrow>
          if fx_src_addr fx \<le> act_cfa (ACT src) then
            if fx_act fx \<noteq> act src then fixup_loop checks src m dest found (kept @ [fx]) rest
            else (case local_search checks m src dest fx 0 0 of
                Inl e \<Rightarrow> Some (Inl e)
              | Inr r \<Rightarrow> (case r of
                  Some md \<Rightarrow> fixup_loop checks src (fst md) (snd md) (Some True) kept rest
                | None \<Rightarrow> fixup_loop checks src m dest (Some False) (kept @ [fx]) rest))
          else (case found of
              None \<Rightarrow> Some (Inl (UB Uninitialised))
            | Some b \<Rightarrow> if b then fixup_loop checks src m dest found kept todo
                else fixup_loop checks src m dest found (kept @ [fx]) rest))"

declare fixup_loop.simps [code]

definition fixup_local_pointers :: "bool \<Rightarrow> mem \<Rightarrow> 'a rewrite_context \<Rightarrow> 'b rewrite_context \<Rightarrow>
    (mem \<times> 'b rewrite_context) res option" where
  "fixup_local_pointers checks m src dest =
     fixup_loop checks src m dest None [] (stack_pointers dest)"

section \<open>Frames\<close>

text \<open>The duplicate records of the destination value, each of which gets the source value.\<close>

function dup_loop :: "bool \<Rightarrow> 'a rewrite_context \<Rightarrow> live_value \<Rightarrow> live_value list \<Rightarrow> nat \<Rightarrow> nat \<Rightarrow>
    mem \<times> 'b rewrite_context \<times> bool \<Rightarrow> (nat \<times> mem \<times> 'b rewrite_context \<times> bool) res" where
  "dup_loop checks src val_src dvals doff j st =
     bindE (live_at dvals doff (j + 1)) (\<lambda>val_dest.
       if is_duplicate val_dest then
         bindE (ASSERT checks (\<not> is_alloca val_dest)) (\<lambda>_.
         bindE (rewrite_val checks (fst st) src val_src (fst (snd st)) val_dest) (\<lambda>(m1, dest1, needs).
           dup_loop checks src val_src dvals doff (j + 1) (m1, dest1, snd (snd st) \<or> needs)))
       else Inr (j, st))"
  by pat_completeness auto
termination
  by (relation "measure (\<lambda>(checks, src, v, dvals, doff, j, st). length dvals - (doff + j))")
     (auto simp: live_at_def res_simps)

declare dup_loop.simps [simp del]

lemma dup_loop_ge: "dup_loop checks src v dvals doff j st = Inr (k, st') \<Longrightarrow> j \<le> k"
proof (induction checks src v dvals doff j st rule: dup_loop.induct)
  case (1 checks src v dvals doff j st)
  obtain d where d: "live_at dvals doff (j + 1) = Inr d" "is_duplicate d \<or> k = j"
    using 1(2) by (subst (asm) dup_loop.simps) (auto simp: bindE_eq_Inr_iff split: if_splits)
  show ?case
  proof (cases "is_duplicate d")
    case True
    obtain u m1 dest1 needs where r: "ASSERT checks (\<not> is_alloca d) = Inr u"
        "rewrite_val checks (fst st) src v (fst (snd st)) d = Inr (m1, dest1, needs)"
        "dup_loop checks src v dvals doff (j + 1) (m1, dest1, snd (snd st) \<or> needs) = Inr (k, st')"
      using 1(2) d(1) True by (subst (asm) dup_loop.simps) (auto simp: bindE_eq_Inr_iff)
    show ?thesis using 1(1)[OF d(1) True r(1,2) refl refl r(3)] by simp
  next
    case False
    with d(2) show ?thesis by simp
  qed
qed

text \<open>The loop over the live values of a frame; returns the final indices too.\<close>

function live_loop :: "bool \<Rightarrow> 'a rewrite_context \<Rightarrow> 'b st_handle \<Rightarrow> call_site \<Rightarrow> nat \<Rightarrow> nat \<Rightarrow>
    mem \<times> 'b rewrite_context \<times> bool \<Rightarrow> (nat \<times> nat \<times> mem \<times> 'b rewrite_context \<times> bool) res" where
  "live_loop checks src dh dsite i j st =
     (if j < unat (cs_num_live dsite) then
        let svals = live_vals (handle src); soff = unat (cs_live_offset (act_site (ACT src)));
            dvals = live_vals dh; doff = unat (cs_live_offset dsite) in
        bindE (ASSERT checks (i < unat (live_vals_count (handle src)))) (\<lambda>_.
        bindE (ASSERT checks (j < unat (live_vals_count dh))) (\<lambda>_.
        bindE (live_at svals soff i) (\<lambda>val_src.
        bindE (live_at dvals doff j) (\<lambda>val_dest.
        bindE (ASSERT checks (\<not> is_duplicate val_src)) (\<lambda>_.
        bindE (ASSERT checks (\<not> is_duplicate val_dest)) (\<lambda>_.
        bindE (rewrite_val checks (fst st) src val_src (fst (snd st)) val_dest) (\<lambda>(m1, dest1, needs).
        bindE (dup_loop checks src val_src dvals doff j (m1, dest1, snd (snd st) \<or> needs)) (\<lambda>(j1, st1).
        bindE (skip_duplicates svals soff i) (\<lambda>i1.
          live_loop checks src dh dsite (i1 + 1) (j1 + 1) st1)))))))))
      else Inr (i, j, st))"
  by pat_completeness auto
termination
  by (relation "measure (\<lambda>(checks, src, dh, dsite, i, j, st). unat (cs_num_live dsite) - j)")
     (auto dest!: dup_loop_ge)

declare live_loop.simps [simp del]

text \<open>The architecture-specific values at record indices \<open>ks\<close>.\<close>

primrec arch_loop :: "bool \<Rightarrow> arch_live_value list \<Rightarrow> nat list \<Rightarrow> mem \<times> 'b rewrite_context \<Rightarrow>
    (mem \<times> 'b rewrite_context) res" where
  "arch_loop checks vals [] st = Inr st"
| "arch_loop checks vals (k # ks) st =
     bindE (array_get vals k) (\<lambda>v.
     bindE (put_val_arch checks (fst st) (snd st) v) (\<lambda>st1. arch_loop checks vals ks st1))"

definition rewrite_frame :: "bool \<Rightarrow> mem \<Rightarrow> 'a rewrite_context \<Rightarrow> 'b rewrite_context \<Rightarrow>
    (mem \<times> 'b rewrite_context) res option" where
  "rewrite_frame checks m src dest =
     (let dsite = act_site (ACT dest) in
      case
        bindE (live_loop checks src (handle dest) dsite 0 0 (m, dest, False)) (\<lambda>(i, j, m1, dest1, needs).
        bindE (ASSERT checks (i = unat (cs_num_live (act_site (ACT src))) \<and> j = unat (cs_num_live dsite)))
          (\<lambda>_.
        let off = unat (cs_arch_live_offset dsite) in
        bindE (arch_loop checks (arch_live_vals (handle dest))
            [off..<off + unat (cs_num_arch_live dsite)] (m1, dest1)) (\<lambda>(m2, dest2).
          Inr (m2, dest2, needs))))
      of Inl e \<Rightarrow> Some (Inl e)
       | Inr (m2, dest2, needs) \<Rightarrow>
           if needs then fixup_local_pointers checks m2 src dest2 else Some (Inr (m2, dest2)))"

section \<open>The whole stack\<close>

definition bindN :: "'x res option \<Rightarrow> ('x \<Rightarrow> 'y res option) \<Rightarrow> 'y res option" where
  "bindN r f = (case r of None \<Rightarrow> None | Some (Inl e) \<Rightarrow> Some (Inl e) | Some (Inr x) \<Rightarrow> f x)"

definition frame_step :: "bool \<Rightarrow> 'a rewrite_context \<Rightarrow> mem \<Rightarrow> 'b rewrite_context \<Rightarrow>
    (mem \<times> 'b rewrite_context) res option" where
  "frame_step checks src m dest =
     bindN (Some (set_return_address checks m dest (cs_addr (act_site (NEXT_ACT dest))))) (\<lambda>m1.
     bindN (rewrite_frame checks m1 src dest) (\<lambda>(m2, dest1).
     let saved_fbp = get_savedfbp_loc dest1 in
     bindN (Some (ASSERT checks (saved_fbp \<noteq> 0))) (\<lambda>_.
     bindN (Some (pop_frame checks m2 dest1 True)) (\<lambda>dest2.
       Some (Inr (store64 m2 saved_fbp (fbp (REGOPS dest2) (act_regs (ACT dest2))), dest2))))))"

primrec frame_loop :: "bool \<Rightarrow> 'a rewrite_context \<Rightarrow> nat list \<Rightarrow> mem \<Rightarrow> 'b rewrite_context \<Rightarrow>
    (mem \<times> 'b rewrite_context) res option" where
  "frame_loop checks src [] m dest = Some (Inr (m, dest))"
| "frame_loop checks src (k # ks) m dest =
     bindN (frame_step checks (src\<lparr>act := k\<rparr>) m dest) (\<lambda>(m1, dest1).
       frame_loop checks src ks m1 dest1)"

text \<open>
  The driver on non-null arguments returns the memory, the destination registers and the two
  contexts as they are released.
  \<open>st_rewrite_stack\<close> adds the test of the arguments, whose failure is the return value 1.
\<close>

definition rewrite_contexts :: "bool \<Rightarrow> mem \<Rightarrow> 'a rewrite_context \<Rightarrow> 'b rewrite_context \<Rightarrow>
    (mem \<times> 'b \<times> 'a rewrite_context \<times> 'b rewrite_context) res option" where
  "rewrite_contexts checks m src dest =
     bindN (Some (unwind_and_size checks m src dest)) (\<lambda>(src1, dest1).
     bindN (Some (set_return_address_funcentry checks m dest1 (cs_addr (act_site (NEXT_ACT dest1)))))
       (\<lambda>(m1, dest2).
     bindN (Some (pop_frame_funcentry checks m1 dest2)) (\<lambda>dest3.
     bindN (frame_loop checks src1 [1..<num_acts src1 - 1] m1 dest3) (\<lambda>(m2, dest4).
       Some (Inr (m2, regset_copyout (REGOPS dest4) (act_regs (acts dest4 0)) (out_regs dest4),
         free_context checks (src1\<lparr>act := max 1 (num_acts src1 - 1)\<rparr>), free_context checks dest4))))))"

definition rewrite_all :: "bool \<Rightarrow> 'a fresh option \<Rightarrow> 'b fresh option \<Rightarrow> mem \<Rightarrow> 'a st_handle \<Rightarrow> 'a \<Rightarrow> u64 \<Rightarrow>
    'b st_handle \<Rightarrow> 'b \<Rightarrow> u64 \<Rightarrow> (mem \<times> 'b \<times> 'a rewrite_context \<times> 'b rewrite_context) res option" where
  "rewrite_all checks alloc_src alloc_dest m handle_src regset_src sp_base_src handle_dest regset_dest sp_base_dest =
     bindN (Some (init_src_context checks alloc_src handle_src regset_src sp_base_src)) (\<lambda>src.
     bindN (Some (get_function_address handle_src (pc (REGOPS src) (act_regs (ACT src))))) (\<lambda>fn.
     bindN (Some (ASSERT checks (fn \<noteq> 0))) (\<lambda>_.
     bindN (Some (init_dest_context checks alloc_dest handle_dest regset_dest sp_base_dest fn)) (\<lambda>dest.
       rewrite_contexts checks m src dest))))"

definition st_rewrite_stack :: "bool \<Rightarrow> 'a fresh option \<Rightarrow> 'b fresh option \<Rightarrow> mem \<Rightarrow>
    'a st_handle option \<Rightarrow> 'a option \<Rightarrow> u64 \<Rightarrow> 'b st_handle option \<Rightarrow> 'b option \<Rightarrow> u64 \<Rightarrow>
    (mem \<times> 'b option \<times> int) res option" where
  "st_rewrite_stack checks alloc_src alloc_dest m handle_src regset_src sp_base_src
     handle_dest regset_dest sp_base_dest =
     (case (handle_src, regset_src, handle_dest, regset_dest) of
        (Some hs, Some rs, Some hdest, Some rd) \<Rightarrow>
          if sp_base_src = 0 \<or> sp_base_dest = 0 then Some (Inr (m, regset_dest, 1))
          else bindN (rewrite_all checks alloc_src alloc_dest m hs rs sp_base_src hdest rd sp_base_dest)
            (\<lambda>(m1, rd1, _, _). Some (Inr (m1, Some rd1, 0)))
      | _ \<Rightarrow> Some (Inr (m, regset_dest, 1)))"

definition st_rewrite_ondemand :: "'a st_handle option \<Rightarrow> 'a option \<Rightarrow> u64 \<Rightarrow> 'b st_handle option \<Rightarrow>
    'b option \<Rightarrow> u64 \<Rightarrow> int res" where
  "st_rewrite_ondemand handle_src regset_src sp_base_src handle_dest regset_dest sp_base_dest =
     Inl (ST_ERR 1 Err_ondemand)"

section \<open>What unwinding leaves alone\<close>

text \<open>The unwinder changes one activation (not its call site), the current index and the pool.\<close>

definition same_but :: "nat \<Rightarrow> 'a rewrite_context \<Rightarrow> 'a rewrite_context \<Rightarrow> bool" where
  "same_but i c c' \<longleftrightarrow> handle c' = handle c \<and> num_acts c' = num_acts c \<and> stack c' = stack c \<and>
     stack_base c' = stack_base c \<and> out_regs c' = out_regs c \<and> stack_pointers c' = stack_pointers c \<and>
     length (callee_saved_pool c') = length (callee_saved_pool c) \<and>
     (\<forall>j. j \<noteq> i \<longrightarrow> acts c' j = acts c j) \<and> act_site (acts c' i) = act_site (acts c i)"

lemma same_but_refl [simp]: "same_but i c c"
  by (simp add: same_but_def)

lemma same_but_trans [trans]: "same_but i a b \<Longrightarrow> same_but i b c \<Longrightarrow> same_but i a c"
  by (simp add: same_but_def)

lemma same_but_upd_regs [simp]: "same_but i c (upd_act c i (\<lambda>a. a\<lparr>act_regs := f a\<rparr>))"
  "same_but i c (upd_act c i (\<lambda>a. a\<lparr>act_cfa := g a\<rparr>))"
  "same_but i c (upd_act c i (\<lambda>a. a\<lparr>act_callee_saved := h a\<rparr>))"
  by (simp_all add: same_but_def)

lemma bitmap_set_length: "bitmap_set checks arr bm n = Inr arr' \<Longrightarrow> length arr' = length arr"
  by (auto simp: bitmap_set_def Let_def res_simps)

lemma restore_reg_same: "restore_reg checks m i c l = Inr c' \<Longrightarrow> same_but i c c'"
  by (auto simp: restore_reg_def Let_def res_simps same_but_def dest: bitmap_set_length)

lemma restore_loop_same: "restore_loop checks m i c ks = Inr c' \<Longrightarrow> same_but i c c'"
  by (induction ks arbitrary: c)
     (auto simp: res_simps intro: same_but_trans dest!: restore_reg_same)

lemma setup_frame_bounds_same: "setup_frame_bounds checks c i = Inr c' \<Longrightarrow> same_but i c c'"
  by (auto simp: setup_frame_bounds_def Let_def res_simps same_but_def)

lemma restore_callee_saved_same: "restore_callee_saved_regs checks m c i = Inr c' \<Longrightarrow> same_but i c c'"
  by (auto simp: restore_callee_saved_regs_def set_pc_from_ra_def res_simps split: if_splits
      intro: same_but_trans dest!: restore_loop_same)

lemma pop_frame_same:
  assumes "pop_frame checks m c b = Inr c'" shows "same_but (act c + 1) c c'"
proof -
  obtain c1 c2 c3 c4 where c: "setup_regset c (act c + 1) = Inr c1"
      "setup_callee_saved_bits c1 (act c + 1) = Inr c2"
      "restore_callee_saved_regs checks m c2 (act c + 1) = Inr c3"
      "(if b then setup_frame_bounds checks c3 (act c + 1)
        else Inr (upd_act c3 (act c3 + 1) (\<lambda>a. a\<lparr>act_regs :=
          set_sp (REGOPS c3) (act_regs a) (act_cfa (ACT c3))\<rparr>))) = Inr c4"
      "advance checks c4 = Inr c'"
    using assms unfolding pop_frame_def Let_def bindE_eq_Inr_iff by blast
  have 1: "same_but (act c + 1) c c1" "act c1 = act c"
    using c(1) by (auto simp: setup_regset_def act_slot_def split: if_splits)
  have 2: "same_but (act c + 1) c1 c2" "act c2 = act c1"
    using c(2) by (auto simp: setup_callee_saved_bits_def act_slot_def split: if_splits)
  note 3 = restore_callee_saved_same[OF c(3)] restore_callee_saved_act[OF c(3)]
  have 4: "same_but (act c + 1) c3 c4"
    using c(4) 1(2) 2(2) 3(2) by (auto split: if_splits dest: setup_frame_bounds_same)
  have 5: "same_but (act c + 1) c4 c'" using c(5) by (auto simp: advance_def Let_def res_simps same_but_def)
  show ?thesis using 1(1) 2(1) 3(1) 4 5 by (blast intro: same_but_trans)
qed

section \<open>Matching frames\<close>

text \<open>
  The invariant of the unwinding loop after \<open>n\<close> frames: both contexts are at frame \<open>n\<close>, every
  frame so far has a source record found by its return address and the destination record
  with the same ID, all but the last are not starting functions, and the size is the sum of
  the destination frame sizes.
\<close>

definition frames_size :: "'b rewrite_context \<Rightarrow> nat \<Rightarrow> u64" where
  "frames_size dest n = sum_list (map (\<lambda>i. ucast (cs_frame_size (act_site (acts dest i)))) [1..<n + 1])"

definition matched :: "'a rewrite_context \<Rightarrow> 'b rewrite_context \<Rightarrow> nat \<Rightarrow> bool" where
  "matched src dest n \<longleftrightarrow> (\<forall>i. 1 \<le> i \<longrightarrow> i \<le> n \<longrightarrow>
     act_site (acts src i) \<in> set (sites_addr (handle src)) \<and>
     act_site (acts dest i) \<in> set (sites_id (handle dest)) \<and>
     cs_id (act_site (acts dest i)) = cs_id (act_site (acts src i)) \<and>
     (i < n \<longrightarrow> \<not> first_frame (cs_id (act_site (acts src i)))))"

definition unwound :: "'a rewrite_context \<Rightarrow> 'b rewrite_context \<Rightarrow> 'a rewrite_context \<times> 'b rewrite_context \<times> u64 \<Rightarrow> bool" where
  "unwound src0 dest0 = (\<lambda>(src, dest, stack_size).
     handle src = handle src0 \<and> handle dest = handle dest0 \<and> stack_base dest = stack_base dest0 \<and>
     act dest = act src \<and> num_acts src = act src \<and> num_acts dest = act src \<and>
     stack_pointers dest = stack_pointers dest0 \<and> callee_saved_pool dest = callee_saved_pool dest0 \<and>
     acts dest 0 = acts dest0 0 \<and> out_regs dest = out_regs dest0 \<and>
     matched src dest (act src) \<and> stack_size = frames_size dest (act src))"

lemma frames_size_Suc:
  "frames_size dest (Suc n) = frames_size dest n + ucast (cs_frame_size (act_site (acts dest (Suc n))))"
  by (simp add: frames_size_def)

lemma frames_size_cong:
  "(\<And>i. i \<le> n \<Longrightarrow> act_site (acts d i) = act_site (acts d' i)) \<Longrightarrow> frames_size d n = frames_size d' n"
  unfolding frames_size_def by (intro arg_cong[of _ _ sum_list] map_cong) auto

lemma unwind_step_unwound:
  assumes wf: "sites_addr_wf (handle src0)" "sites_id_wf (handle dest0)"
    and inv: "unwound src0 dest0 (src, dest, n)"
    and cont: "0 < act src \<longrightarrow> \<not> first_frame (cs_id (act_site (ACT src)))"
    and run: "unwind_step checks m (src, dest, n) = Inr st"
  shows "unwound src0 dest0 st"
proof -
  obtain src1 site dsite cfa where r: "pop_frame checks m src False = Inr src1"
    "get_site_by_addr (handle src1) (pc (REGOPS src1) (act_regs (ACT src1))) = Inr (Some site)"
    "get_site_by_id (handle dest) (cs_id site) = Inr (Some dsite)"
    and st: "st = (upd_act (upd_act (src1\<lparr>num_acts := num_acts src1 + 1\<rparr>) (act src1) (\<lambda>a. a\<lparr>act_site := site\<rparr>))
        (act src1) (\<lambda>a. a\<lparr>act_cfa := cfa\<rparr>),
      upd_act (dest\<lparr>num_acts := num_acts dest + 1, act := act dest + 1\<rparr>) (act dest + 1) (\<lambda>a. a\<lparr>act_site := dsite\<rparr>),
      n + ucast (cs_frame_size dsite))"
    using run by (auto simp: unwind_step_def Let_def res_simps split: option.splits)
  have a: "act src1 = Suc (act src)" using pop_frame_act[OF r(1)] by simp
  have s: "same_but (Suc (act src)) src src1" using pop_frame_same[OF r(1)] by simp
  have i: "handle src = handle src0" "handle dest = handle dest0" "act dest = act src"
    "num_acts src = act src" "num_acts dest = act src" "matched src dest (act src)"
    "n = frames_size dest (act src)"
    using inv by (auto simp: unwound_def)
  have h: "handle src1 = handle src0" using s i(1) by (simp add: same_but_def)
  have site: "site \<in> set (sites_addr (handle src0))" using by_addr.found[OF wf(1)] r(2) h by auto
  have dsite: "dsite \<in> set (sites_id (handle dest0))" "cs_id dsite = cs_id site"
    using by_id.found[OF wf(2)] r(3) i(2) by auto
  have fs: "frames_size (upd_act (dest\<lparr>num_acts := k, act := l\<rparr>) (Suc (act src)) f) (act src) =
      frames_size dest (act src)" for k l f
    by (rule frames_size_cong) simp
  have "matched (fst st) (fst (snd st)) (Suc (act src))"
    unfolding matched_def
  proof (intro allI impI)
    fix j assume j: "1 \<le> j" "j \<le> Suc (act src)"
    show "act_site (acts (fst st) j) \<in> set (sites_addr (handle (fst st))) \<and>
      act_site (acts (fst (snd st)) j) \<in> set (sites_id (handle (fst (snd st)))) \<and>
      cs_id (act_site (acts (fst (snd st)) j)) = cs_id (act_site (acts (fst st) j)) \<and>
      (j < Suc (act src) \<longrightarrow> \<not> first_frame (cs_id (act_site (acts (fst st) j))))"
    proof (cases "j = Suc (act src)")
      case True
      with site dsite h i a show ?thesis by (simp add: st)
    next
      case False
      with j have j': "j \<le> act src" by simp
      have "acts src1 j = acts src j" using s False by (simp add: same_but_def)
      with j' False j i(1-3) a h i(6) cont show ?thesis
        by (cases "j = act src") (auto simp: st matched_def)
    qed
  qed
  with inv h a i s fs show ?thesis
    by (simp add: st unwound_def frames_size_Suc same_but_def)
qed

lemma unwind_loop_unwound:
  assumes "sites_addr_wf (handle src0)" and "sites_id_wf (handle dest0)" and "unwound src0 dest0 st"
    and "0 < act (fst st) \<longrightarrow> \<not> first_frame (cs_id (act_site (ACT (fst st))))"
    and "unwind_loop checks m st = Inr st'"
  shows "unwound src0 dest0 st' \<and> first_frame (cs_id (act_site (ACT (fst st')))) \<and> 0 < act (fst st')"
  using assms
proof (induction checks m st rule: unwind_loop.induct)
  case (1 checks m st)
  obtain src dest n where st: "st = (src, dest, n)" by (cases st)
  obtain st1 where s1: "unwind_step checks m st = Inr st1"
    using 1(6) by (subst (asm) unwind_loop.simps) (auto simp: res_simps)
  have inv: "unwound src0 dest0 st1"
    using unwind_step_unwound[OF 1(2,3), of src dest n checks m st1] 1(4,5) s1 st by simp
  have act: "0 < act (fst st1)"
    using unwind_step_act[of checks m src dest n "fst st1" "fst (snd st1)" "snd (snd st1)"] s1 st by simp
  show ?case
  proof (cases "first_frame (cs_id (act_site (ACT (fst st1))))")
    case True
    with s1 1(6) have "st' = st1" by (subst (asm) unwind_loop.simps) simp
    with True inv act show ?thesis by simp
  next
    case False
    with s1 1(6) have "unwind_loop checks m st1 = Inr st'" by (subst (asm) unwind_loop.simps) simp
    with 1(1)[OF s1 False 1(2,3) inv] False show ?thesis by simp
  qed
qed

lemma unwind_and_size_law:
  assumes wf: "sites_addr_wf (handle src)" "sites_id_wf (handle dest)"
    and start: "act src = 0" "num_acts src = 0" "act dest = 0" "num_acts dest = 0"
    and run: "unwind_and_size checks m src dest = Inr (src', dest')"
  shows "\<exists>n>0. n + 1 < MAX_FRAMES \<and> num_acts src' = n + 1 \<and> num_acts dest' = n + 1 \<and> act src' = 0 \<and> act dest' = 0 \<and>
    matched src' dest' n \<and> first_frame (cs_id (act_site (acts src' n))) \<and>
    handle src' = handle src \<and> handle dest' = handle dest \<and>
    act_site (acts dest' 0) = act_site (acts dest 0) \<and> stack_pointers dest' = stack_pointers dest \<and>
    act_regs (acts dest' 0) = set_sp (REGOPS dest) (act_regs (acts dest 0)) (stack dest') \<and>
    act_cfa (acts dest' 0) = ptr_add (sp (REGOPS dest) (act_regs (acts dest' 0))) (cfa_offset_funcentry (PROPS dest)) \<and>
    out_regs dest' = out_regs dest \<and>
    (let top = stack_base dest - frames_size dest' n in
     if sp_needs_align (PROPS dest) then align_sp (PROPS dest) top = Inr (stack dest')
     else stack dest' = top)"
proof -
  obtain src1 dest1 sz src2 top pool where r: "unwind_loop checks m (src, dest, 0) = Inr (src1, dest1, sz)"
    "pop_frame checks m src1 False = Inr src2"
    "(if sp_needs_align (PROPS dest1) then align_sp (PROPS dest1) (stack_base dest1 - sz)
      else Inr (stack_base dest1 - sz)) = Inr top"
    "bootstrap_first_frame_funcentry checks ((upd_act (dest1\<lparr>num_acts := Suc (num_acts dest1), act := 0,
        stack := top\<rparr>) 0 (\<lambda>a. a\<lparr>act_regs := set_sp (REGOPS dest1) (act_regs a) top\<rparr>))\<lparr>callee_saved_pool := pool\<rparr>) =
      Inr dest'"
    "src' = src2\<lparr>num_acts := Suc (num_acts src2), act := 0\<rparr>"
    using run
    by (clarsimp simp: unwind_and_size_def Let_def bindE_eq_Inr_iff split del: if_split cong: if_cong)
  have inv0: "unwound src dest (src, dest, 0)"
    using start by (simp add: unwound_def matched_def frames_size_def)
  have u: "unwound src dest (src1, dest1, sz)" "first_frame (cs_id (act_site (ACT src1)))" "0 < act src1"
    using unwind_loop_unwound[OF wf inv0 _ r(1)] start by auto
  let ?n = "act src1"
  have s: "same_but (Suc ?n) src1 src2" using pop_frame_same[OF r(2)] by simp
  have d: "act_site (acts dest' i) = act_site (acts dest1 i)" "num_acts dest' = num_acts dest1 + 1"
    "handle dest' = handle dest1" "stack dest' = top" "act dest' = 0" "stack_pointers dest' = stack_pointers dest1"
    "act_regs (acts dest' 0) = set_sp (REGOPS dest1) (act_regs (acts dest1 0)) top" "out_regs dest' = out_regs dest1"
    "act_cfa (acts dest' 0) = ptr_add (sp (REGOPS dest1) (act_regs (acts dest' 0))) (cfa_offset_funcentry (PROPS dest1))" for i
    using r(4) by (auto simp: bootstrap_first_frame_funcentry_def setup_callee_saved_bits_def
        act_slot_def res_simps split: if_splits)
  have fs: "frames_size dest' ?n = frames_size dest1 ?n" by (rule frames_size_cong) (simp add: d)
  have same: "i \<le> ?n \<Longrightarrow> acts src' i = acts src1 i" "handle src' = handle src1" "num_acts src' = num_acts src1 + 1" for i
    using s r(5) by (auto simp: same_but_def)
  have m: "matched src' dest' ?n"
    using u(1) same d by (auto simp: unwound_def matched_def)
  show ?thesis
    by (intro exI[of _ ?n] conjI)
       (use u same m d r(3,5) fs pop_frame_act[OF r(2)] in \<open>auto simp: unwound_def Let_def split: if_splits\<close>)
qed

section \<open>Local fixups: termination\<close>

text \<open>
  The loop returns when every pending fixup lies in the frame: each step then passes over or
  removes a node. One that lies outside is passed over only when the last search failed.
\<close>

lemma fixup_loop_returns:
  fixes src :: "'a rewrite_context" and dest :: "'b rewrite_context"
  assumes "\<forall>fx\<in>set todo. fx_src_addr fx \<le> act_cfa (ACT src)"
  shows "\<exists>r. fixup_loop checks src m dest found kept todo = Some r"
  using assms
proof (induction todo arbitrary: m dest found kept)
  case Nil
  show ?case by (subst fixup_loop.simps) simp
next
  case (Cons fx rest)
  have rec: "\<exists>r. fixup_loop checks src m' dest' found' kept' rest = Some r"
    for m' found' kept' and dest' :: "'b rewrite_context"
    using Cons by simp
  show ?case
  proof (cases "fx_act fx = act src")
    case False
    then show ?thesis using Cons.prems rec by (subst fixup_loop.simps) simp
  next
    case True
    then show ?thesis
      using Cons.prems rec
      by (subst fixup_loop.simps) (auto split: sum.splits option.splits)
  qed
qed

text \<open>
  After a removal the variable \<open>found_fixup\<close> stays true, and a following fixup that lies in
  another frame is tested for ever.
\<close>

lemma fixup_loop_stuck:
  fixes src :: "'a rewrite_context" and dest :: "'b rewrite_context"
  assumes "act_cfa (ACT src) < fx_src_addr fx"
  shows "fixup_loop checks src m dest (Some True) kept (fx # rest) = None"
proof (rule ccontr)
  assume "fixup_loop checks src m dest (Some True) kept (fx # rest) \<noteq> None"
  then obtain y where y: "fixup_loop checks src m dest (Some True) kept (fx # rest) = Some y" by blast
  have "\<not> (Some True = Some True \<and> (\<exists>fx' rest'. fx # rest = fx' # rest' \<and> act_cfa (ACT src) < fx_src_addr fx'))"
    by (rule fixup_loop.raw_induct[where P = "\<lambda>checks src m dest found kept todo y.
          \<not> (found = Some True \<and> (\<exists>fx rest. todo = fx # rest \<and> act_cfa (ACT src) < fx_src_addr fx))", OF _ y])
       (force split: list.splits if_splits)
  with assms show False by blast
qed

text \<open>
  The same through the entry point: once a fixup of this frame is resolved, a following one
  that points above the frame is tested for ever, and without a resolved one the variable has
  no value.
\<close>

lemma fixup_local_pointers_stuck:
  fixes src :: "'a rewrite_context" and dest dest' :: "'b rewrite_context"
  assumes "stack_pointers dest = fx # fx' # rest"
    and "fx_src_addr fx \<le> act_cfa (ACT src)" and "fx_act fx = act src"
    and "local_search checks m src dest fx 0 0 = Inr (Some (m', dest'))"
    and "act_cfa (ACT src) < fx_src_addr fx'"
  shows "fixup_local_pointers checks m src dest = None"
proof -
  have "fixup_local_pointers checks m src dest = fixup_loop checks src m' dest' (Some True) [] (fx' # rest)"
    unfolding fixup_local_pointers_def assms(1) using assms(2-4) by (subst fixup_loop.simps) simp
  with fixup_loop_stuck[OF assms(5)] show ?thesis by metis
qed

lemma fixup_local_pointers_uninitialised:
  assumes "stack_pointers dest = fx # rest" and "act_cfa (ACT src) < fx_src_addr fx"
  shows "fixup_local_pointers checks m src dest = Some (Inl (UB Uninitialised))"
  unfolding fixup_local_pointers_def assms(1) using assms(2) by (subst fixup_loop.simps) auto

section \<open>What rewriting a frame leaves alone\<close>

text \<open>
  Rewriting a frame changes memory, the registers of activations and the pending fixups of the
  destination; its frames stay where they are.
\<close>

definition keeps :: "'b rewrite_context \<Rightarrow> 'b rewrite_context \<Rightarrow> bool" where
  "keeps d d' \<longleftrightarrow> handle d' = handle d \<and> act d' = act d \<and> num_acts d' = num_acts d \<and>
     stack d' = stack d \<and> stack_base d' = stack_base d \<and> out_regs d' = out_regs d \<and>
     callee_saved_pool d' = callee_saved_pool d \<and>
     (\<forall>i. act_site (acts d' i) = act_site (acts d i) \<and> act_cfa (acts d' i) = act_cfa (acts d i) \<and>
       act_callee_saved (acts d' i) = act_callee_saved (acts d i))"

lemma keeps_refl [simp, intro]: "keeps d d"
  by (simp add: keeps_def)

lemma keeps_trans: "keeps a b \<Longrightarrow> keeps b c \<Longrightarrow> keeps a c"
  by (simp add: keeps_def)

lemma keeps_pointers [simp]: "keeps d (d'\<lparr>stack_pointers := xs\<rparr>) = keeps d d'" "keeps (d\<lparr>stack_pointers := xs\<rparr>) d' = keeps d d'"
  by (simp_all add: keeps_def)

lemma write_loc_keeps: "write_loc d m l bs = Inr (m', d') \<Longrightarrow> keeps d d'"
  using write_loc_handle[of d m l bs m' d'] by (simp add: keeps_def)

lemma write_opt_keeps: "write_opt d m l bs = Inr (m', d') \<Longrightarrow> keeps d d'"
  by (cases l) (auto simp: write_opt_def dest: write_loc_keeps)

lemma put_val_keeps: "put_val checks m src sv d dv = Inr (m', d') \<Longrightarrow> keeps d d'"
  by (auto simp: put_val_def res_simps split: if_splits option.splits
      dest!: write_loc_keeps intro: keeps_trans)

lemma put_val_data_keeps: "put_val_data checks m d v i a = Inr (m', d') \<Longrightarrow> keeps d d'"
  by (auto simp: put_val_data_def res_simps split: if_splits
      dest!: write_loc_keeps write_opt_keeps intro: keeps_trans)

lemma put_val_arch_keeps: "put_val_arch checks m d v = Inr (m', d') \<Longrightarrow> keeps d d'"
  by (auto simp: put_val_arch_def apply_arch_operation_def res_simps split: if_splits option.splits
      dest!: write_loc_keeps intro: keeps_trans)

lemma write_loc_pointers: "write_loc d m l bs = Inr (m', d') \<Longrightarrow> stack_pointers d' = stack_pointers d"
  using write_loc_handle[of d m l bs m' d'] by simp

lemma put_val_pointers: "put_val checks m src sv d dv = Inr (m', d') \<Longrightarrow> stack_pointers d' = stack_pointers d"
  by (auto simp: put_val_def res_simps split: if_splits option.splits dest!: write_loc_pointers)

lemma put_val_arch_pointers: "put_val_arch checks m d v = Inr (m', d') \<Longrightarrow> stack_pointers d' = stack_pointers d"
  by (auto simp: put_val_arch_def apply_arch_operation_def res_simps split: if_splits option.splits
      dest!: write_loc_pointers)

text \<open>
  The records a frame with \<open>n\<close> live values touches: its own, and the duplicates that follow them.
\<close>

definition touched :: "live_value list \<Rightarrow> nat \<Rightarrow> nat \<Rightarrow> nat \<Rightarrow> bool" where
  "touched vals off n k \<longleftrightarrow> k < n \<or> (\<forall>i. n \<le> i \<longrightarrow> i \<le> k \<longrightarrow> is_duplicate (vals ! (off + i)))"

lemma touched_Suc: "touched vals off n k \<Longrightarrow> is_duplicate (vals ! (off + Suc k)) \<Longrightarrow> touched vals off n (Suc k)"
  by (auto simp: touched_def le_Suc_eq)

lemma local_search_run:
  assumes "local_search checks m src d fx i j = Inr (Some (m', d'))" and lt: "j < unat (cs_num_live (act_site (ACT d)))"
  shows "\<exists>i1 j1. j \<le> j1 \<and> (local_search checks m src d fx (i1 + 1) (j1 + 1) = Inr (Some (m', d')) \<or>
     (\<exists>a. put_val_data checks m d (fx_dest_loc fx) (fx_act fx) a = Inr (m', d')))"
proof -
  let ?sv = "live_vals (handle src)" and ?so = "unat (cs_live_offset (act_site (ACT src)))"
  let ?dv = "live_vals (handle d)" and ?do = "unat (cs_live_offset (act_site (ACT d)))"
  obtain sv dv i1 j1 where r: "skip_duplicates ?sv ?so i = Inr i1" "skip_duplicates ?dv ?do j = Inr j1"
    "(if \<not> is_alloca sv \<or> \<not> is_alloca dv then local_search checks m src d fx (i1 + 1) (j1 + 1)
      else bindE (points_to_data checks src sv d dv (fx_src_addr fx)) (\<lambda>stack_addr.
        if stack_addr \<noteq> 0 then
          bindE (put_val_data checks m d (fx_dest_loc fx) (fx_act fx) stack_addr) (\<lambda>md. Inr (Some md))
        else local_search checks m src d fx (i1 + 1) (j1 + 1))) = Inr (Some (m', d'))"
    using assms by (subst (asm) local_search.simps) (auto simp: Let_def bindE_eq_Inr_iff simp del: if_split_asm)
  then show ?thesis
    using skip_duplicates_ge[OF r(2)] by (intro exI[of _ i1] exI[of _ j1]) (auto simp: bindE_eq_Inr_iff split: if_splits)
qed

text \<open>
  What every write of \<open>rewrite_frame\<close> keeps, the whole frame keeps. \<open>okv\<close>, \<open>oka\<close> and \<open>okf\<close> say which
  values, architecture-specific values and fixups may be written.
\<close>

locale frame_invariant =
  fixes checks :: bool
    and src :: "'a rewrite_context"
    and I :: "mem \<Rightarrow> 'b rewrite_context \<Rightarrow> bool"
    and okv :: "live_value \<Rightarrow> bool"
    and okf :: "fixup \<Rightarrow> bool"
    and oka :: "arch_live_value \<Rightarrow> bool"
  assumes put_val_inv: "I m d \<Longrightarrow> okv dv \<Longrightarrow> put_val checks m src sv d dv = Inr (m', d') \<Longrightarrow> I m' d'"
    and put_val_data_inv: "I m d \<Longrightarrow> okf fx \<Longrightarrow>
      put_val_data checks m d (fx_dest_loc fx) (fx_act fx) a = Inr (m', d') \<Longrightarrow> I m' d'"
    and put_val_arch_inv: "I m d \<Longrightarrow> oka av \<Longrightarrow> put_val_arch checks m d av = Inr (m', d') \<Longrightarrow> I m' d'"
    and fixup_ok: "I m d \<Longrightarrow> okv dv \<Longrightarrow> is_ptr sv \<Longrightarrow> checks \<longrightarrow> is_ptr dv \<Longrightarrow> fx_act fx = act d \<Longrightarrow>
      fx_dest_loc fx = dv \<Longrightarrow> okf fx"
    and pointers_inv [simp]: "I m (d\<lparr>stack_pointers := ps\<rparr>) \<longleftrightarrow> I m d"
begin

lemma resolve_fixup_inv:
  "I m d \<Longrightarrow> okf fx \<Longrightarrow> resolve_fixup checks src sv dv (m, d) fx = Inr ((m', d'), b) \<Longrightarrow> I m' d'"
  by (auto simp: resolve_fixup_def res_simps split: if_splits dest: put_val_data_inv)

lemma scan_inv:
  "I m d \<Longrightarrow> \<forall>fx\<in>set fs. okf fx \<Longrightarrow> scan (resolve_fixup checks src sv dv) (m, d) fs = Inr ((m', d'), rest) \<Longrightarrow>
    I m' d' \<and> set rest \<subseteq> set fs"
proof (induction fs arbitrary: m d rest)
  case (Cons f fs)
  obtain m1 d1 gone ys where r: "resolve_fixup checks src sv dv (m, d) f = Inr ((m1, d1), gone)"
    "scan (resolve_fixup checks src sv dv) (m1, d1) fs = Inr ((m', d'), ys)" "set rest \<subseteq> insert f (set ys)"
    using Cons.prems(3) by (force simp: res_simps split: if_splits)
  have "I m1 d1" using resolve_fixup_inv[OF Cons.prems(1) _ r(1)] Cons.prems(2) by simp
  with Cons.IH[OF this _ r(2)] Cons.prems(2) r(3) show ?case by auto
qed simp

lemma copy_or_fixup_inv:
  assumes "I m d" and "okv dv" and "\<forall>fx\<in>set (stack_pointers d). okf fx" and "checks \<longrightarrow> is_ptr sv = is_ptr dv"
    and "copy_or_fixup checks m src sv d dv = Inr (m', d', b)"
  shows "I m' d' \<and> (\<forall>fx\<in>set (stack_pointers d'). okf fx)"
proof -
  obtain a where a: "points_to_stack checks m src sv = Inr a"
    using assms(5) by (auto simp: copy_or_fixup_def res_simps)
  show ?thesis
  proof (cases "a = 0")
    case True
    then obtain e where "put_val checks m src sv d dv = Inr (m', d')"
      using assms(5) a by (auto simp: copy_or_fixup_def res_simps)
    with put_val_inv[OF assms(1,2) this] assms(3) put_val_pointers[OF this] show ?thesis by simp
  next
    case False
    then have "is_ptr sv" using a by (auto simp: points_to_stack_def split: if_splits)
    then show ?thesis
      using assms a False fixup_ok[OF assms(1,2)] by (auto simp: copy_or_fixup_def res_simps split: if_splits)
  qed
qed

lemma rewrite_val_inv:
  assumes "I m d" and "okv dv" and "\<forall>fx\<in>set (stack_pointers d). okf fx"
    and "rewrite_val checks m src sv d dv = Inr (m', d', b)"
  shows "I m' d' \<and> (\<forall>fx\<in>set (stack_pointers d'). okf fx)"
proof (cases "va_list_pair sv dv")
  case True
  then show ?thesis using assms by (simp add: rewrite_val_def)
next
  case False
  then obtain m1 d1 n1 where c: "copy_or_fixup checks m src sv d dv = Inr (m1, d1, n1)" "checks \<longrightarrow> is_ptr sv = is_ptr dv"
    "m' = m1 \<and> d' = d1 \<or> (\<exists>d2 ps. scan (resolve_fixup checks src sv dv) (m1, d1) (stack_pointers d1) = Inr ((m', d2), ps)
      \<and> d' = d2\<lparr>stack_pointers := ps\<rparr>)"
    using assms(4) by (auto simp: rewrite_val_def res_simps split: if_splits)
  have 1: "I m1 d1" "\<forall>fx\<in>set (stack_pointers d1). okf fx"
    using copy_or_fixup_inv[OF assms(1-3) c(2,1)] by auto
  show ?thesis using c(3) 1 scan_inv[OF 1, of sv dv] by fastforce
qed

lemma dup_loop_inv:
  assumes "I m d" and "\<forall>fx\<in>set (stack_pointers d). okf fx"
    and "\<And>k. touched dvals doff n k \<Longrightarrow> doff + k < length dvals \<Longrightarrow> okv (dvals ! (doff + k))"
    and "touched dvals doff n j" and "dup_loop checks src v dvals doff j (m, d, b) = Inr (k, m', d', b')"
  shows "I m' d' \<and> (\<forall>fx\<in>set (stack_pointers d'). okf fx)"
  using assms
proof (induction "length dvals - (doff + j)" arbitrary: m d b j rule: less_induct)
  case less
  obtain dv where dv: "doff + (j + 1) < length dvals" "dv = dvals ! (doff + (j + 1))"
    "live_at dvals doff (j + 1) = Inr dv"
    using less(6) by (subst (asm) dup_loop.simps) (auto simp: bindE_eq_Inr_iff live_at_def array_get_eq_Inr_iff)
  show ?case
  proof (cases "is_duplicate dv")
    case True
    obtain m1 d1 n1 where r: "rewrite_val checks m src v d dv = Inr (m1, d1, n1)"
        "dup_loop checks src v dvals doff (j + 1) (m1, d1, b \<or> n1) = Inr (k, m', d', b')"
      using less(6) dv(3) True by (subst (asm) dup_loop.simps) (auto simp: bindE_eq_Inr_iff)
    have t: "touched dvals doff n (j + 1)" using touched_Suc[OF less(5)] True dv(2) by simp
    have "okv dv" using less(4)[OF t] dv by simp
    then have 1: "I m1 d1" "\<forall>fx\<in>set (stack_pointers d1). okf fx"
      using rewrite_val_inv[OF less(2) _ less(3) r(1)] by auto
    show ?thesis using less(1)[OF _ 1 less(4) t r(2)] dv(1) by simp
  next
    case False
    then show ?thesis using less(2,3,6) dv(3) by (subst (asm) dup_loop.simps) simp
  qed
qed

lemma live_loop_inv:
  assumes "I m d" and "\<forall>fx\<in>set (stack_pointers d). okf fx"
    and "\<And>k. touched (live_vals dh) (unat (cs_live_offset dsite)) (unat (cs_num_live dsite)) k \<Longrightarrow>
      unat (cs_live_offset dsite) + k < length (live_vals dh) \<Longrightarrow> okv (live_vals dh ! (unat (cs_live_offset dsite) + k))"
    and "live_loop checks src dh dsite i j (m, d, b) = Inr (i', j', m', d', b')"
  shows "I m' d' \<and> (\<forall>fx\<in>set (stack_pointers d'). okf fx)"
  using assms
proof (induction "unat (cs_num_live dsite) - j" arbitrary: m d b i j rule: less_induct)
  case less
  show ?case
  proof (cases "j < unat (cs_num_live dsite)")
    case True
    let ?off = "unat (cs_live_offset dsite)"
    obtain sv dv m1 d1 n j1 m2 d2 b2 i1 where r:
      "?off + j < length (live_vals dh)" "dv = live_vals dh ! (?off + j)"
      "rewrite_val checks m src sv d dv = Inr (m1, d1, n)"
      "dup_loop checks src sv (live_vals dh) ?off j (m1, d1, b \<or> n) = Inr (j1, m2, d2, b2)"
      "live_loop checks src dh dsite (i1 + 1) (j1 + 1) (m2, d2, b2) = Inr (i', j', m', d', b')"
      using less(5) True
      by (subst (asm) live_loop.simps) (fastforce simp: Let_def bindE_eq_Inr_iff live_at_def array_get_eq_Inr_iff)
    have t: "touched (live_vals dh) ?off (unat (cs_num_live dsite)) j" using True by (simp add: touched_def)
    have 1: "I m1 d1" "\<forall>fx\<in>set (stack_pointers d1). okf fx"
      using rewrite_val_inv[OF less(2) _ less(3) r(3)] less(4)[OF t r(1)] r(2) by auto
    have 2: "I m2 d2" "\<forall>fx\<in>set (stack_pointers d2). okf fx"
      using dup_loop_inv[OF 1 less(4) t r(4)] by auto
    have "j \<le> j1" by (rule dup_loop_ge[OF r(4)])
    then show ?thesis using less(1)[OF _ 2 less(4) r(5)] True by simp
  next
    case False
    then show ?thesis using less(2,3,5) by (subst (asm) live_loop.simps) simp
  qed
qed

lemma arch_loop_inv:
  "I m d \<Longrightarrow> \<forall>k\<in>set ks. k < length vals \<longrightarrow> oka (vals ! k) \<Longrightarrow>
    arch_loop checks vals ks (m, d) = Inr (m', d') \<Longrightarrow> I m' d' \<and> stack_pointers d' = stack_pointers d"
proof (induction ks arbitrary: m d)
  case (Cons k ks)
  obtain m1 d1 where r: "k < length vals" "put_val_arch checks m d (vals ! k) = Inr (m1, d1)"
    "arch_loop checks vals ks (m1, d1) = Inr (m', d')"
    using Cons.prems(3) by (auto simp: res_simps)
  have "I m1 d1" using put_val_arch_inv[OF Cons.prems(1) _ r(2)] Cons.prems(2) r(1) by simp
  with Cons.IH[OF this _ r(3)] Cons.prems(2) put_val_arch_pointers[OF r(2)] show ?case by simp
qed simp

lemma local_search_inv:
  "I m d \<Longrightarrow> okf fx \<Longrightarrow> local_search checks m src d fx i j = Inr (Some (m', d')) \<Longrightarrow> I m' d'"
proof (induction "unat (cs_num_live (act_site (ACT d))) - j" arbitrary: i j rule: less_induct)
  case less
  have lt: "j < unat (cs_num_live (act_site (ACT d)))"
    using less(4) by (subst (asm) local_search.simps) (auto split: if_splits)
  obtain i1 j1 where r: "j \<le> j1" "local_search checks m src d fx (i1 + 1) (j1 + 1) = Inr (Some (m', d')) \<or>
     (\<exists>a. put_val_data checks m d (fx_dest_loc fx) (fx_act fx) a = Inr (m', d'))"
    using local_search_run[OF less(4) lt] by blast
  show ?case
    using r(2) less(1)[OF _ less(2,3), of "j1 + 1" "i1 + 1"] r(1) lt put_val_data_inv[OF less(2,3)] by auto
qed

lemma fixup_loop_inv:
  assumes "fixup_loop checks src m d found kept todo = Some (Inr (m', d'))"
    and "I m d" and "\<forall>fx\<in>set kept \<union> set todo. okf fx"
  shows "I m' d' \<and> (\<forall>fx\<in>set (stack_pointers d'). okf fx)"
proof -
  define P where "P = (\<lambda>c s m d kept todo (y :: (mem \<times> 'b rewrite_context) res). c = checks \<longrightarrow> s = src \<longrightarrow> I m d \<longrightarrow> (\<forall>fx\<in>set kept \<union> set todo. okf fx) \<longrightarrow>
    (\<forall>m' d'. y = Inr (m', d') \<longrightarrow> I m' d' \<and> (\<forall>fx\<in>set (stack_pointers d'). okf fx)))"
  have search: "P c s m d kept (fx # rest) y"
    if "local_search c m s d fx i j = Inr (Some md)" "P c s (fst md) (snd md) kept rest y" for c s m d fx i j md kept rest y
    unfolding P_def
  proof (intro impI)
    assume a: "c = checks" "s = src" "I m d" "\<forall>fx\<in>set kept \<union> set (fx # rest). okf fx"
    have "okf fx" using a(4) by simp
    then have "I (fst md) (snd md)"
      using that(1) a(1,2) by (intro local_search_inv[OF a(3), of fx i j]) simp_all
    then show "\<forall>m' d'. y = Inr (m', d') \<longrightarrow> I m' d' \<and> (\<forall>fx\<in>set (stack_pointers d'). okf fx)"
      using that(2) a unfolding P_def by auto
  qed
  have pass: "P c s m d (kept @ [fx]) rest y \<Longrightarrow> P c s m d kept (fx # rest) y" for c s m d kept fx rest y
  proof -
    have "set (kept @ [fx]) \<union> set rest = set kept \<union> set (fx # rest)" by auto
    then show "P c s m d (kept @ [fx]) rest y \<Longrightarrow> P c s m d kept (fx # rest) y" unfolding P_def by metis
  qed
  have err: "Inl e = y \<Longrightarrow> P c s m d kept todo y" for c s m d kept todo e y by (auto simp: P_def)
  have "P c s m d kept todo y" if "fixup_loop c s m d found kept todo = Some y" for c s y
  proof (rule fixup_loop.raw_induct[where P = "\<lambda>c s m d found kept todo y. P c s m d kept todo y", OF _ that], goal_cases)
    case (1 f c s m d found kept todo y)
    show ?case
    proof (cases todo)
      case Nil
      then show ?thesis using 1(2) by (auto simp: P_def)
    next
      case (Cons fx rest)
      then show ?thesis
        using 1(1)[of c s m d] 1(1)[of c s] 1(2) pass search
        by (simp split: if_splits sum.splits option.splits) (blast intro: err)+
    qed
  qed
  with assms show ?thesis by (auto simp: P_def)
qed

lemma rewrite_frame_inv:
  assumes "I m d" and "\<forall>fx\<in>set (stack_pointers d). okf fx"
    and "site = act_site (ACT d)"
    and "\<And>k. touched (live_vals (handle d)) (unat (cs_live_offset site)) (unat (cs_num_live site)) k \<Longrightarrow>
      unat (cs_live_offset site) + k < length (live_vals (handle d)) \<Longrightarrow>
      okv (live_vals (handle d) ! (unat (cs_live_offset site) + k))"
    and "\<And>k. k < unat (cs_num_arch_live site) \<Longrightarrow> unat (cs_arch_live_offset site) + k < length (arch_live_vals (handle d)) \<Longrightarrow>
      oka (arch_live_vals (handle d) ! (unat (cs_arch_live_offset site) + k))"
    and "rewrite_frame checks m src d = Some (Inr (m', d'))"
  shows "I m' d' \<and> (\<forall>fx\<in>set (stack_pointers d'). okf fx)"
proof -
  let ?off = "unat (cs_arch_live_offset site)"
  obtain i j m1 d1 b1 m2 d2 where r:
    "live_loop checks src (handle d) site 0 0 (m, d, False) = Inr (i, j, m1, d1, b1)"
    "arch_loop checks (arch_live_vals (handle d)) [?off..<?off + unat (cs_num_arch_live site)] (m1, d1) = Inr (m2, d2)"
    "m' = m2 \<and> d' = d2 \<or> fixup_local_pointers checks m2 src d2 = Some (Inr (m', d'))"
    using assms(6) unfolding assms(3)
    by (auto simp: rewrite_frame_def Let_def bindE_eq_Inr_iff split: sum.splits prod.splits if_splits)
  have 1: "I m1 d1" "\<forall>fx\<in>set (stack_pointers d1). okf fx"
    using live_loop_inv[OF assms(1,2,4) r(1)] by auto
  have a: "\<forall>k\<in>set [?off..<?off + unat (cs_num_arch_live site)]. k < length (arch_live_vals (handle d)) \<longrightarrow>
      oka (arch_live_vals (handle d) ! k)"
  proof (intro ballI impI)
    fix k assume "k \<in> set [?off..<?off + unat (cs_num_arch_live site)]" "k < length (arch_live_vals (handle d))"
    then show "oka (arch_live_vals (handle d) ! k)" using assms(5)[of "k - ?off"] by auto
  qed
  have 2: "I m2 d2" "\<forall>fx\<in>set (stack_pointers d2). okf fx" using arch_loop_inv[OF 1(1) a r(2)] 1(2) by auto
  from r(3) show ?thesis
    using 2 by (auto simp: fixup_local_pointers_def dest!: fixup_loop_inv)
qed

end

interpretation kp: frame_invariant checks src "\<lambda>_. keeps d0" "\<lambda>_. True" "\<lambda>_. True" "\<lambda>_. True" for checks src d0
  by unfold_locales (auto intro: keeps_trans dest: put_val_keeps put_val_data_keeps put_val_arch_keeps)

lemma rewrite_frame_keeps: "rewrite_frame checks m src d = Some (Inr (m', d')) \<Longrightarrow> keeps d d'"
  using kp.rewrite_frame_inv[OF keeps_refl _ refl, of d] by auto

section \<open>Linking frames\<close>

text \<open>
  A step of the driver stores the caller's frame pointer in the slot below the return address
  of the frame it leaves, and moves to the caller's frame.
\<close>

lemma bindN_Some_Inr: "bindN r f = Some (Inr y) \<longleftrightarrow> (\<exists>x. r = Some (Inr x) \<and> f x = Some (Inr y))"
  by (auto simp: bindN_def split: option.splits sum.splits)

lemma frame_step_run:
  assumes "frame_step checks src m d = Some (Inr (m', d'))"
  obtains m1 d1 where "keeps d d1" and "pop_frame checks m1 d1 True = Inr d'"
    and "m' = store64 m1 (get_savedfbp_loc d) (fbp (REGOPS d') (act_regs (ACT d')))"
proof -
  obtain m0 m1 d1 where r: "set_return_address checks m d (cs_addr (act_site (NEXT_ACT d))) = Inr m0"
    "rewrite_frame checks m0 src d = Some (Inr (m1, d1))" "pop_frame checks m1 d1 True = Inr d'"
    "m' = store64 m1 (get_savedfbp_loc d1) (fbp (REGOPS d') (act_regs (ACT d')))"
    using assms by (auto simp: frame_step_def Let_def bindN_Some_Inr)
  have k: "keeps d d1" by (rule rewrite_frame_keeps[OF r(2)])
  then have "get_savedfbp_loc d1 = get_savedfbp_loc d" by (simp add: keeps_def get_savedfbp_loc_def)
  with that[OF k r(3)] r(4) show thesis by simp
qed

context stack_properties
begin

lemma frame_step_links:
  assumes ops: "REGOPS d = ops" "PROPS d = props"
    and uw: "unwindable props (num_regs ops) d (ACT d)"
    and run: "frame_step checks src m d = Some (Inr (m', d'))"
    and cfa: "cfa = act_cfa (ACT d) + ucast (cs_frame_size (act_site (NEXT_ACT d)))"
    and nz: "act_cfa (ACT d) \<noteq> 0" "cs_addr (act_site (NEXT_ACT d)) \<noteq> 0" "cfa \<noteq> 0" "cfa \<noteq> 16"
  shows "act d' = act d + 1 \<and> act_cfa (ACT d') = cfa \<and> act_site (ACT d') = act_site (NEXT_ACT d) \<and>
    sp ops (act_regs (ACT d')) = act_cfa (ACT d) \<and> fbp ops (act_regs (ACT d')) = cfa - 16 \<and>
    load64 m' (act_cfa (ACT d) - 16) = cfa - 16"
proof (rule frame_step_run[OF run])
  fix m1 d1 assume k: "keeps d d1" and pop: "pop_frame checks m1 d1 True = Inr d'"
    and m': "m' = store64 m1 (get_savedfbp_loc d) (fbp (REGOPS d') (act_regs (ACT d')))"
  have e: "handle d1 = handle d" "act d1 = act d" "callee_saved_pool d1 = callee_saved_pool d"
    "\<And>i. act_site (acts d1 i) = act_site (acts d i)" "\<And>i. act_cfa (acts d1 i) = act_cfa (acts d i)"
    "\<And>i. act_callee_saved (acts d1 i) = act_callee_saved (acts d i)"
    using k by (simp_all add: keeps_def)
  have uw1: "unwindable props (num_regs ops) d1 (ACT d1)" using uw by (simp add: unwindable_def e)
  have room: "act d1 + 1 < MAX_FRAMES" using pop_frame_act[OF pop] by simp
  obtain rs d2 where p: "pop_frame checks m1 d1 True = Inr d2" "act d2 = act d1 + 1"
    "caller_regs ops spr rar m1 d1 (ACT d1) rs" "act_cfa (ACT d2) = cfa"
    "act_regs (ACT d2) = set_fbp ops rs (cfa - 16)" "act_site (ACT d2) = act_site (NEXT_ACT d1)" "handle d2 = handle d1"
    using pop_frame_bounds_law[of d1 cfa checks m1, OF _ _ uw1 room] ops nz cfa e by auto
  have "d2 = d'" using p(1) pop by simp
  moreover have "sp ops rs = act_cfa (ACT d1)" using p(3) by (simp add: caller_regs_def)
  moreover have "get_savedfbp_loc d = act_cfa (ACT d) - 16"
    using ops savedfbp_law by (simp add: get_savedfbp_loc_def ptr_add_def)
  ultimately show ?thesis
    using p ops m' e by (simp add: special_simps mem_simps)
qed

end

text \<open>A missing argument makes the entry point return 1 with nothing changed.\<close>

lemma st_rewrite_stack_rejects_null:
  assumes "hs = None \<or> rs = None \<or> sp_src = 0 \<or> h_dest = None \<or> rd = None \<or> sp_dest = 0"
  shows "st_rewrite_stack checks alloc_src alloc_dest m hs rs sp_src h_dest rd sp_dest = Some (Inr (m, rd, 1))"
  using assms by (auto simp: st_rewrite_stack_def split: option.splits)

end
