(* ===== verification/Layout.thy ===== *)
theory Layout
  imports Definitions
begin

text \<open>
  The packed, little-endian layout of the metadata structures of \<open>call_site.h\<close> and of the stack map
  records of \<open>tool/stack_metadata/include/stackmap.h\<close>. The tool writes arrays of these structures
  into ELF sections and the runtime casts the section data back, so reading is the inverse of
  writing: \<open>dec_table\<close> of \<open>enc_table\<close> is the identity for every structure. The pad bits of a bit
  field are written as zero and ignored when read.
\<close>

section \<open>Fields and tables\<close>

text \<open>The field of \<open>n\<close> bytes at offset \<open>p\<close> of a structure.\<close>

definition field :: "u8 list \<Rightarrow> nat \<Rightarrow> nat \<Rightarrow> 'a::len word" where
  "field bs p n = le_word (take n (drop p bs))"

function chunks :: "nat \<Rightarrow> u8 list \<Rightarrow> u8 list list" where
  "chunks n bs = (if n = 0 \<or> length bs < n then [] else take n bs # chunks n (drop n bs))"
  by pat_completeness auto
termination by (relation "measure (\<lambda>(n, bs). length bs)") auto

declare chunks.simps [simp del]

definition dec_table :: "nat \<Rightarrow> (u8 list \<Rightarrow> 'r) \<Rightarrow> u8 list \<Rightarrow> 'r list" where
  "dec_table n dec bs = map dec (chunks n bs)"

definition enc_table :: "('r \<Rightarrow> u8 list) \<Rightarrow> 'r list \<Rightarrow> u8 list" where
  "enc_table enc rs = concat (map enc rs)"

section \<open>Codes of the enumerations\<close>

text \<open>\<open>SM_OTHER n\<close> stands for a 4-bit code that names no location; other values do not occur.\<close>

definition loc_code :: "location_type \<Rightarrow> nat" where
  "loc_code t = (case t of SM_REGISTER \<Rightarrow> 1 | SM_DIRECT \<Rightarrow> 2 | SM_INDIRECT \<Rightarrow> 3 | SM_CONSTANT \<Rightarrow> 4
     | SM_CONST_IDX \<Rightarrow> 5 | SM_OTHER n \<Rightarrow> n)"

definition loc_of_code :: "nat \<Rightarrow> location_type" where
  "loc_of_code n = (if n = 1 then SM_REGISTER else if n = 2 then SM_DIRECT else if n = 3 then SM_INDIRECT
     else if n = 4 then SM_CONSTANT else if n = 5 then SM_CONST_IDX else SM_OTHER n)"

definition inst_list :: "inst_type list" where
  "inst_list = [Inst_Set, Inst_Add, Inst_Subtract, Inst_Multiply, Inst_Divide, Inst_LeftShift,
     Inst_RightShiftLog, Inst_RightShiftArith, Inst_Mask, Inst_Load, Inst_StackSlot, Inst_ConstantPool]"

definition inst_code :: "inst_type \<Rightarrow> nat" where
  "inst_code t = (case t of Inst_Set \<Rightarrow> 0 | Inst_Add \<Rightarrow> 1 | Inst_Subtract \<Rightarrow> 2 | Inst_Multiply \<Rightarrow> 3
     | Inst_Divide \<Rightarrow> 4 | Inst_LeftShift \<Rightarrow> 5 | Inst_RightShiftLog \<Rightarrow> 6 | Inst_RightShiftArith \<Rightarrow> 7
     | Inst_Mask \<Rightarrow> 8 | Inst_Load \<Rightarrow> 9 | Inst_StackSlot \<Rightarrow> 10 | Inst_ConstantPool \<Rightarrow> 11 | Inst_other n \<Rightarrow> n)"

definition inst_of_code :: "nat \<Rightarrow> inst_type" where
  "inst_of_code n = (if n < 12 then inst_list ! n else Inst_other n)"

definition loc_wf :: "location_type \<Rightarrow> bool" where
  "loc_wf t = (case t of SM_OTHER n \<Rightarrow> n = 0 \<or> 6 \<le> n \<and> n < 16 | _ \<Rightarrow> True)"

definition inst_wf :: "inst_type \<Rightarrow> bool" where
  "inst_wf t = (case t of Inst_other n \<Rightarrow> 12 \<le> n \<and> n < 16 | _ \<Rightarrow> True)"

section \<open>Structures\<close>

definition enc_unwind_addr :: "unwind_addr \<Rightarrow> u8 list" where
  "enc_unwind_addr r = le_bytes 8 (ua_addr r) @ le_bytes 4 (ua_num_unwind r) @ le_bytes 4 (ua_unwind_offset r)"

definition dec_unwind_addr :: "u8 list \<Rightarrow> unwind_addr" where
  "dec_unwind_addr bs = \<lparr>ua_addr = field bs 0 8, ua_num_unwind = field bs 8 4, ua_unwind_offset = field bs 12 4\<rparr>"

definition enc_unwind_loc :: "unwind_loc \<Rightarrow> u8 list" where
  "enc_unwind_loc r = le_bytes 2 (ul_reg r) @ le_bytes 2 (ul_offset r)"

definition dec_unwind_loc :: "u8 list \<Rightarrow> unwind_loc" where
  "dec_unwind_loc bs = \<lparr>ul_reg = field bs 0 2, ul_offset = field bs 2 2\<rparr>"

definition enc_call_site :: "call_site \<Rightarrow> u8 list" where
  "enc_call_site r = le_bytes 8 (cs_id r) @ le_bytes 8 (cs_addr r) @ le_bytes 4 (cs_frame_size r) @
     le_bytes 2 (cs_num_unwind r) @ le_bytes 8 (cs_unwind_offset r) @ le_bytes 2 (cs_num_live r) @
     le_bytes 8 (cs_live_offset r) @ le_bytes 2 (cs_num_arch_live r) @ le_bytes 8 (cs_arch_live_offset r) @
     le_bytes 2 (cs_padding r)"

definition dec_call_site :: "u8 list \<Rightarrow> call_site" where
  "dec_call_site bs = \<lparr>cs_id = field bs 0 8, cs_addr = field bs 8 8, cs_frame_size = field bs 16 4,
     cs_num_unwind = field bs 20 2, cs_unwind_offset = field bs 22 8, cs_num_live = field bs 30 2,
     cs_live_offset = field bs 32 8, cs_num_arch_live = field bs 40 2, cs_arch_live_offset = field bs 42 8,
     cs_padding = field bs 50 2\<rparr>"

text \<open>A byte of two 4-bit halves; the low half of \<open>live_value\<close> holds three flags.\<close>

definition nibbles :: "nat \<Rightarrow> nat \<Rightarrow> u8" where
  "nibbles lo hi = of_nat (lo + 16 * hi)"

definition flag :: "bool \<Rightarrow> nat" where
  "flag b = (if b then 1 else 0)"

definition enc_live_value :: "live_value \<Rightarrow> u8 list" where
  "enc_live_value r =
     [nibbles (flag (is_duplicate r) + 2 * flag (is_alloca r) + 4 * flag (is_ptr r)) (loc_code (lv_type r)),
      lv_size r] @
     le_bytes 2 (lv_regnum r) @ le_bytes 4 (lv_offset r) @ le_bytes 4 (alloca_size r)"

definition dec_live_value :: "u8 list \<Rightarrow> live_value" where
  "dec_live_value bs =
     (let b = unat (bs ! 0) in
      \<lparr>is_duplicate = odd b, is_alloca = odd (b div 2), is_ptr = odd (b div 4),
       lv_type = loc_of_code (b div 16), lv_size = bs ! 1, lv_regnum = field bs 2 2,
       lv_offset = field bs 4 4, alloca_size = field bs 8 4\<rparr>)"

definition enc_arch_live_value :: "arch_live_value \<Rightarrow> u8 list" where
  "enc_arch_live_value r =
     [nibbles (flag (al_is_ptr r)) (loc_code (al_type r)), al_size r] @
     le_bytes 2 (al_regnum r) @ le_bytes 4 (al_offset r) @
     [nibbles (loc_code (al_operand_type r)) (inst_code (al_inst_type r)), al_operand_size r] @
     le_bytes 2 (al_operand_regnum r) @ le_bytes 8 (al_operand_offset_or_constant r)"

definition dec_arch_live_value :: "u8 list \<Rightarrow> arch_live_value" where
  "dec_arch_live_value bs =
     (let b = unat (bs ! 0); c = unat (bs ! 8) in
      \<lparr>al_is_ptr = odd b, al_type = loc_of_code (b div 16), al_size = bs ! 1, al_regnum = field bs 2 2,
       al_offset = field bs 4 4, al_operand_type = loc_of_code (c mod 16),
       al_inst_type = inst_of_code (c div 16), al_operand_size = bs ! 9,
       al_operand_regnum = field bs 10 2, al_operand_offset_or_constant = field bs 12 8\<rparr>)"

definition live_value_wf :: "live_value \<Rightarrow> bool" where
  "live_value_wf r \<longleftrightarrow> loc_wf (lv_type r)"

definition arch_live_value_wf :: "arch_live_value \<Rightarrow> bool" where
  "arch_live_value_wf r \<longleftrightarrow> loc_wf (al_type r) \<and> loc_wf (al_operand_type r) \<and> inst_wf (al_inst_type r)"

section \<open>Reading what was written\<close>

lemma loc_of_code_code: "loc_wf t \<Longrightarrow> loc_of_code (loc_code t) = t \<and> loc_code t < 16"
  by (cases t) (auto simp: loc_wf_def loc_of_code_def loc_code_def)

lemma inst_of_code_code: "inst_wf t \<Longrightarrow> inst_of_code (inst_code t) = t \<and> inst_code t < 16"
  by (cases t) (auto simp: inst_wf_def inst_of_code_def inst_code_def inst_list_def)

lemma unat_nibbles: "lo < 16 \<Longrightarrow> hi < 16 \<Longrightarrow> unat (nibbles lo hi) = lo + 16 * hi"
proof -
  assume "lo < 16" "hi < 16"
  then have "lo + 16 * hi < 2 ^ LENGTH(8)" by simp
  then show ?thesis unfolding nibbles_def unat_of_nat by (rule mod_less)
qed

lemmas layout_simps = field_def le_word_le_bytes nth_append

lemma unwind_addr_roundtrip: "dec_unwind_addr (enc_unwind_addr r) = r" "length (enc_unwind_addr r) = 16"
  by (simp_all add: dec_unwind_addr_def enc_unwind_addr_def layout_simps)

lemma unwind_loc_roundtrip: "dec_unwind_loc (enc_unwind_loc r) = r" "length (enc_unwind_loc r) = 4"
  by (simp_all add: dec_unwind_loc_def enc_unwind_loc_def layout_simps)

lemma call_site_roundtrip: "dec_call_site (enc_call_site r) = r" "length (enc_call_site r) = 52"
  by (simp_all add: dec_call_site_def enc_call_site_def layout_simps)

lemma flag_simps [simp]: "flag b < 2" "odd (flag b) = b" "odd (flag b + 2 * k) = b" "(flag b + 2 * k) div 2 = k"
  by (simp_all add: flag_def)

lemma live_value_roundtrip:
  assumes "live_value_wf r" shows "dec_live_value (enc_live_value r) = r"
proof -
  let ?lo = "flag (is_duplicate r) + 2 * flag (is_alloca r) + 4 * flag (is_ptr r)"
  have c: "loc_of_code (loc_code (lv_type r)) = lv_type r" "loc_code (lv_type r) < 16"
    using assms loc_of_code_code by (auto simp: live_value_wf_def)
  have lo: "?lo < 16" by (simp add: flag_def)
  then have b: "unat (nibbles ?lo (loc_code (lv_type r))) = ?lo + 16 * loc_code (lv_type r)"
    using unat_nibbles c(2) by blast
  have "odd (?lo + 16 * k) = is_duplicate r" "odd ((?lo + 16 * k) div 2) = is_alloca r"
    "odd ((?lo + 16 * k) div 4) = is_ptr r" "(?lo + 16 * k) div 16 = k" for k
    using lo by (cases "is_duplicate r"; cases "is_alloca r"; cases "is_ptr r"; simp add: flag_def; presburger)+
  then show ?thesis
    using b c(1) by (simp add: dec_live_value_def enc_live_value_def layout_simps Let_def)
qed

lemma length_enc_live_value: "length (enc_live_value r) = 12"
  by (simp add: enc_live_value_def)

lemma arch_live_value_roundtrip:
  assumes "arch_live_value_wf r" shows "dec_arch_live_value (enc_arch_live_value r) = r"
proof -
  have c: "loc_of_code (loc_code (al_type r)) = al_type r" "loc_code (al_type r) < 16"
    "loc_of_code (loc_code (al_operand_type r)) = al_operand_type r" "loc_code (al_operand_type r) < 16"
    "inst_of_code (inst_code (al_inst_type r)) = al_inst_type r" "inst_code (al_inst_type r) < 16"
    using assms loc_of_code_code inst_of_code_code by (auto simp: arch_live_value_wf_def)
  have f: "flag (al_is_ptr r) < 16" by (simp add: flag_def)
  note b = unat_nibbles[OF f c(2)] unat_nibbles[OF c(4) c(6)]
  have "odd (flag (al_is_ptr r) + 16 * k) = al_is_ptr r" "(flag (al_is_ptr r) + 16 * k) div 16 = k" for k
    by (auto simp: flag_def)
  then show ?thesis
    using b c by (simp add: dec_arch_live_value_def enc_arch_live_value_def layout_simps Let_def)
qed

lemma length_enc_arch_live_value: "length (enc_arch_live_value r) = 20"
  by (simp add: enc_arch_live_value_def)

text \<open>A table is read back whenever each structure is, whatever follows it in the buffer.\<close>

lemma chunks_append:
  "0 < n \<Longrightarrow> length xs = n \<Longrightarrow> chunks n (xs @ ys) = xs # chunks n ys"
  by (subst chunks.simps) simp

lemma dec_enc_table:
  assumes "0 < n" and "\<forall>r\<in>set rs. dec (enc r) = r \<and> length (enc r) = n"
  shows "dec_table n dec (enc_table enc rs) = rs"
  using assms
proof (induction rs)
  case Nil
  then show ?case by (simp add: dec_table_def enc_table_def chunks.simps)
next
  case (Cons r rs)
  then show ?case by (simp add: dec_table_def enc_table_def chunks_append)
qed

lemma length_enc_table: "\<forall>r\<in>set rs. length (enc r) = n \<Longrightarrow> length (enc_table enc rs) = n * length rs"
  by (induction rs) (simp_all add: enc_table_def)

text \<open>A table decoded from arbitrary bytes: its length, and that every code it holds is one of 4 bits.\<close>

lemma length_chunks: "0 < n \<Longrightarrow> length (chunks n bs) = length bs div n"
proof (induction n bs rule: chunks.induct)
  case (1 n bs)
  show ?case
  proof (cases "length bs < n")
    case True
    then show ?thesis by (simp add: chunks.simps)
  next
    case False
    then have "length (chunks n bs) = Suc ((length bs - n) div n)" using 1 by (subst chunks.simps) simp
    also have "\<dots> = length bs div n" using False 1(2) by (simp add: le_div_geq)
    finally show ?thesis .
  qed
qed

lemma length_dec_table: "0 < n \<Longrightarrow> length bs = n * k \<Longrightarrow> length (dec_table n dec bs) = k"
  by (simp add: dec_table_def length_chunks)

lemma code_wf: "k < 16 \<Longrightarrow> loc_wf (loc_of_code k)" "k < 16 \<Longrightarrow> inst_wf (inst_of_code k)"
  by (auto simp: loc_wf_def loc_of_code_def inst_wf_def inst_of_code_def inst_list_def less_Suc_eq numeral_eq_Suc)

lemma byte_div_16: "unat (b :: u8) div 16 < 16"
  using unsigned_less[where 'a = nat, of b] by simp

lemma dec_live_value_wf: "v \<in> set (dec_table n dec_live_value bs) \<Longrightarrow> live_value_wf v"
  by (auto simp: dec_table_def live_value_wf_def dec_live_value_def Let_def code_wf byte_div_16)

lemma dec_arch_live_value_wf: "v \<in> set (dec_table n dec_arch_live_value bs) \<Longrightarrow> arch_live_value_wf v"
  by (auto simp: dec_table_def arch_live_value_wf_def dec_arch_live_value_def Let_def code_wf byte_div_16)


end
