(* ===== verification/Elf_File.thy ===== *)
theory Elf_File
  imports Layout Lookup
begin

text \<open>
  ELF files as both programs see them through libelf: \<open>lib/stack_transformation/src/util.c\<close> on the
  reading side, \<open>tool/stack_metadata/src/util.c\<close> and \<open>bin.c\<close> on the writing side. A descriptor holds
  the header fields the code reads, the section header string table and the sections after
  the null section; each failure that a libelf call reports is a field. Data blocks are byte
  lists. Descriptors, files and allocations that are open are counted, so that a leak shows.
\<close>

section \<open>Descriptors\<close>

record scn =
  s_hdr_ok :: bool
  s_name :: nat
  s_type :: nat
  s_offset :: u64
  s_size :: u64
  s_entsize :: u64
  s_blocks :: "u8 list list"

record sym =
  sym_name :: nat
  sym_info :: nat
  sym_value :: u64
  sym_size :: u64

record elf =
  e_kind_elf :: bool
  e_class :: nat
  e_ident_data :: "nat option"
  e_machine :: "u16 option"
  e_shstrtab :: "string option"
  e_secs :: "scn list"
  e_strtab :: string
  e_syms :: "sym option list"
  e_shoff :: u64

definition ELFCLASS64 :: nat where "ELFCLASS64 = 2"
definition ELFDATA2LSB :: nat where "ELFDATA2LSB = 1"
definition SHT_PROGBITS :: nat where "SHT_PROGBITS = 1"
definition SHT_SYMTAB :: nat where "SHT_SYMTAB = 2"
definition BUF_SIZE :: nat where "BUF_SIZE = 512"

text \<open>\<open>elf_strptr\<close>: the NUL-terminated string at an offset of a string table.\<close>

definition strptr :: "string \<Rightarrow> nat \<Rightarrow> string option" where
  "strptr tab off = (if off < length tab then Some (takeWhile (\<lambda>c. c \<noteq> CHR 0x00) (drop off tab)) else None)"

section \<open>Finding sections\<close>

text \<open>The loop over \<open>elf_nextscn\<close> with a test; a header that cannot be read ends it with \<open>NULL\<close>.\<close>

primrec scan_secs :: "(scn \<Rightarrow> bool) \<Rightarrow> nat \<Rightarrow> scn list \<Rightarrow> nat option" where
  "scan_secs test i [] = None"
| "scan_secs test i (s # ss) =
     (if \<not> s_hdr_ok s then None else if test s then Some i else scan_secs test (Suc i) ss)"

definition get_section_by_name :: "elf \<Rightarrow> string \<Rightarrow> nat option" where
  "get_section_by_name e name =
     (case e_shstrtab e of None \<Rightarrow> None
      | Some tab \<Rightarrow> scan_secs (\<lambda>s. strptr tab (s_name s) = Some name) 0 (e_secs e))"

definition get_section_by_offset :: "elf \<Rightarrow> u64 \<Rightarrow> nat option" where
  "get_section_by_offset e off = scan_secs (\<lambda>s. s_offset s = off) 0 (e_secs e)"

definition get_sym_tab :: "elf \<Rightarrow> nat option" where
  "get_sym_tab e = scan_secs (\<lambda>s. s_type s = SHT_SYMTAB) 0 (e_secs e)"

definition get_num_data_blocks :: "scn \<Rightarrow> nat" where
  "get_num_data_blocks s = length (s_blocks s)"

text \<open>\<open>get_section\<close> of the runtime is the same loop.\<close>

definition get_section :: "elf \<Rightarrow> string \<Rightarrow> nat option" where
  "get_section e sec =
     (case e_shstrtab e of None \<Rightarrow> None
      | Some tab \<Rightarrow> scan_secs (\<lambda>s. strptr tab (s_name s) = Some sec) 0 (e_secs e))"

text \<open>The number of entries, \<open>-1\<close> when there is no section or it has no entry size.\<close>

definition get_num_entries :: "elf \<Rightarrow> string \<Rightarrow> u64" where
  "get_num_entries e sec =
     (case get_section e sec of None \<Rightarrow> - 1
      | Some i \<Rightarrow> let s = e_secs e ! i in
          if \<not> s_hdr_ok s then - 1 else if s_entsize s \<noteq> 0 then s_size s div s_entsize s else - 1)"

definition st_get_section_data :: "elf \<Rightarrow> string \<Rightarrow> u8 list option" where
  "st_get_section_data e sec =
     (case get_section e sec of None \<Rightarrow> None
      | Some i \<Rightarrow> (case s_blocks (e_secs e ! i) of [] \<Rightarrow> None | b # _ \<Rightarrow> Some b))"

definition get_section_data :: "scn option \<Rightarrow> u8 list option" where
  "get_section_data s =
     (case s of None \<Rightarrow> None
      | Some s \<Rightarrow> if 1 < get_num_data_blocks s then None
          else (case s_blocks s of [] \<Rightarrow> None | b # _ \<Rightarrow> Some b))"

section \<open>Symbols\<close>

definition empty_sym :: sym where
  "empty_sym = \<lparr>sym_name = 0, sym_info = 0, sym_value = 0, sym_size = 0\<rparr>"

primrec scan_syms :: "(sym \<Rightarrow> bool) \<Rightarrow> sym option list \<Rightarrow> sym" where
  "scan_syms test [] = empty_sym"
| "scan_syms test (x # xs) =
     (case x of None \<Rightarrow> empty_sym | Some s \<Rightarrow> if test s then s else scan_syms test xs)"

definition get_sym_by_name :: "elf \<Rightarrow> string \<Rightarrow> sym" where
  "get_sym_by_name e name =
     (case get_sym_tab e of None \<Rightarrow> empty_sym
      | Some i \<Rightarrow> if s_blocks (e_secs e ! i) = [] then empty_sym
          else scan_syms (\<lambda>s. case strptr (e_strtab e) (sym_name s) of None \<Rightarrow> False
            | Some n \<Rightarrow> take BUF_SIZE n = take BUF_SIZE name) (e_syms e))"

definition get_sym_by_addr :: "elf \<Rightarrow> u64 \<Rightarrow> nat \<Rightarrow> sym" where
  "get_sym_by_addr e addr type =
     (case get_sym_tab e of None \<Rightarrow> empty_sym
      | Some i \<Rightarrow> if s_blocks (e_secs e ! i) = [] then empty_sym
          else scan_syms (\<lambda>s. sym_value s = addr \<and> (type = 255 \<or> sym_info s mod 16 = type)) (e_syms e))"

definition get_sym_name :: "elf \<Rightarrow> sym \<Rightarrow> string option" where
  "get_sym_name e s = (case get_sym_tab e of None \<Rightarrow> None | Some i \<Rightarrow> strptr (e_strtab e) (sym_name s))"

section \<open>Return codes and header checks of the tool\<close>

datatype ret_t = SUCCESS | INVALID_ARGUMENT | INVALID_ARCHITECTURE | INVALID_ELF_VERSION
  | OPEN_FILE_FAILED | INVALID_ELF | OPEN_ELF_FAILED | LAYOUT_CONTROL_FAILED | READ_ELF_FAILED
  | FIND_SECTION_FAILED | WRITE_ELF_FAILED | ADD_SECTION_FAILED | UPDATE_SECTION_FAILED
  | CREATE_METADATA_FAILED | INVALID_METADATA

definition check_elf_ehdr :: "elf \<Rightarrow> bool" where
  "check_elf_ehdr e =
     (if \<not> e_kind_elf e then False
      else if e_class e \<noteq> ELFCLASS64 then False
      else (case e_ident_data e of None \<Rightarrow> False
        | Some d \<Rightarrow> if d \<noteq> ELFDATA2LSB then False
            else (case e_machine e of None \<Rightarrow> False
              | Some m \<Rightarrow> if m \<noteq> EM_X86_64 \<and> m \<noteq> EM_AARCH64 then False else True)))"

section \<open>Open resources\<close>

record resources =
  r_allocs :: nat
  r_fds :: nat
  r_elfs :: nat

text \<open>
  What the operating system and libelf do when a file is opened: \<open>fl_fd\<close> and \<open>fl_begin\<close> say
  whether the file and the descriptor can be opened, \<open>fl_layout\<close> whether the layout flags are
  accepted.
\<close>

record elf_env =
  fl_malloc :: bool
  fl_fd :: bool
  fl_begin :: "elf option"
  fl_layout :: bool

record bin =
  b_name :: string
  b_arch :: u16
  b_elf :: elf

definition init_elf_bin :: "elf_env \<Rightarrow> string option \<Rightarrow> resources \<Rightarrow> (ret_t + bin) \<times> resources" where
  "init_elf_bin env bin_fn rs =
     (case bin_fn of None \<Rightarrow> (Inl INVALID_ARGUMENT, rs)
      | Some fn \<Rightarrow>
          let rs1 = rs\<lparr>r_allocs := r_allocs rs + 1\<rparr> in
          if \<not> fl_fd env then (Inl OPEN_FILE_FAILED, rs1\<lparr>r_allocs := r_allocs rs1 - 1\<rparr>)
          else
            let rs2 = rs1\<lparr>r_fds := r_fds rs1 + 1\<rparr> in
            (case fl_begin env of
              None \<Rightarrow> (Inl OPEN_ELF_FAILED, rs2\<lparr>r_fds := r_fds rs2 - 1, r_allocs := r_allocs rs2 - 1\<rparr>)
            | Some e \<Rightarrow>
                let rs3 = rs2\<lparr>r_elfs := r_elfs rs2 + 1\<rparr>;
                    cleaned = rs3\<lparr>r_elfs := r_elfs rs3 - 1, r_fds := r_fds rs3 - 1, r_allocs := r_allocs rs3 - 1\<rparr> in
                if \<not> check_elf_ehdr e then (Inl INVALID_ELF, cleaned)
                else if \<not> fl_layout env then (Inl LAYOUT_CONTROL_FAILED, cleaned)
                else (Inr \<lparr>b_name = fn, b_arch = the (e_machine e), b_elf = e\<rparr>, rs3)))"

definition free_elf_bin :: "bin option \<Rightarrow> resources \<Rightarrow> ret_t \<times> resources" where
  "free_elf_bin b rs =
     (case b of None \<Rightarrow> (INVALID_ARGUMENT, rs)
      | Some _ \<Rightarrow> (SUCCESS, rs\<lparr>r_elfs := r_elfs rs - 1, r_fds := r_fds rs - 1, r_allocs := r_allocs rs - 1\<rparr>))"

section \<open>Adding and updating sections\<close>

text \<open>
  The name goes to the end of the string table and its offset is the old size; 0 is failure
  (a table that was empty has no room for the null name either).
\<close>

definition add_section_name :: "elf \<Rightarrow> string \<Rightarrow> nat \<times> elf" where
  "add_section_name e name =
     (case e_shstrtab e of None \<Rightarrow> (0, e)
      | Some tab \<Rightarrow> (length tab, e\<lparr>e_shstrtab := Some (tab @ take BUF_SIZE name @ [CHR 0x00])\<rparr>))"

definition add_section :: "elf \<Rightarrow> string \<Rightarrow> nat \<Rightarrow> nat \<Rightarrow> u8 list option \<Rightarrow> ret_t \<times> elf" where
  "add_section e name num_entries entry_size buf =
     (case buf of None \<Rightarrow> (INVALID_ARGUMENT, e)
      | Some bytes \<Rightarrow>
          let (name_off, e1) = add_section_name e name in
          if name_off = 0 then (WRITE_ELF_FAILED, e1)
          else (SUCCESS, e1\<lparr>e_secs := e_secs e1 @
            [\<lparr>s_hdr_ok = True, s_name = name_off, s_type = SHT_PROGBITS, s_offset = 0,
              s_size = of_nat (entry_size * num_entries), s_entsize = of_nat entry_size,
              s_blocks = [bytes]\<rparr>]\<rparr>))"

definition update_section :: "elf \<Rightarrow> nat option \<Rightarrow> nat \<Rightarrow> nat \<Rightarrow> u8 list option \<Rightarrow> ret_t \<times> elf" where
  "update_section e scn num_entries entry_size buf =
     (case (scn, buf) of
        (Some i, Some bytes) \<Rightarrow>
          (case s_blocks (e_secs e ! i) of
             [] \<Rightarrow> (UPDATE_SECTION_FAILED, e)
           | _ # bs \<Rightarrow>
               if \<not> s_hdr_ok (e_secs e ! i) then (UPDATE_SECTION_FAILED, e)
               else (SUCCESS, e\<lparr>e_secs := (e_secs e)[i := (e_secs e ! i)\<lparr>
                 s_blocks := bytes # bs, s_size := of_nat (entry_size * num_entries)\<rparr>]\<rparr>))
      | _ \<Rightarrow> (INVALID_ARGUMENT, e))"

section \<open>Handles\<close>

definition SECTION_PREFIX :: string where "SECTION_PREFIX = ''.stack_transform''"
definition SECTION_ST_UNWIND_ADDR :: string where "SECTION_ST_UNWIND_ADDR = SECTION_PREFIX @ ''.unwind_arange''"
definition SECTION_ST_UNWIND :: string where "SECTION_ST_UNWIND = SECTION_PREFIX @ ''.unwind''"
definition SECTION_ST_ID :: string where "SECTION_ST_ID = SECTION_PREFIX @ ''.id''"
definition SECTION_ST_ADDR :: string where "SECTION_ST_ADDR = SECTION_PREFIX @ ''.addr''"
definition SECTION_ST_LIVE :: string where "SECTION_ST_LIVE = SECTION_PREFIX @ ''.live''"
definition SECTION_ST_ARCH_LIVE :: string where "SECTION_ST_ARCH_LIVE = SECTION_PREFIX @ ''.arch_const''"

text \<open>
  A handle as \<open>st_init\<close> builds it, before the tables of its architecture are attached: the two
  architectures have register structures of different types, so the tables are kept as the
  name \<open>arch_table\<close> of the structure the source points to.
\<close>

record raw_handle =
  rh_fn :: string
  rh_arch :: u16
  rh_ptr_size :: u16
  rh_unwind_addr_count :: u64
  rh_unwind_addrs :: "unwind_addr list"
  rh_unwind_count :: u64
  rh_unwind_locs :: "unwind_loc list"
  rh_sites_count :: u64
  rh_sites_id :: "call_site list"
  rh_sites_addr :: "call_site list"
  rh_live_vals_count :: u64
  rh_live_vals :: "live_value list"
  rh_arch_live_vals_count :: u64
  rh_arch_live_vals :: "arch_live_value list"
  rh_table :: arch_table

text \<open>A section with its count: \<open>None\<close> is a jump to the clean-up code.\<close>

definition read_section :: "elf \<Rightarrow> string \<Rightarrow> nat \<Rightarrow> (u8 list \<Rightarrow> 'r) \<Rightarrow> (u64 \<times> 'r list) option" where
  "read_section e sec n dec =
     (let count = get_num_entries e sec in
      if 0 < count then
        (case st_get_section_data e sec of None \<Rightarrow> None | Some d \<Rightarrow> Some (count, dec_table n dec d))
      else None)"

definition read_optional_section :: "elf \<Rightarrow> string \<Rightarrow> nat \<Rightarrow> (u8 list \<Rightarrow> 'r) \<Rightarrow> (u64 \<times> 'r list) option" where
  "read_optional_section e sec n dec =
     (let count = get_num_entries e sec in
      if 0 < count then
        (case st_get_section_data e sec of None \<Rightarrow> None | Some d \<Rightarrow> Some (count, dec_table n dec d))
      else Some (count, []))"

definition read_handle :: "string \<Rightarrow> elf \<Rightarrow> raw_handle option" where
  "read_handle fn e =
     Option.bind (e_machine e) (\<lambda>arch.
     Option.bind (e_ident_data e) (\<lambda>_.
     Option.bind (read_section e SECTION_ST_UNWIND_ADDR 16 dec_unwind_addr) (\<lambda>(uac, uas).
     Option.bind (read_section e SECTION_ST_UNWIND 4 dec_unwind_loc) (\<lambda>(uc, uls).
     Option.bind (read_section e SECTION_ST_ID 52 dec_call_site) (\<lambda>(sc, ids).
     Option.bind (st_get_section_data e SECTION_ST_ADDR) (\<lambda>d.
     let addrs = dec_table 52 dec_call_site d in
     Option.bind (read_section e SECTION_ST_LIVE 12 dec_live_value) (\<lambda>(lc, lvs).
     Option.bind (read_optional_section e SECTION_ST_ARCH_LIVE 20 dec_arch_live_value) (\<lambda>(ac, avs).
     Option.bind (get_regops arch) (\<lambda>t.
     Option.bind (get_properties arch) (\<lambda>_.
       Some \<lparr>rh_fn = fn, rh_arch = arch, rh_ptr_size = (if e_class e = ELFCLASS64 then 8 else 4),
         rh_unwind_addr_count = uac, rh_unwind_addrs = uas, rh_unwind_count = uc, rh_unwind_locs = uls,
         rh_sites_count = sc, rh_sites_id = ids, rh_sites_addr = addrs,
         rh_live_vals_count = lc, rh_live_vals = lvs,
         rh_arch_live_vals_count = ac, rh_arch_live_vals = avs, rh_table = t\<rparr>))))))))))"

definition st_init :: "elf_env \<Rightarrow> string option \<Rightarrow> resources \<Rightarrow> raw_handle option \<times> resources" where
  "st_init env fn rs =
     (case fn of None \<Rightarrow> (None, rs)
      | Some name \<Rightarrow>
          if \<not> fl_malloc env then (None, rs)
          else
            let rs1 = rs\<lparr>r_allocs := r_allocs rs + 1\<rparr> in
            if \<not> fl_fd env then (None, rs1\<lparr>r_allocs := r_allocs rs1 - 1\<rparr>)
            else
              let rs2 = rs1\<lparr>r_fds := r_fds rs1 + 1\<rparr> in
              (case fl_begin env of
                None \<Rightarrow> (None, rs2\<lparr>r_fds := r_fds rs2 - 1, r_allocs := r_allocs rs2 - 1\<rparr>)
              | Some e \<Rightarrow>
                  let rs3 = rs2\<lparr>r_elfs := r_elfs rs2 + 1\<rparr> in
                  (case read_handle name e of
                    None \<Rightarrow> (None, rs3\<lparr>r_elfs := r_elfs rs3 - 1, r_fds := r_fds rs3 - 1, r_allocs := r_allocs rs3 - 1\<rparr>)
                  | Some h \<Rightarrow> (Some h, rs3))))"

definition st_destroy :: "raw_handle option \<Rightarrow> resources \<Rightarrow> resources" where
  "st_destroy h rs =
     (case h of None \<Rightarrow> rs
      | Some _ \<Rightarrow> rs\<lparr>r_elfs := r_elfs rs - 1, r_fds := r_fds rs - 1, r_allocs := r_allocs rs - 1\<rparr>)"

text \<open>A handle with the tables of its architecture attached.\<close>

definition attach :: "'raw regops_t \<Rightarrow> properties_t \<Rightarrow> raw_handle \<Rightarrow> 'raw st_handle" where
  "attach ops props h = \<lparr>h_arch = rh_arch h, h_ptr_size = rh_ptr_size h, h_regops = ops, h_props = props,
     unwind_addr_count = rh_unwind_addr_count h, unwind_addrs = rh_unwind_addrs h,
     unwind_count = rh_unwind_count h, unwind_locs = rh_unwind_locs h,
     sites_count = rh_sites_count h, sites_id = rh_sites_id h, sites_addr = rh_sites_addr h,
     live_vals_count = rh_live_vals_count h, live_vals = rh_live_vals h,
     arch_live_vals_count = rh_arch_live_vals_count h, arch_live_vals = rh_arch_live_vals h\<rparr>"

section \<open>No leaks\<close>

text \<open>
  Whatever step of opening a binary fails, everything opened before is released again; a
  binary that was opened is released by the matching destructor.
\<close>

lemma st_init_leak_free:
  "(case st_init env fn rs of (None, rs') \<Rightarrow> rs' = rs | (Some h, rs') \<Rightarrow> st_destroy (Some h) rs' = rs)"
  by (auto simp: st_init_def st_destroy_def Let_def split: option.splits)

lemma init_elf_bin_leak_free:
  "(case init_elf_bin env fn rs of (Inl _, rs') \<Rightarrow> rs' = rs
    | (Inr b, rs') \<Rightarrow> free_elf_bin (Some b) rs' = (SUCCESS, rs))"
  by (auto simp: init_elf_bin_def free_elf_bin_def Let_def split: option.splits)

section \<open>Sections that were added are found\<close>

lemma scan_secs_bound: "scan_secs test i ss = Some k \<Longrightarrow> i \<le> k \<and> k < i + length ss \<and> test (ss ! (k - i)) \<and> s_hdr_ok (ss ! (k - i))"
proof (induction ss arbitrary: i)
  case (Cons s ss)
  then show ?case
    by (cases "s_hdr_ok s"; cases "test s") (auto simp: nth_Cons' Suc_diff_le dest!: Cons.IH split: if_splits)
qed simp

lemma scan_secs_append:
  assumes "\<forall>s\<in>set ss. s_hdr_ok s" and "scan_secs test i ss = None"
  shows "scan_secs test i (ss @ ts) = scan_secs test (i + length ss) ts"
  using assms by (induction ss arbitrary: i) (auto split: if_splits)

lemma scan_secs_found: "scan_secs test i ss = Some k \<Longrightarrow> scan_secs test i (ss @ ts) = Some k"
  by (induction ss arbitrary: i) (auto split: if_splits)

lemma scan_secs_cong: "(\<And>s. s \<in> set ss \<Longrightarrow> test s = test' s) \<Longrightarrow> scan_secs test i ss = scan_secs test' i ss"
  by (induction ss arbitrary: i) auto

lemma scan_secs_update:
  assumes "s_hdr_ok s' = s_hdr_ok (ss ! k)" and "test s' = test (ss ! k)" and "k < length ss"
  shows "scan_secs test i (ss[k := s']) = scan_secs test i ss"
  using assms
proof (induction ss arbitrary: i k)
  case (Cons s ss)
  then show ?case by (cases k) simp_all
qed simp

end
