(* ===== verification/Userspace.thy ===== *)
theory Userspace
  imports Rewrite Elf_File Regs_aarch64 Regs_x86_64
begin

text \<open>
  The user-space front end, \<open>lib/stack_transformation/src/userspace.c\<close> (built with pthread
  thread-local storage, as \<open>config.h\<close> selects): the constructor and destructor of the handles,
  the bounds of the main thread's and of other threads' stacks, the split of a stack in two
  halves and the rewrite from the half in use to the other. What the C library, the kernel
  and the compiler supply (environment, procfs, limits, thread attributes, the stack pointer,
  return addresses) are arguments.
\<close>

section \<open>Stack bounds\<close>

record stack_bounds =
  high :: u64
  low :: u64

text \<open>A line of the memory map as \<open>sscanf\<close> reads it.\<close>

record map_line =
  ml_fields :: nat
  ml_start :: u64
  ml_end :: u64
  ml_path :: string

primrec get_main_stack :: "map_line list \<Rightarrow> bool \<times> stack_bounds" where
  "get_main_stack [] = (False, \<lparr>high = 0, low = 0\<rparr>)"
| "get_main_stack (l # ls) =
     (if ml_fields l = 7 \<and> take 7 (ml_path l) = ''[stack]''
      then (True, \<lparr>high = ml_end l, low = ml_start l\<rparr>) else get_main_stack ls)"

text \<open>The bounds of another thread: \<open>attr\<close> is the start and size pthread reports, \<open>None\<close> an error.\<close>

definition get_thread_stack :: "(u64 \<times> u64) option \<Rightarrow> bool \<times> stack_bounds" where
  "get_thread_stack attr =
     (case attr of
        Some (lo, stack_size) \<Rightarrow>
          let hi = lo + stack_size in
          (True, \<lparr>high = hi, low = (if stack_size \<noteq> MAX_STACK_SIZE then hi - MAX_STACK_SIZE else lo)\<rparr>)
      | None \<Rightarrow> (False, \<lparr>high = 0, low = 0\<rparr>))"

text \<open>
  The main thread: the map gives the upper end, the resource limit the lower one, and the end is
  lowered to the first function activation, rounded to 16 bytes. \<open>tls_ok\<close> says that the
  thread-local slot could be created. The slot points to a block from \<open>malloc\<close>, whose content is
  \<open>junk\<close> until the bounds are stored in it at the end; an early return leaves it so.
\<close>

definition prep_stack :: "bool \<Rightarrow> bool \<Rightarrow> stack_bounds \<Rightarrow> map_line list \<Rightarrow> u64 option \<Rightarrow> u64 \<Rightarrow>
    (bool \<times> stack_bounds) res" where
  "prep_stack checks tls_ok junk maps rlim popcorn_stack_base =
     bindE (ASSERT checks tls_ok) (\<lambda>_.
     let (found, bounds) = get_main_stack maps in
     if \<not> found then Inr (False, junk)
     else (case rlim of None \<Rightarrow> Inr (False, junk)
       | Some cur \<Rightarrow>
           let bounds1 = bounds\<lparr>low := high bounds - cur\<rparr> in
           bindE (ASSERT checks (popcorn_stack_base \<noteq> 0)) (\<lambda>_.
           let offset = high bounds1 - popcorn_stack_base;
               offset' = offset + (if offset mod 0x10 \<noteq> 0 then 0x10 - offset mod 0x10 else 0) in
           Inr (True, bounds1\<lparr>high := high bounds1 - offset'\<rparr>))))"

text \<open>
  The thread-local slot of a thread is the bounds it points to, if it was set. \<open>malloc_ok\<close> and
  \<open>set_ret\<close> are the results of the allocation and of \<open>pthread_setspecific\<close>.
\<close>

record thread_env =
  malloc_ok :: bool
  set_ret :: int
  thread_attr :: "(u64 \<times> u64) option"

definition get_stack_bounds :: "bool \<Rightarrow> thread_env \<Rightarrow> stack_bounds option \<Rightarrow> u64 \<Rightarrow>
    (stack_bounds \<times> stack_bounds option) res" where
  "get_stack_bounds checks env tls cur_stack =
     (let split = (\<lambda>b. if low b + B_STACK_OFFSET \<le> cur_stack then b\<lparr>low := low b + B_STACK_OFFSET\<rparr>
            else \<lparr>high = low b + B_STACK_OFFSET, low = low b + B_STACK_OFFSET\<rparr>);
          none = \<lparr>high = 0, low = 0\<rparr> in
      case tls of Some b \<Rightarrow> Inr (split b, tls)
      | None \<Rightarrow>
          bindE (ASSERT checks (malloc_ok env)) (\<lambda>_.
          if set_ret env \<noteq> 0 then bindE (ASSERT checks False) (\<lambda>_. Inr (none, None))
          else if \<not> malloc_ok env then Inl (UB Null_deref)
          else
            let (ok, b) = get_thread_stack (thread_attr env) in
            if \<not> ok then Inr (none, Some b) else Inr (split b, Some b)))"

section \<open>Rewriting to the other half\<close>

text \<open>\<open>rw\<close> stands for the call of \<open>st_rewrite_stack\<close> with the two stack bases.\<close>

definition rewrite_halves :: "stack_bounds \<Rightarrow> u64 \<Rightarrow> u64 \<times> u64" where
  "rewrite_halves bounds stack_ptr =
     (let stack_a = high bounds; stack_b = low bounds + B_STACK_OFFSET in
      (if stack_b \<le> stack_ptr then stack_a else stack_b, if stack_b \<le> stack_ptr then stack_b else stack_a))"

definition userspace_rewrite_internal :: "bool \<Rightarrow> thread_env \<Rightarrow> 'a fresh option \<Rightarrow> 'b fresh option \<Rightarrow> mem \<Rightarrow>
    stack_bounds option \<Rightarrow> u64 \<Rightarrow> 'a option \<Rightarrow> 'b option \<Rightarrow> 'a st_handle option \<Rightarrow> 'b st_handle option \<Rightarrow>
    (int \<times> mem \<times> 'b option \<times> stack_bounds option) res option" where
  "userspace_rewrite_internal checks env alloc_a alloc_b m tls stack_ptr regs dest_regs handle_a handle_b =
     (if stack_ptr = 0 \<or> regs = None \<or> dest_regs = None \<or> handle_a = None \<or> handle_b = None
      then Some (Inr (1, m, dest_regs, tls))
      else
        bindN (Some (case tls of Some b \<Rightarrow> Inr (0, True, b)
          | None \<Rightarrow>
              bindE (ASSERT checks (malloc_ok env)) (\<lambda>_.
              bindE (ASSERT checks (set_ret env = 0)) (\<lambda>_.
              if \<not> malloc_ok env then Inl (UB Null_deref)
              else let (ok, b) = get_thread_stack (thread_attr env) in Inr (set_ret env, ok, b)))))
        (\<lambda>(retval, ok, bounds).
        let tls1 = (if tls \<noteq> None \<or> set_ret env = 0 then Some bounds else None) in
        if \<not> ok then Some (Inr (1, m, dest_regs, tls1))
        else if stack_ptr < low bounds \<or> high bounds \<le> stack_ptr then Some (Inr (1, m, dest_regs, tls1))
        else
          let (cur_stack, new_stack) = rewrite_halves bounds stack_ptr in
          bindN (st_rewrite_stack checks alloc_a alloc_b m handle_a regs cur_stack handle_b dest_regs new_stack)
            (\<lambda>(m1, dest1, r). Some (Inr (if r \<noteq> 0 then 1 else retval, m1, dest1, tls1)))))"

section \<open>Handles of the two binaries\<close>

record userspace =
  us_bounds :: "stack_bounds option"
  aarch64_handle :: "raw_handle option"
  x86_64_handle :: "raw_handle option"
  aarch64_fn :: "string option"
  x86_64_fn :: "string option"
  alloc_aarch64_fn :: bool
  alloc_x86_64_fn :: bool
  us_resources :: resources

text \<open>
  The file name: an environment variable, else the symbol the application may define, else the
  program name with a suffix, cut to the buffer; the flag says that the name was allocated.
\<close>

definition pick_fn :: "string option \<Rightarrow> string option \<Rightarrow> string \<Rightarrow> string \<Rightarrow> string \<times> string option \<times> bool" where
  "pick_fn env_fn sym_fn progname suffix =
     (case env_fn of Some f \<Rightarrow> (f, sym_fn, False)
      | None \<Rightarrow> (case sym_fn of Some f \<Rightarrow> (f, sym_fn, False)
        | None \<Rightarrow> let f = take (BUF_SIZE - 1) (progname @ suffix) in (f, Some f, True)))"

definition st_userspace_ctor :: "bool \<Rightarrow> bool \<Rightarrow> stack_bounds \<Rightarrow> map_line list \<Rightarrow> u64 option \<Rightarrow> u64 \<Rightarrow> bool \<Rightarrow>
    (string \<Rightarrow> string option) \<Rightarrow> string \<Rightarrow> (string \<Rightarrow> elf_env) \<Rightarrow> userspace \<Rightarrow> userspace res" where
  "st_userspace_ctor checks tls_ok junk maps rlim popcorn_stack_base elf_ok getenv progname files us =
     bindE (prep_stack checks tls_ok junk maps rlim popcorn_stack_base) (\<lambda>(ok, bounds).
     let us1 = us\<lparr>us_bounds := Some bounds\<rparr> in
     if \<not> ok then Inr us1
     else
       if \<not> elf_ok then Inr us1
       else
         let (f, sym, al) = pick_fn (getenv ''ST_AARCH64_BIN'') (aarch64_fn us1) progname ''_aarch64'';
             (h, rs) = st_init (files f) (Some f) (us_resources us1);
             us2 = us1\<lparr>aarch64_handle := h, aarch64_fn := sym, alloc_aarch64_fn := alloc_aarch64_fn us1 \<or> al,
               us_resources := (if al then rs\<lparr>r_allocs := r_allocs rs + 1\<rparr> else rs)\<rparr>;
             (f', sym', al') = pick_fn (getenv ''ST_X86_64_BIN'') (x86_64_fn us2) progname ''_x86-64'';
             (h', rs') = st_init (files f') (Some f') (us_resources us2) in
         Inr (us2\<lparr>x86_64_handle := h', x86_64_fn := sym', alloc_x86_64_fn := alloc_x86_64_fn us2 \<or> al',
           us_resources := (if al' then rs'\<lparr>r_allocs := r_allocs rs' + 1\<rparr> else rs')\<rparr>))"

text \<open>Each handle is destroyed with its name; a name whose handle failed to open stays allocated.\<close>

definition destroy_one :: "raw_handle option \<Rightarrow> bool \<Rightarrow> resources \<Rightarrow> resources" where
  "destroy_one h al rs =
     (case h of None \<Rightarrow> rs
      | Some _ \<Rightarrow> let rs1 = st_destroy h rs in if al then rs1\<lparr>r_allocs := r_allocs rs1 - 1\<rparr> else rs1)"

definition st_userspace_dtor :: "userspace \<Rightarrow> userspace" where
  "st_userspace_dtor us = us\<lparr>us_resources :=
     destroy_one (x86_64_handle us) (alloc_x86_64_fn us)
       (destroy_one (aarch64_handle us) (alloc_aarch64_fn us) (us_resources us))\<rparr>"

text \<open>
  The tables a handle carries are those of the architecture of its binary. A handle of the other
  architecture would access the register structure with the wrong layout.
\<close>

definition handle_aarch64 :: "raw_handle \<Rightarrow> regset_aarch64 st_handle res" where
  "handle_aarch64 h = (if rh_table h = Table_aarch64 then Inr (attach regs_aarch64 properties_aarch64 h)
     else Inl (UB Register_overrun))"

definition handle_x86_64 :: "raw_handle \<Rightarrow> regset_x86_64 st_handle res" where
  "handle_x86_64 h = (if rh_table h = Table_x86_64 then Inr (attach regs_x86_64 properties_x86_64 h)
     else Inl (UB Register_overrun))"

section \<open>Entry points\<close>

text \<open>
  The program counter of the source registers is replaced by the return address of the call.
  \<open>st_userspace_rewrite\<close> exists once per architecture it is compiled for.
\<close>

definition st_userspace_rewrite_on_aarch64 :: "bool \<Rightarrow> thread_env \<Rightarrow> regset_aarch64 fresh option \<Rightarrow>
    regset_x86_64 fresh option \<Rightarrow> mem \<Rightarrow> userspace \<Rightarrow> stack_bounds option \<Rightarrow> u64 \<Rightarrow> u64 \<Rightarrow> regset_aarch64 \<Rightarrow>
    regset_x86_64 option \<Rightarrow> (int \<times> mem \<times> regset_x86_64 option \<times> stack_bounds option) res option" where
  "st_userspace_rewrite_on_aarch64 checks env fa fb m us tls ret_addr stack_ptr regs dest_regs =
     (case (aarch64_handle us, x86_64_handle us) of
        (Some a, Some x) \<Rightarrow>
          bindN (Some (handle_aarch64 a)) (\<lambda>ha. bindN (Some (handle_x86_64 x)) (\<lambda>hx.
            userspace_rewrite_internal checks env fa fb m tls stack_ptr (Some (regs\<lparr>a64_pc := ret_addr\<rparr>))
              dest_regs (Some ha) (Some hx)))
      | _ \<Rightarrow> Some (Inr (1, m, dest_regs, tls)))"

definition st_userspace_rewrite_on_x86_64 :: "bool \<Rightarrow> thread_env \<Rightarrow> regset_x86_64 fresh option \<Rightarrow>
    regset_aarch64 fresh option \<Rightarrow> mem \<Rightarrow> userspace \<Rightarrow> stack_bounds option \<Rightarrow> u64 \<Rightarrow> u64 \<Rightarrow> regset_x86_64 \<Rightarrow>
    regset_aarch64 option \<Rightarrow> (int \<times> mem \<times> regset_aarch64 option \<times> stack_bounds option) res option" where
  "st_userspace_rewrite_on_x86_64 checks env fa fb m us tls ret_addr stack_ptr regs dest_regs =
     (case (aarch64_handle us, x86_64_handle us) of
        (Some a, Some x) \<Rightarrow>
          bindN (Some (handle_aarch64 a)) (\<lambda>ha. bindN (Some (handle_x86_64 x)) (\<lambda>hx.
            userspace_rewrite_internal checks env fa fb m tls stack_ptr (Some (regs\<lparr>x86_rip := ret_addr\<rparr>))
              dest_regs (Some hx) (Some ha)))
      | _ \<Rightarrow> Some (Inr (1, m, dest_regs, tls)))"

definition st_userspace_rewrite_aarch64 :: "bool \<Rightarrow> thread_env \<Rightarrow> regset_aarch64 fresh option \<Rightarrow>
    regset_aarch64 fresh option \<Rightarrow> mem \<Rightarrow> userspace \<Rightarrow> stack_bounds option \<Rightarrow> u64 \<Rightarrow> u64 \<Rightarrow> regset_aarch64 \<Rightarrow>
    regset_aarch64 option \<Rightarrow> (int \<times> mem \<times> regset_aarch64 option \<times> stack_bounds option) res option" where
  "st_userspace_rewrite_aarch64 checks env fa fb m us tls ret_addr stack_ptr regs dest_regs =
     (case aarch64_handle us of
        Some a \<Rightarrow> bindN (Some (handle_aarch64 a)) (\<lambda>ha.
          userspace_rewrite_internal checks env fa fb m tls stack_ptr (Some (regs\<lparr>a64_pc := ret_addr\<rparr>))
            dest_regs (Some ha) (Some ha))
      | None \<Rightarrow> Some (Inr (1, m, dest_regs, tls)))"

definition st_userspace_rewrite_x86_64 :: "bool \<Rightarrow> thread_env \<Rightarrow> regset_x86_64 fresh option \<Rightarrow>
    regset_x86_64 fresh option \<Rightarrow> mem \<Rightarrow> userspace \<Rightarrow> stack_bounds option \<Rightarrow> u64 \<Rightarrow> u64 \<Rightarrow> regset_x86_64 \<Rightarrow>
    regset_x86_64 option \<Rightarrow> (int \<times> mem \<times> regset_x86_64 option \<times> stack_bounds option) res option" where
  "st_userspace_rewrite_x86_64 checks env fa fb m us tls ret_addr stack_ptr regs dest_regs =
     (case x86_64_handle us of
        Some x \<Rightarrow> bindN (Some (handle_x86_64 x)) (\<lambda>hx.
          userspace_rewrite_internal checks env fa fb m tls stack_ptr (Some (regs\<lparr>x86_rip := ret_addr\<rparr>))
            dest_regs (Some hx) (Some hx))
      | None \<Rightarrow> Some (Inr (1, m, dest_regs, tls)))"

section \<open>The two halves\<close>

text \<open>
  For a stack whose upper half starts below its end, the stack pointer is below the base of the
  half in use, and the half the rewrite builds in (\<open>half_low\<close> to its base) is disjoint from it.
\<close>

definition half_low :: "stack_bounds \<Rightarrow> u64 \<Rightarrow> u64" where
  "half_low b base = (if base = high b then low b + B_STACK_OFFSET else low b)"

lemma B_STACK_OFFSET_pos: "(0::u64) < B_STACK_OFFSET"
  by (simp add: B_STACK_OFFSET_def)

lemma halves_disjoint:
  assumes "low b < low b + B_STACK_OFFSET" and "low b + B_STACK_OFFSET < high b"
    and "low b \<le> p" and "p < high b" and "rewrite_halves b p = (cur, new)"
  shows "half_low b cur \<le> p \<and> p < cur \<and> half_low b new < new
    \<and> {half_low b cur..<cur} \<inter> {half_low b new..<new} = {}"
proof (cases "low b + B_STACK_OFFSET \<le> p")
  case True
  then show ?thesis using assms by (auto simp: rewrite_halves_def half_low_def Let_def split: if_splits)
next
  case False
  then show ?thesis using assms by (auto simp: rewrite_halves_def half_low_def Let_def split: if_splits)
qed

text \<open>After the rewrite the roles are exchanged: from the new half the next rewrite goes back.\<close>

lemma halves_swap:
  assumes "low b + B_STACK_OFFSET < high b" and "rewrite_halves b p = (cur, new)"
    and "half_low b new \<le> q" and "q < new"
  shows "rewrite_halves b q = (new, cur)"
  using assms by (auto simp: rewrite_halves_def half_low_def Let_def split: if_splits)

section \<open>Bounds of the stacks\<close>

lemma thread_stack_size:
  assumes "get_thread_stack (Some (lo, sz)) = (ok, b)"
  shows "ok \<and> high b = lo + sz \<and> high b - low b = MAX_STACK_SIZE"
  using assms by (auto simp: get_thread_stack_def Let_def split: if_splits)

lemma word_round16: "(16::u64) dvd (n::u64) + (if n mod 16 \<noteq> 0 then 16 - n mod 16 else 0)"
proof (cases "n mod 16 = 0")
  case False
  have "n + (16 - n mod 16) = 16 * (n div 16 + 1)"
    using mult_div_mod_eq[of 16 n] by (simp add: algebra_simps)
  then have "16 dvd n + (16 - n mod 16)" by (metis dvd_triv_left)
  then show ?thesis using False by (simp only: if_True not_False_eq_True)
next
  case True
  then have "16 dvd n" using mult_div_mod_eq[of 16 n] by (metis add_0_right dvd_triv_left)
  with True show ?thesis by simp
qed

text \<open>
  The base of the main stack is 16-byte aligned relative to the end of the mapping, and not
  above the frame the program started in when the rounding does not wrap.
\<close>

lemma prep_stack_result:
  assumes "prep_stack checks tls_ok junk maps rlim base = Inr (True, b)"
  obtains cur where "rlim = Some cur" and "low b = high (snd (get_main_stack maps)) - cur"
    and "high b = high (snd (get_main_stack maps)) - (high (snd (get_main_stack maps)) - base
      + (if (high (snd (get_main_stack maps)) - base) mod 16 \<noteq> 0
         then 16 - (high (snd (get_main_stack maps)) - base) mod 16 else 0))"
  using assms by (auto simp: prep_stack_def Let_def ASSERT_def split: prod.splits if_splits option.splits)

lemma prep_stack_aligned:
  assumes "prep_stack checks tls_ok junk maps rlim base = Inr (True, b)"
  shows "16 dvd high (snd (get_main_stack maps)) - high b"
proof -
  have cancel: "x - (x - y) = y" for x y :: u64 by simp
  show ?thesis by (rule prep_stack_result[OF assms]) (simp only: cancel word_round16)
qed

text \<open>Without a limit (\<open>RLIM_INFINITY\<close>) the computed bounds are empty: every stack pointer is rejected.\<close>

lemma prep_stack_unlimited:
  assumes "prep_stack checks tls_ok junk maps (Some (- 1)) base = Inr (True, b)"
    and "high b \<le> high (snd (get_main_stack maps))" and "high (snd (get_main_stack maps)) < - 1"
  shows "p < low b \<or> high b \<le> p"
proof (rule prep_stack_result[OF assms(1)])
  fix cur assume "Some (- 1) = Some cur" and "low b = high (snd (get_main_stack maps)) - cur"
  then have "low b = high (snd (get_main_stack maps)) - (- 1)" by simp
  then have "low b = high (snd (get_main_stack maps)) + 1" by simp
  moreover have "high (snd (get_main_stack maps)) < high (snd (get_main_stack maps)) + 1"
    using assms(3) by (simp add: not_le [symmetric] inc_less_eq_iff)
  ultimately show ?thesis using assms(2) by (cases "p < low b") auto
qed

text \<open>In the lower half the interval reported to the application is empty.\<close>

lemma get_stack_bounds_lower_empty:
  assumes "get_stack_bounds checks env (Some b) p = Inr (r, tls)" and "p < low b + B_STACK_OFFSET"
  shows "low r = high r"
  using assms by (auto simp: get_stack_bounds_def Let_def)

lemma get_stack_bounds_upper:
  assumes "low b + B_STACK_OFFSET \<le> p" and "p < high b"
  shows "\<exists>r. get_stack_bounds checks env (Some b) p = Inr (r, Some b) \<and> low r \<le> p \<and> p < high r"
  using assms by (auto simp: get_stack_bounds_def Let_def)

section \<open>Rejected requests\<close>

lemma rewrite_rejects_null:
  assumes "p = 0 \<or> regs = None \<or> dest = None \<or> ha = None \<or> hb = None"
  shows "userspace_rewrite_internal checks env fa fb m tls p regs dest ha hb = Some (Inr (1, m, dest, tls))"
  using assms by (auto simp: userspace_rewrite_internal_def)

lemma rewrite_rejects_foreign_sp:
  assumes "p < low b \<or> high b \<le> p"
  shows "userspace_rewrite_internal checks env fa fb m (Some b) p regs dest ha hb = Some (Inr (1, m, dest, Some b))"
  using assms by (auto simp: userspace_rewrite_internal_def bindN_def)

section \<open>Resources of the constructor and the destructor\<close>

definition leaked :: "raw_handle option \<Rightarrow> bool \<Rightarrow> nat" where
  "leaked h al = (if h = None \<and> al then 1 else 0)"

lemma st_init_outcome:
  "st_init env fn rs = (h, rs') \<Longrightarrow> rs' = (if h = None then rs
     else rs\<lparr>r_allocs := r_allocs rs + 1, r_fds := r_fds rs + 1, r_elfs := r_elfs rs + 1\<rparr>)"
  by (auto simp: st_init_def Let_def split: option.splits if_splits)

definition acquire :: "raw_handle option \<Rightarrow> bool \<Rightarrow> resources \<Rightarrow> resources" where
  "acquire h al rs = rs\<lparr>r_allocs := r_allocs rs + (if h = None then 0 else 1) + (if al then 1 else 0),
     r_fds := r_fds rs + (if h = None then 0 else 1), r_elfs := r_elfs rs + (if h = None then 0 else 1)\<rparr>"

lemma acquire_init:
  "st_init env fn rs = (h, rs') \<Longrightarrow> (if al then rs'\<lparr>r_allocs := r_allocs rs' + 1\<rparr> else rs') = acquire h al rs"
  by (drule st_init_outcome) (simp add: acquire_def)

lemma destroy_acquire:
  "destroy_one h' al' (destroy_one h al (acquire h' al' (acquire h al rs)))
     = rs\<lparr>r_allocs := r_allocs rs + leaked h al + leaked h' al'\<rparr>"
  by (cases h; cases h'; cases al; cases al') (simp_all add: destroy_one_def st_destroy_def leaked_def acquire_def Let_def)

text \<open>
  Constructor and destructor balance, except that an allocated name stays allocated when its
  binary could not be opened.
\<close>

lemma userspace_ctor_dtor:
  assumes "st_userspace_ctor checks tls_ok junk maps rlim base elf_ok getenv progname files us = Inr us'"
    and new: "aarch64_handle us = None" "x86_64_handle us = None" "\<not> alloc_aarch64_fn us" "\<not> alloc_x86_64_fn us"
  shows "us_resources (st_userspace_dtor us') = (us_resources us)\<lparr>r_allocs := r_allocs (us_resources us)
    + leaked (aarch64_handle us') (alloc_aarch64_fn us') + leaked (x86_64_handle us') (alloc_x86_64_fn us')\<rparr>"
proof -
  obtain ok b where prep: "prep_stack checks tls_ok junk maps rlim base = Inr (ok, b)"
    using assms(1) by (auto simp: st_userspace_ctor_def bindE_def split: sum.splits)
  obtain f sym al where p1: "pick_fn (getenv ''ST_AARCH64_BIN'') (aarch64_fn us) progname ''_aarch64'' = (f, sym, al)"
    by (metis prod_cases3)
  obtain h rs where i1: "st_init (files f) (Some f) (us_resources us) = (h, rs)" by fastforce
  obtain f' sym' al' where p2: "pick_fn (getenv ''ST_X86_64_BIN'') (x86_64_fn us) progname ''_x86-64'' = (f', sym', al')"
    by (metis prod_cases3)
  obtain h' rs' where i2: "st_init (files f') (Some f') (acquire h al (us_resources us)) = (h', rs')" by fastforce
  show ?thesis
  proof (cases "ok \<and> elf_ok")
    case True
    then have "us_resources us' = acquire h' al' (acquire h al (us_resources us)) \<and> aarch64_handle us' = h
      \<and> x86_64_handle us' = h' \<and> alloc_aarch64_fn us' = al \<and> alloc_x86_64_fn us' = al'"
      using assms(1) new
      by (auto simp: st_userspace_ctor_def prep p1 p2 i1 i2 Let_def acquire_init[OF i1] acquire_init[OF i2] simp del: if_split)
    then show ?thesis by (simp add: st_userspace_dtor_def destroy_acquire)
  next
    case False
    then have "us_resources us' = us_resources us \<and> aarch64_handle us' = None
      \<and> x86_64_handle us' = None \<and> \<not> alloc_aarch64_fn us' \<and> \<not> alloc_x86_64_fn us'"
      using assms(1) new by (cases ok) (auto simp: st_userspace_ctor_def prep Let_def)
    then show ?thesis by (simp add: st_userspace_dtor_def destroy_one_def leaked_def)
  qed
qed

text \<open>With \<open>RLIM_INFINITY\<close> as the stack limit the bounds are empty and every rewrite is refused.\<close>

lemma unlimited_stack_is_rejected:
  assumes "prep_stack checks tls_ok junk maps (Some (- 1)) base = Inr (True, b)"
    and "high b \<le> high (snd (get_main_stack maps))" and "high (snd (get_main_stack maps)) < - 1"
  shows "userspace_rewrite_internal checks env fa fb m (Some b) p regs dest ha hb = Some (Inr (1, m, dest, Some b))"
  by (rule rewrite_rejects_foreign_sp) (rule prep_stack_unlimited[OF assms])

end
