(* ===== verification/Stackmap.thy ===== *)
theory Stackmap
  imports Elf_File
begin

text \<open>
  Parsing of LLVM's stack map section, \<open>tool/stack_metadata/src/stackmap.c\<close>. Positions are offsets
  into the section's data; \<open>base\<close> is the address the data is loaded at, which the alignment of
  each record refers to. A read outside the data is undefined behaviour. The pointers to the
  arrays inside the section are the arrays they point to, read when the pointer is set.
\<close>

section \<open>Structures\<close>

record function_record =
  func_addr :: u64
  fr_stack_size :: u64
  fr_num_unwind :: u32
  fr_unwind_offset :: u32

record live_out_record =
  lo_regnum :: u16
  lo_reserved :: u8
  lo_size :: u8

record call_site_record =
  csr_id :: u64
  func_idx :: u32
  csr_offset :: u32
  csr_reserved :: u16
  num_locations :: u16
  locations :: "live_value list"
  num_live_outs :: u16
  live_outs :: "live_out_record list"
  csr_num_arch_live :: u16
  arch_live :: "arch_live_value list"

record stack_map_section =
  sm_version :: u8
  num_functions :: u32
  num_constants :: u32
  num_records :: u32
  function_records :: "function_record list"
  constants :: "u64 list"
  call_sites :: "call_site_record list"

definition dec_function_record :: "u8 list \<Rightarrow> function_record" where
  "dec_function_record bs = \<lparr>func_addr = field bs 0 8, fr_stack_size = field bs 8 8,
     fr_num_unwind = field bs 16 4, fr_unwind_offset = field bs 20 4\<rparr>"

definition enc_live_out :: "live_out_record \<Rightarrow> u8 list" where
  "enc_live_out r = le_bytes 2 (lo_regnum r) @ [lo_reserved r, lo_size r]"

definition dec_live_out :: "u8 list \<Rightarrow> live_out_record" where
  "dec_live_out bs = \<lparr>lo_regnum = field bs 0 2, lo_reserved = bs ! 2, lo_size = bs ! 3\<rparr>"

section \<open>Reading\<close>

definition slice :: "u8 list \<Rightarrow> nat \<Rightarrow> nat \<Rightarrow> u8 list res" where
  "slice bs p n = (if p + n \<le> length bs then Inr (take n (drop p bs)) else Inl (UB Out_of_bounds))"

definition read16 :: "u8 list \<Rightarrow> nat \<Rightarrow> u16 res" where
  "read16 bs p = bindE (slice bs p 2) (\<lambda>b. Inr (le_word b))"

definition align8 :: "nat \<Rightarrow> nat \<Rightarrow> nat" where
  "align8 base p = (if (base + p) mod 8 \<noteq> 0 then p + (8 - (base + p) mod 8) else p)"

primrec records_end :: "nat \<Rightarrow> u8 list \<Rightarrow> nat \<Rightarrow> nat \<Rightarrow> nat res" where
  "records_end base bs p 0 = Inr p"
| "records_end base bs p (Suc k) =
     (let p1 = p + 18 in
      bindE (read16 bs p1) (\<lambda>n1. let p2 = p1 + 4 + 12 * unat n1 in
      bindE (read16 bs p2) (\<lambda>n2. let p3 = p2 + 4 + 4 * unat n2 in
      bindE (read16 bs p3) (\<lambda>n3. let p4 = p3 + 2 + 20 * unat n3 in
        records_end base bs (align8 base p4) k))))"

definition stackmap_records_size :: "nat \<Rightarrow> u8 list \<Rightarrow> nat \<Rightarrow> nat \<Rightarrow> nat res" where
  "stackmap_records_size base bs p num_recs =
     bindE (records_end base bs p num_recs) (\<lambda>q. Inr (q - p))"

definition read_record :: "nat \<Rightarrow> u8 list \<Rightarrow> nat \<Rightarrow> (call_site_record \<times> nat) res" where
  "read_record base bs p =
     bindE (slice bs p 18) (\<lambda>hdr. let p1 = p + 18 in
     bindE (read16 bs p1) (\<lambda>n1. let p2 = p1 + 2 in
     bindE (slice bs p2 (12 * unat n1)) (\<lambda>locs. let p3 = p2 + 12 * unat n1 + 2 in
     bindE (read16 bs p3) (\<lambda>n2. let p4 = p3 + 2 in
     bindE (slice bs p4 (4 * unat n2)) (\<lambda>outs. let p5 = p4 + 4 * unat n2 + 2 in
     bindE (read16 bs p5) (\<lambda>n3. let p6 = p5 + 2 in
     bindE (slice bs p6 (20 * unat n3)) (\<lambda>archs. let p7 = p6 + 20 * unat n3 in
       Inr (\<lparr>csr_id = field hdr 0 8, func_idx = field hdr 8 4, csr_offset = field hdr 12 4,
           csr_reserved = field hdr 16 2,
           num_locations = n1, locations = dec_table 12 dec_live_value locs,
           num_live_outs = n2, live_outs = dec_table 4 dec_live_out outs,
           csr_num_arch_live = n3, arch_live = dec_table 20 dec_arch_live_value archs\<rparr>,
         align8 base p7))))))))"

primrec read_stackmap_records :: "nat \<Rightarrow> u8 list \<Rightarrow> nat \<Rightarrow> nat \<Rightarrow> (call_site_record list \<times> nat) res" where
  "read_stackmap_records base bs p 0 = Inr ([], p)"
| "read_stackmap_records base bs p (Suc k) =
     bindE (read_record base bs p) (\<lambda>(r, q).
     bindE (read_stackmap_records base bs q k) (\<lambda>(rs, q'). Inr (r # rs, q')))"

text \<open>The first pass of \<open>init_stackmap\<close>: the number of sections from offset \<open>p\<close> to \<open>sh_size\<close>.\<close>

definition section_end :: "nat \<Rightarrow> u8 list \<Rightarrow> nat \<Rightarrow> nat res" where
  "section_end base bs p =
     bindE (slice bs p 16) (\<lambda>hdr.
     let p1 = p + 16 + 24 * unat (field hdr 4 4 :: u32) + 8 * unat (field hdr 8 4 :: u32) in
     bindE (stackmap_records_size base bs p1 (unat (field hdr 12 4 :: u32))) (\<lambda>n. Inr (p1 + n)))"

lemma align8_ge: "p \<le> align8 base p"
  by (simp add: align8_def less_imp_le)

lemma records_end_ge: "records_end base bs p k = Inr q \<Longrightarrow> p \<le> q"
proof (induction k arbitrary: p)
  case (Suc k)
  then show ?case
    by (auto simp: Let_def res_simps dest!: Suc.IH intro: order_trans[OF _ align8_ge] dest: order_trans[OF align8_ge])
qed simp

lemma section_end_gt: "section_end base bs p = Inr q \<Longrightarrow> p < q"
  by (auto simp: section_end_def stackmap_records_size_def Let_def res_simps dest!: records_end_ge)

function count_sections :: "nat \<Rightarrow> u8 list \<Rightarrow> nat \<Rightarrow> nat \<Rightarrow> nat res" where
  "count_sections base bs sh_size p =
     (if p < sh_size then
        bindE (section_end base bs p) (\<lambda>q.
        bindE (count_sections base bs sh_size q) (\<lambda>n. Inr (n + 1)))
      else Inr 0)"
  by pat_completeness auto
termination
  by (relation "measure (\<lambda>(base, bs, sh_size, p). sh_size - p)") (auto dest: section_end_gt)

declare count_sections.simps [simp del]

text \<open>The second pass: one section, and \<open>num_sm\<close> of them.\<close>

definition read_map_section :: "nat \<Rightarrow> u8 list \<Rightarrow> nat \<Rightarrow> (stack_map_section \<times> nat) res" where
  "read_map_section base bs p =
     bindE (slice bs p 16) (\<lambda>hdr.
     let nf = field hdr 4 4 :: u32; nc = field hdr 8 4 :: u32; nr = field hdr 12 4 :: u32;
         p1 = p + 16; p2 = p1 + 24 * unat nf; p3 = p2 + 8 * unat nc in
     bindE (slice bs p1 (24 * unat nf)) (\<lambda>fs.
     bindE (slice bs p2 (8 * unat nc)) (\<lambda>cs.
     bindE (read_stackmap_records base bs p3 (unat nr)) (\<lambda>(rs, q).
       Inr (\<lparr>sm_version = hdr ! 0, num_functions = nf, num_constants = nc, num_records = nr,
         function_records = dec_table 24 dec_function_record fs,
         constants = dec_table 8 le_word cs, call_sites = rs\<rparr>, q)))))"

primrec read_sections :: "nat \<Rightarrow> u8 list \<Rightarrow> nat \<Rightarrow> nat \<Rightarrow> stack_map_section list res" where
  "read_sections base bs p 0 = Inr []"
| "read_sections base bs p (Suc k) =
     bindE (read_map_section base bs p) (\<lambda>(s, q).
     bindE (read_sections base bs q k) (\<lambda>ss. Inr (s # ss)))"

datatype tool_error = Ret ret_t | Tool_UB ub_kind | Tool_other

definition lift_ub :: "'a res \<Rightarrow> tool_error + 'a" where
  "lift_ub r = (case r of Inr x \<Rightarrow> Inr x | Inl (UB u) \<Rightarrow> Inl (Tool_UB u) | Inl _ \<Rightarrow> Inl Tool_other)"

lemma lift_ub_eq_Inr [simp]: "lift_ub r = Inr x \<longleftrightarrow> r = Inr x"
  by (auto simp: lift_ub_def split: sum.splits st_error.splits)

definition LLVM_STACKMAP_SECTION :: string where "LLVM_STACKMAP_SECTION = ''.llvm_stackmaps''"

definition init_stackmap :: "nat \<Rightarrow> bin option \<Rightarrow> tool_error + stack_map_section list" where
  "init_stackmap base b =
     (case b of None \<Rightarrow> Inl (Ret INVALID_ARGUMENT)
      | Some b \<Rightarrow>
          (case get_section_by_name (b_elf b) LLVM_STACKMAP_SECTION of
             None \<Rightarrow> Inl (Ret FIND_SECTION_FAILED)
           | Some i \<Rightarrow>
               let s = e_secs (b_elf b) ! i in
               if \<not> s_hdr_ok s then Inl (Ret READ_ELF_FAILED)
               else if get_num_data_blocks s \<noteq> 1 then Inl (Ret READ_ELF_FAILED)
               else
                 let bs = hd (s_blocks s) in
                 bindE (lift_ub (count_sections base bs (unat (s_size s)) 0)) (\<lambda>num_sm.
                   lift_ub (read_sections base bs 0 num_sm))))"

section \<open>The two passes agree\<close>

lemma read16_bound: "read16 bs p = Inr w \<Longrightarrow> p + 2 \<le> length bs"
  by (auto simp: read16_def slice_def res_simps split: if_splits)

lemma align8_aligned: "(base + align8 base p) mod 8 = 0"
proof (cases "(base + p) mod 8 = 0")
  case False
  have "(base + p) mod 8 < 8" by simp
  then have "base + (p + (8 - (base + p) mod 8)) = 8 * ((base + p) div 8 + 1)"
    using mult_div_mod_eq[of 8 "base + p"] by arith
  then show ?thesis using False by (simp add: align8_def)
qed (simp add: align8_def)

lemma records_end_read:
  "read_stackmap_records base bs p k = Inr (rs, q) \<Longrightarrow> records_end base bs p k = Inr q \<and> length rs = k \<and> p + 18 * k \<le> q"
proof (induction k arbitrary: p rs q)
  case (Suc k)
  from Suc.prems obtain r q1 rs1 where 1: "read_record base bs p = Inr (r, q1)"
    "read_stackmap_records base bs q1 k = Inr (rs1, q)" "rs = r # rs1"
    by (auto simp: res_simps)
  from 1(1) obtain n1 n2 n3 where n: "read16 bs (p + 18) = Inr n1"
    "read16 bs (p + 18 + 4 + 12 * unat n1) = Inr n2"
    "read16 bs (p + 18 + 4 + 12 * unat n1 + 4 + 4 * unat n2) = Inr n3"
    "q1 = align8 base (p + 18 + 4 + 12 * unat n1 + 4 + 4 * unat n2 + 2 + 20 * unat n3)"
    by (auto simp: read_record_def Let_def res_simps algebra_simps)
  have "p + 18 \<le> q1" unfolding n(4) by (rule order_trans[OF _ align8_ge]) simp
  moreover have "records_end base bs p (Suc k) = records_end base bs q1 k"
    using n by (simp add: Let_def add.assoc)
  ultimately show ?case using Suc.IH[OF 1(2)] 1(3) by simp
qed simp

lemma read_map_section_end:
  assumes "read_map_section base bs p = Inr (s, q)"
  shows "section_end base bs p = Inr q \<and> p < q"
proof -
  from assms obtain hdr rs where h: "slice bs p 16 = Inr hdr"
    "read_stackmap_records base bs (p + 16 + 24 * unat (field hdr 4 4 :: u32) + 8 * unat (field hdr 8 4 :: u32))
      (unat (field hdr 12 4 :: u32)) = Inr (rs, q)"
    by (auto simp: read_map_section_def Let_def res_simps)
  from records_end_read[OF h(2)] h(1) show ?thesis
    by (auto simp: section_end_def stackmap_records_size_def Let_def)
qed

section \<open>Parsing is the inverse of printing\<close>

text \<open>The bytes of a record at position \<open>p\<close>, with the padding that aligns the next one.\<close>

definition enc_record :: "nat \<Rightarrow> nat \<Rightarrow> call_site_record \<Rightarrow> u8 list" where
  "enc_record base p r =
     (let body = le_bytes 8 (csr_id r) @ le_bytes 4 (func_idx r) @ le_bytes 4 (csr_offset r) @
            le_bytes 2 (csr_reserved r) @
            le_bytes 2 (num_locations r) @ enc_table enc_live_value (locations r) @ [0, 0] @
            le_bytes 2 (num_live_outs r) @ enc_table enc_live_out (live_outs r) @ [0, 0] @
            le_bytes 2 (csr_num_arch_live r) @ enc_table enc_arch_live_value (arch_live r) in
      body @ replicate (align8 base (p + length body) - (p + length body)) 0)"

primrec enc_records :: "nat \<Rightarrow> nat \<Rightarrow> call_site_record list \<Rightarrow> u8 list" where
  "enc_records base p [] = []"
| "enc_records base p (r # rs) =
     (let b = enc_record base p r in b @ enc_records base (p + length b) rs)"

definition record_wf :: "call_site_record \<Rightarrow> bool" where
  "record_wf r \<longleftrightarrow> unat (num_locations r) = length (locations r) \<and> (\<forall>v\<in>set (locations r). live_value_wf v) \<and>
     unat (num_live_outs r) = length (live_outs r) \<and>
     unat (csr_num_arch_live r) = length (arch_live r) \<and> (\<forall>v\<in>set (arch_live r). arch_live_value_wf v)"

lemma slice_at: "length pre = p \<Longrightarrow> length xs = n \<Longrightarrow> slice (pre @ xs @ post) p n = Inr xs"
  by (simp add: slice_def)

lemma read16_at: "length pre = p \<Longrightarrow> read16 (pre @ le_bytes 2 w @ post) p = Inr w"
  by (simp add: read16_def slice_at le_word_le_bytes)

lemma live_out_roundtrip: "dec_live_out (enc_live_out r) = r" "length (enc_live_out r) = 4"
  by (simp_all add: dec_live_out_def enc_live_out_def layout_simps)

lemma live_table:
  assumes "\<forall>v\<in>set vs. live_value_wf v"
  shows "dec_table 12 dec_live_value (enc_table enc_live_value vs) = vs"
  using assms by (intro dec_enc_table) (simp_all add: live_value_roundtrip length_enc_live_value)

lemma live_out_table: "dec_table 4 dec_live_out (enc_table enc_live_out vs) = vs"
  by (intro dec_enc_table) (simp_all add: live_out_roundtrip)

lemma arch_table:
  assumes "\<forall>v\<in>set vs. arch_live_value_wf v"
  shows "dec_table 20 dec_arch_live_value (enc_table enc_arch_live_value vs) = vs"
  using assms by (intro dec_enc_table) (simp_all add: arch_live_value_roundtrip length_enc_arch_live_value)

lemma read_record_enc:
  assumes "record_wf r" and "length pre = p"
  shows "read_record base (pre @ enc_record base p r @ post) p = Inr (r, p + length (enc_record base p r))"
proof -
  let ?h = "le_bytes 8 (csr_id r) @ le_bytes 4 (func_idx r) @ le_bytes 4 (csr_offset r) @ le_bytes 2 (csr_reserved r)"
  let ?l = "enc_table enc_live_value (locations r)" and ?o = "enc_table enc_live_out (live_outs r)"
    and ?a = "enc_table enc_arch_live_value (arch_live r)"
  let ?n1 = "le_bytes 2 (num_locations r)" and ?n2 = "le_bytes 2 (num_live_outs r)"
    and ?n3 = "le_bytes 2 (csr_num_arch_live r)"
  have len: "length ?l = 12 * unat (num_locations r)" "length ?o = 4 * unat (num_live_outs r)"
    "length ?a = 20 * unat (csr_num_arch_live r)"
    using assms(1) length_enc_table[of "locations r" enc_live_value 12]
      length_enc_table[of "live_outs r" enc_live_out 4] length_enc_table[of "arch_live r" enc_arch_live_value 20]
    by (simp_all add: record_wf_def length_enc_live_value live_out_roundtrip length_enc_arch_live_value)
  define e where "e = p + 28 + length ?l + length ?o + length ?a"
  define tl where "tl = replicate (align8 base e - e) (0 :: u8) @ post"
  have bs: "pre @ enc_record base p r @ post = pre @ ?h @ ?n1 @ ?l @ [0, 0] @ ?n2 @ ?o @ [0, 0] @ ?n3 @ ?a @ tl"
    by (simp add: enc_record_def Let_def tl_def e_def add.assoc)
  have fin: "p + length (enc_record base p r) = align8 base e"
    using align8_ge[of e base] by (simp add: enc_record_def Let_def e_def add.assoc)
  let ?bs = "pre @ ?h @ ?n1 @ ?l @ [0, 0] @ ?n2 @ ?o @ [0, 0] @ ?n3 @ ?a @ tl"
  have s1: "slice ?bs p 18 = Inr ?h" using assms(2) by (intro slice_at) simp_all
  have s2: "read16 ?bs (p + 18) = Inr (num_locations r)"
    using read16_at[of "pre @ ?h" "p + 18" "num_locations r"] assms(2) by simp
  have s3: "slice ?bs (p + 20) (12 * unat (num_locations r)) = Inr ?l"
    using slice_at[of "pre @ ?h @ ?n1" "p + 20" ?l] assms(2) len by simp
  have s4: "read16 ?bs (p + 22 + length ?l) = Inr (num_live_outs r)"
    using read16_at[of "pre @ ?h @ ?n1 @ ?l @ [0, 0]" "p + 22 + length ?l" "num_live_outs r"] assms(2) by simp
  have s5: "slice ?bs (p + 24 + length ?l) (4 * unat (num_live_outs r)) = Inr ?o"
    using slice_at[of "pre @ ?h @ ?n1 @ ?l @ [0, 0] @ ?n2" "p + 24 + length ?l" ?o] assms(2) len by simp
  have s6: "read16 ?bs (p + 26 + length ?l + length ?o) = Inr (csr_num_arch_live r)"
    using read16_at[of "pre @ ?h @ ?n1 @ ?l @ [0, 0] @ ?n2 @ ?o @ [0, 0]" "p + 26 + length ?l + length ?o"
        "csr_num_arch_live r"] assms(2) by simp
  have s7: "slice ?bs (p + 28 + length ?l + length ?o) (20 * unat (csr_num_arch_live r)) = Inr ?a"
    using slice_at[of "pre @ ?h @ ?n1 @ ?l @ [0, 0] @ ?n2 @ ?o @ [0, 0] @ ?n3" "p + 28 + length ?l + length ?o" ?a]
      assms(2) len by simp
  note s = s1 s2 s3 s4[unfolded len] s5[unfolded len] s6[unfolded len] s7[unfolded len]
  have tables: "dec_table 12 dec_live_value ?l = locations r" "dec_table 4 dec_live_out ?o = live_outs r"
    "dec_table 20 dec_arch_live_value ?a = arch_live r"
    using assms(1) live_table live_out_table arch_table by (auto simp: record_wf_def)
  have hdr: "field ?h 0 8 = csr_id r" "field ?h 8 4 = func_idx r" "field ?h 12 4 = csr_offset r"
    "field ?h 16 2 = csr_reserved r"
    by (simp_all add: layout_simps)
  show ?thesis
    unfolding bs fin e_def len
    using s tables hdr
    by (simp add: read_record_def Let_def add.assoc[symmetric] add.commute[of _ p] del: append_assoc)
qed

lemma read_records_enc:
  "\<forall>r\<in>set rs. record_wf r \<Longrightarrow> length pre = p \<Longrightarrow>
    read_stackmap_records base (pre @ enc_records base p rs @ post) p (length rs) =
      Inr (rs, p + length (enc_records base p rs))"
proof (induction rs arbitrary: pre p)
  case (Cons r rs)
  let ?b = "enc_record base p r"
  have "read_record base (pre @ ?b @ enc_records base (p + length ?b) rs @ post) p = Inr (r, p + length ?b)"
    using Cons.prems by (intro read_record_enc) auto
  moreover have "read_stackmap_records base ((pre @ ?b) @ enc_records base (p + length ?b) rs @ post)
      (p + length ?b) (length rs) =
      Inr (rs, p + length ?b + length (enc_records base (p + length ?b) rs))"
    using Cons.prems by (intro Cons.IH) auto
  ultimately show ?case by (simp add: Let_def)
qed simp

section \<open>What the parser returns is well formed\<close>

text \<open>A section whose arrays have the lengths its counts announce, with well-formed records.\<close>

definition map_section_wf :: "stack_map_section \<Rightarrow> bool" where
  "map_section_wf s \<longleftrightarrow> length (function_records s) = unat (num_functions s) \<and>
     length (constants s) = unat (num_constants s) \<and> length (call_sites s) = unat (num_records s) \<and>
     (\<forall>r\<in>set (call_sites s). record_wf r)"

lemma slice_length: "slice bs p n = Inr xs \<Longrightarrow> length xs = n"
  by (auto simp: slice_def split: if_splits)

lemma read_record_wf:
  assumes "read_record base bs p = Inr (r, q)"
  shows "record_wf r"
proof -
  from assms obtain n1 n2 n3 locs outs archs where
    "slice bs (p + 20) (12 * unat n1) = Inr locs" "num_locations r = n1" "locations r = dec_table 12 dec_live_value locs"
    "slice bs (p + 24 + 12 * unat n1) (4 * unat n2) = Inr outs" "num_live_outs r = n2" "live_outs r = dec_table 4 dec_live_out outs"
    "slice bs (p + 28 + 12 * unat n1 + 4 * unat n2) (20 * unat n3) = Inr archs" "csr_num_arch_live r = n3"
    "arch_live r = dec_table 20 dec_arch_live_value archs"
    by (auto simp: read_record_def Let_def res_simps algebra_simps)
  then show ?thesis
    by (simp add: record_wf_def length_dec_table dec_live_value_wf dec_arch_live_value_wf slice_length)
qed

lemma read_stackmap_records_wf: "read_stackmap_records base bs p k = Inr (rs, q) \<Longrightarrow> \<forall>r\<in>set rs. record_wf r"
  by (induction k arbitrary: p rs) (fastforce simp: res_simps dest: read_record_wf)+

lemma read_map_section_wf: "read_map_section base bs p = Inr (s, q) \<Longrightarrow> map_section_wf s"
  by (auto simp: read_map_section_def Let_def res_simps map_section_wf_def length_dec_table
      dest!: slice_length dest: records_end_read read_stackmap_records_wf)

lemma read_sections_wf: "read_sections base bs p k = Inr ss \<Longrightarrow> length ss = k \<and> (\<forall>s\<in>set ss. map_section_wf s)"
  by (induction k arbitrary: p ss) (fastforce simp: res_simps dest: read_map_section_wf)+

lemma init_stackmap_wf: "init_stackmap base b = Inr ss \<Longrightarrow> \<forall>s\<in>set ss. map_section_wf s"
  by (auto simp: init_stackmap_def Let_def res_simps split: option.splits if_splits dest: read_sections_wf)

text \<open>Whole sections: the header, the two tables and the records.\<close>

definition enc_function_record :: "function_record \<Rightarrow> u8 list" where
  "enc_function_record r = le_bytes 8 (func_addr r) @ le_bytes 8 (fr_stack_size r) @
     le_bytes 4 (fr_num_unwind r) @ le_bytes 4 (fr_unwind_offset r)"

definition enc_map_section :: "nat \<Rightarrow> nat \<Rightarrow> stack_map_section \<Rightarrow> u8 list" where
  "enc_map_section base p s =
     [sm_version s, 0, 0, 0] @ le_bytes 4 (num_functions s) @ le_bytes 4 (num_constants s) @ le_bytes 4 (num_records s) @
     enc_table enc_function_record (function_records s) @ enc_table (le_bytes 8) (constants s) @
     enc_records base (p + 16 + 24 * unat (num_functions s) + 8 * unat (num_constants s)) (call_sites s)"

primrec enc_sections :: "nat \<Rightarrow> nat \<Rightarrow> stack_map_section list \<Rightarrow> u8 list" where
  "enc_sections base p [] = []"
| "enc_sections base p (s # ss) =
     (let b = enc_map_section base p s in b @ enc_sections base (p + length b) ss)"

lemma function_record_roundtrip: "dec_function_record (enc_function_record r) = r" "length (enc_function_record r) = 24"
  by (simp_all add: dec_function_record_def enc_function_record_def layout_simps)

lemma section_tables:
  "dec_table 24 dec_function_record (enc_table enc_function_record fs) = fs"
  "length (enc_table enc_function_record fs) = 24 * length fs"
  "dec_table 8 le_word (enc_table (le_bytes 8) cs) = (cs :: u64 list)"
  "length (enc_table (le_bytes 8) (cs :: u64 list)) = 8 * length cs"
  by (intro dec_enc_table length_enc_table; simp add: function_record_roundtrip le_word_le_bytes)+

lemma read_map_section_enc:
  assumes "map_section_wf s" and "length pre = p"
  shows "read_map_section base (pre @ enc_map_section base p s @ post) p = Inr (s, p + length (enc_map_section base p s))"
proof -
  let ?h = "[sm_version s, 0, 0, 0] @ le_bytes 4 (num_functions s) @ le_bytes 4 (num_constants s) @ le_bytes 4 (num_records s)"
  let ?f = "enc_table enc_function_record (function_records s)" and ?c = "enc_table (le_bytes 8) (constants s)"
  let ?p3 = "p + 16 + 24 * unat (num_functions s) + 8 * unat (num_constants s)"
  let ?r = "enc_records base ?p3 (call_sites s)"
  let ?bs = "pre @ ?h @ ?f @ ?c @ ?r @ post"
  have wf: "length (function_records s) = unat (num_functions s)" "length (constants s) = unat (num_constants s)"
    "length (call_sites s) = unat (num_records s)" "\<forall>r\<in>set (call_sites s). record_wf r"
    using assms(1) by (auto simp: map_section_wf_def)
  have bs: "pre @ enc_map_section base p s @ post = ?bs" by (simp add: enc_map_section_def)
  have s1: "slice ?bs p 16 = Inr ?h" using assms(2) by (intro slice_at) simp_all
  have s2: "slice ?bs (p + 16) (24 * unat (num_functions s)) = Inr ?f"
    using slice_at[of "pre @ ?h" "p + 16" ?f] assms(2) wf(1) section_tables(2) by simp
  have s3: "slice ?bs (p + 16 + 24 * unat (num_functions s)) (8 * unat (num_constants s)) = Inr ?c"
    using slice_at[of "pre @ ?h @ ?f" "p + 16 + 24 * unat (num_functions s)" ?c] assms(2) wf section_tables by simp
  have s4: "read_stackmap_records base ?bs ?p3 (unat (num_records s)) = Inr (call_sites s, ?p3 + length ?r)"
    using read_records_enc[of "call_sites s" "pre @ ?h @ ?f @ ?c" ?p3 base post] assms(2) wf section_tables by simp
  have hdr: "field ?h 4 4 = num_functions s" "field ?h 8 4 = num_constants s" "field ?h 12 4 = num_records s" "?h ! 0 = sm_version s"
    by (simp_all add: layout_simps)
  have fin: "p + length (enc_map_section base p s) = ?p3 + length ?r"
    using wf(1,2) section_tables by (simp add: enc_map_section_def)
  have "read_map_section base ?bs p = Inr (s, ?p3 + length ?r)"
    unfolding read_map_section_def s1 bindE_Inr hdr Let_def s2 s3 s4 section_tables by simp
  then show ?thesis unfolding bs fin .
qed

lemma length_enc_map_section: "0 < length (enc_map_section base p s)"
  by (simp add: enc_map_section_def)

text \<open>Both passes of \<open>init_stackmap\<close> over the sections printed from offset \<open>p\<close> to the end of the data.\<close>

lemma sections_enc:
  assumes "\<forall>s\<in>set ss. map_section_wf s" and "length pre = p"
  shows "read_sections base (pre @ enc_sections base p ss) p (length ss) = Inr ss \<and>
    count_sections base (pre @ enc_sections base p ss) (p + length (enc_sections base p ss)) p = Inr (length ss)"
  using assms
proof (induction ss arbitrary: pre p)
  case Nil
  then show ?case by (simp add: count_sections.simps)
next
  case (Cons s ss)
  let ?b = "enc_map_section base p s" and ?t = "enc_sections base (p + length (enc_map_section base p s)) ss"
  have r: "read_map_section base (pre @ ?b @ ?t) p = Inr (s, p + length ?b)"
    using Cons.prems by (intro read_map_section_enc) auto
  have i: "read_sections base ((pre @ ?b) @ ?t) (p + length ?b) (length ss) = Inr ss"
    "count_sections base ((pre @ ?b) @ ?t) (p + length ?b + length ?t) (p + length ?b) = Inr (length ss)"
    using Cons.IH[of "pre @ ?b" "p + length ?b"] Cons.prems by simp_all
  have "count_sections base (pre @ ?b @ ?t) (p + length ?b + length ?t) p = Inr (Suc (length ss))"
    using i(2) read_map_section_end[OF r] length_enc_map_section[of base p s] by (subst count_sections.simps) simp
  with r i(1) show ?case by (simp add: Let_def add.assoc)
qed

text \<open>An ELF file whose stack map section holds \<open>bs\<close>.\<close>

definition stackmap_data :: "bin \<Rightarrow> u8 list \<Rightarrow> bool" where
  "stackmap_data b bs \<longleftrightarrow> (case get_section_by_name (b_elf b) LLVM_STACKMAP_SECTION of None \<Rightarrow> False
     | Some i \<Rightarrow> let s = e_secs (b_elf b) ! i in s_hdr_ok s \<and> s_blocks s = [bs] \<and> unat (s_size s) = length bs)"

lemma init_stackmap_enc:
  assumes "stackmap_data b (enc_sections base 0 ss)" and "\<forall>s\<in>set ss. map_section_wf s"
  shows "init_stackmap base (Some b) = Inr ss"
  using assms sections_enc[of ss "[]" 0 base]
  by (auto simp: stackmap_data_def init_stackmap_def Let_def get_num_data_blocks_def lift_ub_def split: option.splits)


end
