(* ===== verification/Write_Metadata.thy ===== *)
theory Write_Metadata
  imports Stackmap "HOL-Library.Multiset"
begin

text \<open>
  Generation of the stack transformation sections, \<open>tool/stack_metadata/src/write.c\<close> and the driver
  of \<open>main.c\<close>: numbering the call sites, laying their live values out in one table, sorting the
  site table by ID and by address, and adding the sections to the binary. \<open>qsort\<close> is modelled by
  the stable sort of its keys; the theorems use only that the result is a sorted permutation.
\<close>

section \<open>Unwinding records\<close>

definition cfa_correction :: "u16 \<Rightarrow> u64 \<Rightarrow> u64" where
  "cfa_correction arch sz = (if arch = EM_X86_64 then sz + 8 else sz)"

text \<open>The tool's own search for the function of an address; the runtime has a copy of it.\<close>

definition get_func_unwind_data :: "u64 \<Rightarrow> u64 \<Rightarrow> unwind_addr list \<Rightarrow> unwind_addr option res" where
  "get_func_unwind_data addr num addrs = unwind_search addrs num addr 0 (last_index num)"

text \<open>Running offsets into the unwinding section: 64-bit sums stored in 32-bit fields.\<close>

primrec assign_offsets :: "u64 \<Rightarrow> unwind_addr list \<Rightarrow> unwind_addr list" where
  "assign_offsets cur [] = []"
| "assign_offsets cur (u # us) =
     u\<lparr>ua_unwind_offset := ucast cur\<rparr> # assign_offsets (cur + ucast (ua_num_unwind u)) us"

definition update_function_addr :: "bin \<Rightarrow> string \<Rightarrow> tool_error + bin" where
  "update_function_addr b sec =
     (case get_section_by_name (b_elf b) sec of
        None \<Rightarrow> Inl (Ret FIND_SECTION_FAILED)
      | Some i \<Rightarrow>
          let s = e_secs (b_elf b) ! i in
          if \<not> s_hdr_ok s then Inl (Ret READ_ELF_FAILED)
          else if s_size s = 0 \<or> s_entsize s = 0 then Inl (Ret INVALID_METADATA)
          else (case get_section_data (Some s) of
              None \<Rightarrow> Inl (Ret READ_ELF_FAILED)
            | Some d \<Rightarrow>
                let num_recs = unat (s_size s div s_entsize s); ua = dec_table 16 dec_unwind_addr d in
                if length ua < num_recs then Inl (Tool_UB Out_of_bounds)
                else
                  let sorted_ua = sort_key ua_addr (assign_offsets 0 (take num_recs ua)) in
                  (case update_section (b_elf b) (Some i) num_recs (unat (s_entsize s))
                      (Some (enc_table enc_unwind_addr (sorted_ua @ drop num_recs ua))) of
                    (SUCCESS, e) \<Rightarrow> Inr (b\<lparr>b_elf := e\<rparr>)
                  | (r, e) \<Rightarrow> Inl (Ret r))))"

section \<open>Call site records\<close>

text \<open>The IDs of starting functions and of the migration call, kept as they are.\<close>

definition special_id :: "u64 \<Rightarrow> bool" where
  "special_id i \<longleftrightarrow> i = UINT64_MAX \<or> i = UINT64_MAX - 1 \<or> i = UINT64_MAX - 2"

record gen_state =
  next_id :: u64
  out_sites :: "call_site list"
  out_live :: "live_value list"
  out_arch :: "arch_live_value list"

text \<open>
  One record. The number of values copied is the count of the record; the field \<open>padding\<close> of the
  new site is not set by the source, its contents are \<open>junk\<close>.
\<close>

definition gen_site :: "u16 \<Rightarrow> u16 \<Rightarrow> u64 \<Rightarrow> unwind_addr list \<Rightarrow> function_record list \<Rightarrow> gen_state \<Rightarrow>
    call_site_record \<Rightarrow> (tool_error + gen_state)" where
  "gen_site junk arch num_addrs addrs frs st r =
     bindE (lift_ub (array_get frs (unat (func_idx r)))) (\<lambda>fr.
     let (id', next') = (if special_id (csr_id r) then (csr_id r, next_id st) else (next_id st, next_id st + 1));
         addr = func_addr fr + ucast (csr_offset r) in
     bindE (lift_ub (get_func_unwind_data addr num_addrs addrs)) (\<lambda>ua.
     case ua of None \<Rightarrow> Inl (Ret CREATE_METADATA_FAILED)
     | Some ua \<Rightarrow>
       Inr \<lparr>next_id = next',
         out_sites = out_sites st @ [\<lparr>cs_id = id', cs_addr = addr,
           cs_frame_size = ucast (cfa_correction arch (fr_stack_size fr)),
           cs_num_unwind = ucast (fr_num_unwind fr), cs_unwind_offset = ucast (ua_unwind_offset ua),
           cs_num_live = num_locations r, cs_live_offset = of_nat (length (out_live st)),
           cs_num_arch_live = csr_num_arch_live r, cs_arch_live_offset = of_nat (length (out_arch st)),
           cs_padding = junk\<rparr>],
         out_live = out_live st @ locations r,
         out_arch = out_arch st @ arch_live r\<rparr>))"

primrec gen_sites :: "u16 \<Rightarrow> u16 \<Rightarrow> u64 \<Rightarrow> unwind_addr list \<Rightarrow> function_record list \<Rightarrow> gen_state \<Rightarrow>
    call_site_record list \<Rightarrow> (tool_error + gen_state)" where
  "gen_sites junk arch num_addrs addrs frs st [] = Inr st"
| "gen_sites junk arch num_addrs addrs frs st (r # rs) =
     bindE (gen_site junk arch num_addrs addrs frs st r) (\<lambda>st1.
       gen_sites junk arch num_addrs addrs frs st1 rs)"

primrec gen_sections :: "u16 \<Rightarrow> u16 \<Rightarrow> u64 \<Rightarrow> unwind_addr list \<Rightarrow> gen_state \<Rightarrow> stack_map_section list \<Rightarrow>
    (tool_error + gen_state)" where
  "gen_sections junk arch num_addrs addrs st [] = Inr st"
| "gen_sections junk arch num_addrs addrs st (s # ss) =
     bindE (gen_sites junk arch num_addrs addrs (function_records s) st (call_sites s)) (\<lambda>st1.
       gen_sections junk arch num_addrs addrs st1 ss)"

definition create_call_site_metadata :: "u16 \<Rightarrow> bin \<Rightarrow> u64 \<Rightarrow> stack_map_section list \<Rightarrow> u64 \<Rightarrow>
    unwind_addr list option \<Rightarrow> tool_error + (call_site list \<times> live_value list \<times> arch_live_value list)" where
  "create_call_site_metadata junk b start_id sms num_addrs addrs =
     (case addrs of None \<Rightarrow> Inl (Ret CREATE_METADATA_FAILED)
      | Some tab \<Rightarrow>
          bindE (gen_sections junk (b_arch b) num_addrs tab
              \<lparr>next_id = start_id, out_sites = [], out_live = [], out_arch = []\<rparr> sms) (\<lambda>st.
            Inr (out_sites st, out_live st, out_arch st)))"

section \<open>Writing the sections\<close>

text \<open>\<open>snprintf(sec_name, BUF_SIZE, "%s.%s", ..)\<close> keeps at most 511 characters.\<close>

definition sec_name :: "string \<Rightarrow> string \<Rightarrow> string" where
  "sec_name sec post = take (BUF_SIZE - 1) (sec @ ''.'' @ post)"

definition put_section :: "elf \<Rightarrow> string \<Rightarrow> nat \<Rightarrow> nat \<Rightarrow> u8 list \<Rightarrow> tool_error + elf" where
  "put_section e name num entry_size buf =
     (case (case get_section_by_name e name of
              Some i \<Rightarrow> update_section e (Some i) num entry_size (Some buf)
            | None \<Rightarrow> add_section e name num entry_size (Some buf)) of
        (SUCCESS, e1) \<Rightarrow> Inr e1 | (r, e1) \<Rightarrow> Inl (Ret r))"

text \<open>
  The new sections follow the last other section; \<open>elf_getscn\<close> counts from the null section.
\<close>

primrec place_sections :: "u64 \<Rightarrow> scn list \<Rightarrow> scn list \<times> u64" where
  "place_sections off [] = ([], off)"
| "place_sections off (s # ss) =
     (let (ss', off') = place_sections (off + s_size s) ss in (s\<lparr>s_offset := off\<rparr> # ss', off'))"

definition update_offsets :: "elf \<Rightarrow> nat \<Rightarrow> tool_error + elf" where
  "update_offsets e added =
     (let n = length (e_secs e) - added; kept = take n (e_secs e); new = drop n (e_secs e);
          off = (if kept = [] then 0 else s_offset (last kept) + s_size (last kept)) in
      if \<not> (\<forall>s\<in>set new. s_hdr_ok s) \<or> kept \<noteq> [] \<and> \<not> s_hdr_ok (last kept) then Inl (Ret READ_ELF_FAILED)
      else
        let (new', off') = place_sections off new in
        if e_machine e = None then Inl (Ret READ_ELF_FAILED)
        else Inr (e\<lparr>e_secs := kept @ new', e_shoff := off'\<rparr>))"

definition add_sections :: "bool \<Rightarrow> u16 \<Rightarrow> bin \<Rightarrow> stack_map_section list \<Rightarrow> string \<Rightarrow> u64 \<Rightarrow> string \<Rightarrow>
    tool_error + bin" where
  "add_sections written junk b sms sec start_id unwind_sec =
     (case get_section_by_name (b_elf b) unwind_sec of
        None \<Rightarrow> Inl (Ret FIND_SECTION_FAILED)
      | Some i \<Rightarrow>
          let s = e_secs (b_elf b) ! i in
          if \<not> s_hdr_ok s then Inl (Ret READ_ELF_FAILED)
          else if s_size s = 0 \<or> s_entsize s = 0 then Inl (Ret INVALID_METADATA)
          else (case get_section_data (Some s) of
              None \<Rightarrow> Inl (Ret READ_ELF_FAILED)
            | Some d \<Rightarrow>
                bindE (create_call_site_metadata junk b start_id sms (s_size s div s_entsize s)
                    (Some (dec_table 16 dec_unwind_addr d))) (\<lambda>(sites, live, arch).
                let id_sites = sort_key cs_id sites; addr_sites = sort_key cs_addr id_sites;
                    n = length sites in
                bindE (put_section (b_elf b) (sec_name sec ''id'') n 52 (enc_table enc_call_site id_sites)) (\<lambda>e1.
                bindE (put_section e1 (sec_name sec ''addr'') n 52 (enc_table enc_call_site addr_sites)) (\<lambda>e2.
                bindE (put_section e2 (sec_name sec ''live'') (length live) 12 (enc_table enc_live_value live)) (\<lambda>e3.
                bindE (put_section e3 (sec_name sec ''arch_const'') (length arch) 20
                    (enc_table enc_arch_live_value arch)) (\<lambda>e4.
                bindE (update_offsets e4 4) (\<lambda>e5.
                  if written then Inr (b\<lparr>b_elf := e5\<rparr>) else Inl (Ret WRITE_ELF_FAILED)))))))))"

text \<open>
  The driver: a failure of any step makes the program stop with that code; otherwise the
  binary is written and everything is released.
\<close>

definition gen_stackinfo :: "nat \<Rightarrow> bool \<Rightarrow> u16 \<Rightarrow> elf_env \<Rightarrow> string option \<Rightarrow> string \<Rightarrow> u64 \<Rightarrow> resources \<Rightarrow>
    tool_error + (bin \<times> resources)" where
  "gen_stackinfo base written junk env file section_name start_id rs =
     (case file of None \<Rightarrow> Inl (Ret INVALID_ARGUMENT)
      | Some fn \<Rightarrow>
          (case init_elf_bin env (Some fn) rs of
             (Inl r, _) \<Rightarrow> Inl (Ret r)
           | (Inr b, rs1) \<Rightarrow>
               bindE (init_stackmap base (Some b)) (\<lambda>sms.
               bindE (update_function_addr b (sec_name section_name ''unwind_arange'')) (\<lambda>b1.
               bindE (add_sections written junk b1 sms section_name start_id
                   (sec_name section_name ''unwind_arange'')) (\<lambda>b2.
                 Inr (b2, snd (free_elf_bin (Some b2) rs1)))))))"

section \<open>The live values of a site\<close>

definition slice_of :: "'v list \<Rightarrow> nat \<Rightarrow> 'v list \<Rightarrow> bool" where
  "slice_of tab off xs \<longleftrightarrow> off + length xs \<le> length tab \<and> take (length xs) (drop off tab) = xs"

text \<open>
  A site describes a stack map record: its ranges of the two value tables are the values of
  the record, its address and frame size come from the record's function.
\<close>

definition describes :: "u16 \<Rightarrow> function_record list \<Rightarrow> live_value list \<Rightarrow> arch_live_value list \<Rightarrow>
    call_site_record \<Rightarrow> call_site \<Rightarrow> bool" where
  "describes arch frs live archs r site \<longleftrightarrow>
     slice_of live (unat (cs_live_offset site)) (locations r) \<and> unat (cs_num_live site) = length (locations r) \<and>
     slice_of archs (unat (cs_arch_live_offset site)) (arch_live r) \<and>
     unat (cs_num_arch_live site) = length (arch_live r) \<and>
     unat (func_idx r) < length frs \<and>
     cs_addr site = func_addr (frs ! unat (func_idx r)) + ucast (csr_offset r) \<and>
     cs_frame_size site = ucast (cfa_correction arch (fr_stack_size (frs ! unat (func_idx r))))"

lemma slice_of_append: "slice_of tab off xs \<Longrightarrow> slice_of (tab @ ys) off xs"
  by (auto simp: slice_of_def)

lemma slice_of_here: "slice_of (tab @ xs @ ys) (length tab) xs"
  by (auto simp: slice_of_def)

lemma slice_of_nth:
  assumes "slice_of tab off xs" and "i < length xs"
  shows "off + i < length tab \<and> tab ! (off + i) = xs ! i"
proof -
  have "xs = take (length xs) (drop off tab)" "off + length xs \<le> length tab"
    using assms(1) by (simp_all add: slice_of_def)
  moreover have "take (length xs) (drop off tab) ! i = drop off tab ! i" by (rule nth_take[OF assms(2)])
  moreover have "drop off tab ! i = tab ! (off + i)" using calculation(2) by (intro nth_drop) simp
  ultimately show ?thesis using assms(2) by simp
qed

lemma describes_append:
  "describes arch frs live archs r site \<Longrightarrow> describes arch frs (live @ l) (archs @ a) r site"
  by (auto simp: describes_def slice_of_append)

text \<open>The IDs handed out: consecutive numbers, except for the special ones.\<close>

fun id_seq :: "u64 \<Rightarrow> u64 list \<Rightarrow> u64 list" where
  "id_seq k [] = []"
| "id_seq k (i # is) = (if special_id i then i # id_seq k is else k # id_seq (k + 1) is)"

fun next_seq :: "u64 \<Rightarrow> u64 list \<Rightarrow> u64" where
  "next_seq k [] = k"
| "next_seq k (i # is) = next_seq (if special_id i then k else k + 1) is"

lemma gen_site_step:
  assumes "gen_site junk arch na addrs frs st r = Inr st'" and "record_wf r"
    and "length (out_live st) < 2 ^ 64" and "length (out_arch st) < 2 ^ 64"
  shows "\<exists>site. out_sites st' = out_sites st @ [site] \<and> out_live st' = out_live st @ locations r \<and>
    out_arch st' = out_arch st @ arch_live r \<and>
    describes arch frs (out_live st') (out_arch st') r site \<and>
    cs_id site = (if special_id (csr_id r) then csr_id r else next_id st) \<and>
    next_id st' = (if special_id (csr_id r) then next_id st else next_id st + 1)"
proof -
  have o: "unat (of_nat (length (out_live st)) :: u64) = length (out_live st)"
    "unat (of_nat (length (out_arch st)) :: u64) = length (out_arch st)"
    using assms(3,4) by (simp_all only: unat_of_nat_small)
  have sl: "slice_of (out_live st @ locations r) (length (out_live st)) (locations r)"
    "slice_of (out_arch st @ arch_live r) (length (out_arch st)) (arch_live r)"
    using slice_of_here[of _ _ "[]"] by force+
  show ?thesis
    using assms(1,2) o sl
    by (auto simp: gen_site_def Let_def res_simps describes_def record_wf_def split: option.splits if_splits)
qed

lemma gen_sites_law:
  assumes "gen_sites junk arch na addrs frs st rs = Inr st'" and "\<forall>r\<in>set rs. record_wf r"
    and "length (out_live st') < 2 ^ 64" and "length (out_arch st') < 2 ^ 64"
  shows "\<exists>new. out_sites st' = out_sites st @ new \<and>
    out_live st' = out_live st @ concat (map locations rs) \<and>
    out_arch st' = out_arch st @ concat (map arch_live rs) \<and>
    list_all2 (describes arch frs (out_live st') (out_arch st')) rs new \<and>
    map cs_id new = id_seq (next_id st) (map csr_id rs) \<and> next_id st' = next_seq (next_id st) (map csr_id rs)"
  using assms
proof (induction rs arbitrary: st)
  case Nil
  then show ?case by simp
next
  case (Cons r rs)
  obtain st1 where s1: "gen_site junk arch na addrs frs st r = Inr st1"
    "gen_sites junk arch na addrs frs st1 rs = Inr st'"
    using Cons.prems(1) by (auto simp: res_simps)
  obtain new where new: "out_sites st' = out_sites st1 @ new"
    "out_live st' = out_live st1 @ concat (map locations rs)"
    "out_arch st' = out_arch st1 @ concat (map arch_live rs)"
    "list_all2 (describes arch frs (out_live st') (out_arch st')) rs new"
    "map cs_id new = id_seq (next_id st1) (map csr_id rs)" "next_id st' = next_seq (next_id st1) (map csr_id rs)"
    using Cons.IH[OF s1(2)] Cons.prems by auto
  have "length (out_live st) \<le> length (out_live st1)" "length (out_arch st) \<le> length (out_arch st1)"
    using s1(1) by (auto simp: gen_site_def Let_def res_simps split: option.splits if_splits)
  then have "length (out_live st) < 2 ^ 64" "length (out_arch st) < 2 ^ 64"
    using Cons.prems(3,4) new(2,3) by auto
  then obtain site where site: "out_sites st1 = out_sites st @ [site]" "out_live st1 = out_live st @ locations r"
    "out_arch st1 = out_arch st @ arch_live r" "describes arch frs (out_live st1) (out_arch st1) r site"
    "cs_id site = (if special_id (csr_id r) then csr_id r else next_id st)"
    "next_id st1 = (if special_id (csr_id r) then next_id st else next_id st + 1)"
    using gen_site_step[OF s1(1)] Cons.prems(2) by auto
  have "describes arch frs (out_live st') (out_arch st') r site"
    unfolding new(2,3) by (rule describes_append[OF site(4)])
  with site new show ?case by (intro exI[of _ "site # new"]) auto
qed

text \<open>All records of all stack maps, each with the functions of its own map.\<close>

definition all_records :: "stack_map_section list \<Rightarrow> (function_record list \<times> call_site_record) list" where
  "all_records sms = concat (map (\<lambda>s. map (Pair (function_records s)) (call_sites s)) sms)"

lemma id_seq_append: "id_seq k (xs @ ys) = id_seq k xs @ id_seq (next_seq k xs) ys"
  by (induction k xs rule: id_seq.induct) auto

lemma next_seq_append: "next_seq k (xs @ ys) = next_seq (next_seq k xs) ys"
  by (induction k xs rule: next_seq.induct) auto

lemma gen_sections_law:
  assumes "gen_sections junk arch na addrs st sms = Inr st'"
    and "\<forall>s\<in>set sms. \<forall>r\<in>set (call_sites s). record_wf r"
    and "length (out_live st') < 2 ^ 64" and "length (out_arch st') < 2 ^ 64"
  shows "\<exists>new. out_sites st' = out_sites st @ new \<and>
    (\<exists>l. out_live st' = out_live st @ l) \<and> (\<exists>a. out_arch st' = out_arch st @ a) \<and>
    list_all2 (\<lambda>(frs, r). describes arch frs (out_live st') (out_arch st') r) (all_records sms) new \<and>
    map cs_id new = id_seq (next_id st) (map (\<lambda>(frs, r). csr_id r) (all_records sms))"
  using assms
proof (induction sms arbitrary: st)
  case Nil
  then show ?case by (simp add: all_records_def)
next
  case (Cons s sms)
  obtain st1 where s1: "gen_sites junk arch na addrs (function_records s) st (call_sites s) = Inr st1"
    "gen_sections junk arch na addrs st1 sms = Inr st'"
    using Cons.prems(1) by (auto simp: res_simps)
  obtain new l a where new: "out_sites st' = out_sites st1 @ new" "out_live st' = out_live st1 @ l"
    "out_arch st' = out_arch st1 @ a"
    "list_all2 (\<lambda>(frs, r). describes arch frs (out_live st') (out_arch st') r) (all_records sms) new"
    "map cs_id new = id_seq (next_id st1) (map (\<lambda>(frs, r). csr_id r) (all_records sms))"
    using Cons.IH[OF s1(2)] Cons.prems by auto
  have "length (out_live st1) < 2 ^ 64" "length (out_arch st1) < 2 ^ 64"
    using Cons.prems(3,4) new(2,3) by auto
  then obtain new1 where new1: "out_sites st1 = out_sites st @ new1"
    "out_live st1 = out_live st @ concat (map locations (call_sites s))"
    "out_arch st1 = out_arch st @ concat (map arch_live (call_sites s))"
    "list_all2 (describes arch (function_records s) (out_live st1) (out_arch st1)) (call_sites s) new1"
    "map cs_id new1 = id_seq (next_id st) (map csr_id (call_sites s))"
    "next_id st1 = next_seq (next_id st) (map csr_id (call_sites s))"
    using gen_sites_law[OF s1(1)] Cons.prems(2) by auto
  have "list_all2 (describes arch (function_records s) (out_live st') (out_arch st')) (call_sites s) new1"
    unfolding new(2,3) by (rule list_all2_mono[OF new1(4)]) (rule describes_append)
  then have "list_all2 (\<lambda>(frs, r). describes arch frs (out_live st') (out_arch st') r)
      (map (Pair (function_records s)) (call_sites s)) new1"
    by (simp add: list_all2_map1)
  with new1 new show ?case
    by (intro exI[of _ "new1 @ new"])
       (auto simp: all_records_def id_seq_append comp_def intro: list_all2_appendI)
qed

section \<open>The sections are found again\<close>

text \<open>A descriptor whose headers can be read and whose names end inside the string table.\<close>

definition elf_wf :: "elf \<Rightarrow> bool" where
  "elf_wf e \<longleftrightarrow> (case e_shstrtab e of None \<Rightarrow> False
     | Some tab \<Rightarrow> tab \<noteq> [] \<and> last tab = CHR 0x00 \<and> (\<forall>s\<in>set (e_secs e). s_hdr_ok s \<and> s_name s < length tab))"

lemma get_section_eq: "get_section e n = get_section_by_name e n"
  by (simp add: get_section_def get_section_by_name_def)

lemma strptr_append:
  assumes "tab \<noteq> []" and "last tab = CHR 0x00" and "off < length tab"
  shows "strptr (tab @ rest) off = strptr tab off"
proof -
  have "CHR 0x00 \<in> set (drop off tab)"
    using assms by (metis drop_eq_Nil last_drop last_in_set not_le)
  then have "takeWhile (\<lambda>c. c \<noteq> CHR 0x00) (drop off tab @ rest) = takeWhile (\<lambda>c. c \<noteq> CHR 0x00) (drop off tab)"
    by (intro takeWhile_append1) auto
  with assms(3) show ?thesis by (simp add: strptr_def)
qed

lemma strptr_new:
  assumes "CHR 0x00 \<notin> set name" shows "strptr (tab @ name @ [CHR 0x00]) (length tab) = Some name"
  using assms by (auto simp: strptr_def takeWhile_append takeWhile_eq_all_conv)

definition new_section :: "elf \<Rightarrow> nat \<Rightarrow> nat \<Rightarrow> u8 list \<Rightarrow> scn" where
  "new_section e num entry_size buf = \<lparr>s_hdr_ok = True, s_name = length (the (e_shstrtab e)), s_type = SHT_PROGBITS,
     s_offset = 0, s_size = of_nat (entry_size * num), s_entsize = of_nat entry_size, s_blocks = [buf]\<rparr>"

lemma put_section_new:
  assumes wf: "elf_wf e" and fresh: "get_section_by_name e name = None"
    and name: "CHR 0x00 \<notin> set name" "length name \<le> BUF_SIZE"
  obtains e1 where "put_section e name num sz buf = Inr e1" and "elf_wf e1"
    and "e_secs e1 = e_secs e @ [new_section e num sz buf]"
    and "get_section_by_name e1 name = Some (length (e_secs e))"
    and "\<And>n. n \<noteq> name \<Longrightarrow> get_section_by_name e1 n = get_section_by_name e n"
    and "e_machine e1 = e_machine e"
proof -
  obtain tab where tab: "e_shstrtab e = Some tab" "tab \<noteq> []" "last tab = CHR 0x00"
    "\<forall>s\<in>set (e_secs e). s_hdr_ok s \<and> s_name s < length tab"
    using wf by (auto simp: elf_wf_def split: option.splits)
  let ?tab = "tab @ name @ [CHR 0x00]" and ?s = "new_section e num sz buf"
  let ?e1 = "e\<lparr>e_shstrtab := Some ?tab, e_secs := e_secs e @ [?s]\<rparr>"
  have old: "strptr ?tab (s_name s) = strptr tab (s_name s)" if "s \<in> set (e_secs e)" for s
    using that tab by (intro strptr_append) auto
  have new: "strptr ?tab (s_name ?s) = Some name"
    using strptr_new[OF name(1)] tab(1) by (simp add: new_section_def)
  have sc: "scan_secs (\<lambda>s. strptr ?tab (s_name s) = Some n) i (e_secs e) =
      scan_secs (\<lambda>s. strptr tab (s_name s) = Some n) i (e_secs e)" for n i
    by (rule scan_secs_cong) (simp add: old)
  have "put_section e name num sz buf = Inr ?e1"
    using fresh tab name(2) by (simp add: put_section_def add_section_def add_section_name_def new_section_def)
  moreover have "elf_wf ?e1" using tab by (auto simp: elf_wf_def new_section_def)
  moreover have none: "scan_secs (\<lambda>s. strptr tab (s_name s) = Some name) 0 (e_secs e) = None"
    using fresh tab(1) by (simp add: get_section_by_name_def)
  have "get_section_by_name ?e1 name = Some (length (e_secs e))"
    using scan_secs_append[of "e_secs e" "\<lambda>s. strptr ?tab (s_name s) = Some name" 0 "[?s]"] none new tab(4)
    by (simp add: get_section_by_name_def sc new_section_def)
  moreover have "get_section_by_name ?e1 n = get_section_by_name e n" if "n \<noteq> name" for n
  proof (cases "scan_secs (\<lambda>s. strptr tab (s_name s) = Some n) 0 (e_secs e)")
    case None
    then show ?thesis
      using scan_secs_append[of "e_secs e" "\<lambda>s. strptr ?tab (s_name s) = Some n" 0 "[?s]"] new tab(1,4) that
      by (simp add: get_section_by_name_def sc)
  next
    case (Some i)
    then show ?thesis
      using scan_secs_found[of "\<lambda>s. strptr ?tab (s_name s) = Some n" 0 "e_secs e" i "[?s]"] tab(1)
      by (simp add: get_section_by_name_def sc)
  qed
  ultimately show ?thesis by (intro that[of ?e1]) simp_all
qed

text \<open>What the runtime sees of a section: its number of entries and its data.\<close>

definition sec_view :: "elf \<Rightarrow> string \<Rightarrow> u64 \<times> u8 list option" where
  "sec_view e n = (get_num_entries e n, st_get_section_data e n)"

lemma sec_view_cong:
  assumes "get_section_by_name e1 n = get_section_by_name e2 n"
    and "\<And>i. get_section_by_name e2 n = Some i \<Longrightarrow>
      s_hdr_ok (e_secs e1 ! i) = s_hdr_ok (e_secs e2 ! i) \<and> s_size (e_secs e1 ! i) = s_size (e_secs e2 ! i) \<and>
      s_entsize (e_secs e1 ! i) = s_entsize (e_secs e2 ! i) \<and> s_blocks (e_secs e1 ! i) = s_blocks (e_secs e2 ! i)"
  shows "sec_view e1 n = sec_view e2 n"
  using assms by (cases "get_section_by_name e2 n")
    (auto simp: sec_view_def get_num_entries_def st_get_section_data_def get_section_eq Let_def)

lemma get_section_bound: "get_section_by_name e n = Some i \<Longrightarrow> i < length (e_secs e)"
  by (auto simp: get_section_by_name_def dest: scan_secs_bound split: option.splits)

lemma entries_of_size:
  assumes "0 < k" and "k < 2 ^ 64" and "k * n < 2 ^ 64"
  shows "(of_nat (k * n) :: u64) div of_nat k = of_nat n" and "(of_nat k :: u64) \<noteq> 0"
proof -
  have "n \<le> k * n" using assms(1) by simp
  then have n: "n < 2 ^ 64" using assms(3) by (rule le_less_trans)
  have u: "unat (of_nat (k * n) :: u64) = k * n" "unat (of_nat k :: u64) = k" "unat (of_nat n :: u64) = n"
    using assms n by (simp_all only: unat_of_nat_small)
  show "(of_nat k :: u64) \<noteq> 0" using u(2) assms(1) by (metis unat_0 less_irrefl)
  have "unat ((of_nat (k * n) :: u64) div of_nat k) = unat (of_nat n :: u64)"
    using u assms(1) by (simp only: unat_div u) simp
  then show "(of_nat (k * n) :: u64) div of_nat k = of_nat n" by (simp only: word_unat_eq_iff)
qed

lemma put_section_view:
  assumes "elf_wf e" and "get_section_by_name e name = None"
    and "CHR 0x00 \<notin> set name" "length name \<le> BUF_SIZE" and sz: "0 < sz" "sz < 2 ^ 64" "sz * num < 2 ^ 64"
  obtains e1 where "put_section e name num sz buf = Inr e1" and "elf_wf e1"
    and "sec_view e1 name = (of_nat num, Some buf)"
    and "\<And>n. n \<noteq> name \<Longrightarrow> get_section_by_name e1 n = get_section_by_name e n \<and> sec_view e1 n = sec_view e n"
    and "e_machine e1 = e_machine e"
proof -
  obtain e1 where e1: "put_section e name num sz buf = Inr e1" "elf_wf e1"
    "e_secs e1 = e_secs e @ [new_section e num sz buf]"
    "get_section_by_name e1 name = Some (length (e_secs e))"
    "\<And>n. n \<noteq> name \<Longrightarrow> get_section_by_name e1 n = get_section_by_name e n" "e_machine e1 = e_machine e"
    using put_section_new[OF assms(1-4)] by blast
  have "sec_view e1 name = (of_nat num, Some buf)"
    using e1(3,4) entries_of_size[OF sz]
    by (simp add: sec_view_def get_num_entries_def st_get_section_data_def get_section_eq new_section_def
        del: of_nat_mult)
  moreover have "sec_view e1 n = sec_view e n" if "n \<noteq> name" for n
    using e1(3) e1(5)[OF that]
    by (intro sec_view_cong) (auto dest: get_section_bound simp: nth_append)
  ultimately show ?thesis using e1 by (intro that[of e1]) auto
qed

lemma put_section_run:
  assumes "elf_wf e" and "get_section_by_name e name = None"
    and "CHR 0x00 \<notin> set name" "length name \<le> BUF_SIZE" and "0 < sz" "sz < 2 ^ 64" "sz * num < 2 ^ 64"
    and run: "put_section e name num sz buf = Inr e1"
  shows "elf_wf e1" and "sec_view e1 name = (of_nat num, Some buf)"
    and "n \<noteq> name \<Longrightarrow> get_section_by_name e1 n = get_section_by_name e n"
    and "n \<noteq> name \<Longrightarrow> sec_view e1 n = sec_view e n"
proof -
  obtain e2 where "put_section e name num sz buf = Inr e2" "elf_wf e2"
    "sec_view e2 name = (of_nat num, Some buf)"
    "\<And>n. n \<noteq> name \<Longrightarrow> get_section_by_name e2 n = get_section_by_name e n \<and> sec_view e2 n = sec_view e n"
    using put_section_view[OF assms(1-7), of buf] by blast
  with run show "elf_wf e1" "sec_view e1 name = (of_nat num, Some buf)"
    "n \<noteq> name \<Longrightarrow> get_section_by_name e1 n = get_section_by_name e n"
    "n \<noteq> name \<Longrightarrow> sec_view e1 n = sec_view e n"
    by auto
qed

text \<open>Moving sections changes nothing but their offsets.\<close>

definition moved :: "scn \<Rightarrow> scn \<Rightarrow> bool" where
  "moved s s' \<longleftrightarrow> s' = s\<lparr>s_offset := s_offset s'\<rparr>"

lemma place_sections_moved: "list_all2 moved ss (fst (place_sections off ss))"
  by (induction ss arbitrary: off) (simp_all add: moved_def case_prod_unfold Let_def)

lemma moved_fields: "moved s s' \<Longrightarrow> s_hdr_ok s' = s_hdr_ok s \<and> s_name s' = s_name s \<and> s_size s' = s_size s \<and>
    s_entsize s' = s_entsize s \<and> s_blocks s' = s_blocks s"
  by (cases s; cases s') (auto simp: moved_def)

lemma scan_secs_moved:
  "list_all2 moved ss ss' \<Longrightarrow> scan_secs (\<lambda>s. P (s_name s)) i ss' = scan_secs (\<lambda>s. P (s_name s)) i ss"
  by (induction arbitrary: i rule: list_all2_induct) (auto dest: moved_fields)

lemma update_offsets_view:
  assumes "update_offsets e added = Inr e'"
  shows "sec_view e' n = sec_view e n"
proof -
  let ?k = "length (e_secs e) - added"
  obtain off where e': "e_secs e' = take ?k (e_secs e) @ fst (place_sections off (drop ?k (e_secs e)))"
    "e_shstrtab e' = e_shstrtab e"
    using assms by (auto simp: update_offsets_def Let_def case_prod_unfold split: if_splits)
  have "list_all2 moved (take ?k (e_secs e) @ drop ?k (e_secs e)) (e_secs e')"
    unfolding e'(1) by (intro list_all2_appendI place_sections_moved) (simp add: list.rel_refl moved_def)
  then have m: "list_all2 moved (e_secs e) (e_secs e')" by simp
  have g: "get_section_by_name e' n = get_section_by_name e n"
    using scan_secs_moved[OF m, of "\<lambda>k. strptr tab k = Some n" 0 for tab] e'(2)
    by (simp add: get_section_by_name_def split: option.splits)
  show ?thesis
    using g by (rule sec_view_cong) (use m in \<open>auto dest!: get_section_bound moved_fields list_all2_nthD\<close>)
qed

lemma gen_sites_values:
  "gen_sites junk arch na addrs frs st rs = Inr st' \<Longrightarrow>
    out_live st' = out_live st @ concat (map locations rs) \<and> out_arch st' = out_arch st @ concat (map arch_live rs)"
  by (induction rs arbitrary: st)
     (fastforce simp: res_simps gen_site_def Let_def split: option.splits if_splits)+

lemma gen_sections_values:
  "gen_sections junk arch na addrs st sms = Inr st' \<Longrightarrow>
    out_live st' = out_live st @ concat (map (\<lambda>(f, r). locations r) (all_records sms)) \<and>
    out_arch st' = out_arch st @ concat (map (\<lambda>(f, r). arch_live r) (all_records sms))"
  by (induction sms arbitrary: st)
     (fastforce simp: res_simps all_records_def comp_def dest: gen_sites_values)+

lemma concat_length_bound:
  "\<forall>x\<in>set xs. length (f x) < 2 ^ 16 \<Longrightarrow> length xs < 2 ^ 40 \<Longrightarrow> length (concat (map f xs)) < 2 ^ 56"
proof -
  assume a: "\<forall>x\<in>set xs. length (f x) < 2 ^ 16" and b: "length xs < 2 ^ 40"
  have "length (concat (map f xs)) \<le> 2 ^ 16 * length xs"
    using a by (induction xs) (auto intro: add_mono less_imp_le)
  also have "\<dots> < 2 ^ 16 * 2 ^ 40" using b by simp
  finally show ?thesis by simp
qed

lemma record_counts_small:
  assumes "record_wf r" shows "length (locations r) < 2 ^ 16" and "length (arch_live r) < 2 ^ 16"
proof -
  have u: "unat w < 2 ^ 16" for w :: u16
    using unsigned_less[of w, where 'a = nat] by simp
  show "length (locations r) < 2 ^ 16" "length (arch_live r) < 2 ^ 16"
    using assms u[of "num_locations r"] u[of "csr_num_arch_live r"] by (auto simp: record_wf_def)
qed

text \<open>
  The tables of a run on a binary whose stack maps are well formed: the sites describe the
  records in order, with IDs from \<open>start_id\<close> on.
\<close>

definition maps_wf :: "stack_map_section list \<Rightarrow> bool" where
  "maps_wf sms \<longleftrightarrow> (\<forall>(f, r)\<in>set (all_records sms). record_wf r) \<and> length (all_records sms) < 2 ^ 40"

lemma create_metadata_law:
  assumes "create_call_site_metadata junk b start_id sms na addrs = Inr (sites, live, archs)" and "maps_wf sms"
  shows "list_all2 (\<lambda>(frs, r). describes (b_arch b) frs live archs r) (all_records sms) sites"
    and "map cs_id sites = id_seq start_id (map (\<lambda>(frs, r). csr_id r) (all_records sms))"
    and "live = concat (map (\<lambda>(f, r). locations r) (all_records sms))"
    and "archs = concat (map (\<lambda>(f, r). arch_live r) (all_records sms))"
    and "length sites < 2 ^ 40" and "length live < 2 ^ 56" and "length archs < 2 ^ 56"
proof -
  obtain as st where st: "gen_sections junk (b_arch b) na as
      \<lparr>next_id = start_id, out_sites = [], out_live = [], out_arch = []\<rparr> sms = Inr st"
    "sites = out_sites st" "live = out_live st" "archs = out_arch st"
    using assms(1) by (auto simp: create_call_site_metadata_def res_simps split: option.splits)
  have wf: "\<forall>s\<in>set sms. \<forall>r\<in>set (call_sites s). record_wf r"
    using assms(2) by (auto simp: maps_wf_def all_records_def)
  have small: "\<forall>x\<in>set (all_records sms). length (case x of (f, r) \<Rightarrow> locations r) < 2 ^ 16"
    "\<forall>x\<in>set (all_records sms). length (case x of (f, r) \<Rightarrow> arch_live r) < 2 ^ 16"
    using assms(2) record_counts_small by (auto simp: maps_wf_def)
  show live: "live = concat (map (\<lambda>(f, r). locations r) (all_records sms))"
    and archs: "archs = concat (map (\<lambda>(f, r). arch_live r) (all_records sms))"
    using gen_sections_values[OF st(1)] st by simp_all
  show l: "length live < 2 ^ 56" "length archs < 2 ^ 56"
    unfolding live archs
    using concat_length_bound[OF small(1)] concat_length_bound[OF small(2)] assms(2)
    by (simp_all add: maps_wf_def)
  obtain new where "out_sites st = new"
    "list_all2 (\<lambda>(frs, r). describes (b_arch b) frs (out_live st) (out_arch st) r) (all_records sms) new"
    "map cs_id new = id_seq start_id (map (\<lambda>(frs, r). csr_id r) (all_records sms))"
    using gen_sections_law[OF st(1) wf] l st by auto
  then show d: "list_all2 (\<lambda>(frs, r). describes (b_arch b) frs live archs r) (all_records sms) sites"
    and "map cs_id sites = id_seq start_id (map (\<lambda>(frs, r). csr_id r) (all_records sms))"
    using st by auto
  show "length sites < 2 ^ 40" using list_all2_lengthD[OF d] assms(2) by (simp add: maps_wf_def)
qed

section \<open>The runtime reads what the tool wrote\<close>

lemma section_names:
  "sec_name SECTION_PREFIX ''id'' = SECTION_ST_ID" "sec_name SECTION_PREFIX ''addr'' = SECTION_ST_ADDR"
  "sec_name SECTION_PREFIX ''live'' = SECTION_ST_LIVE" "sec_name SECTION_PREFIX ''arch_const'' = SECTION_ST_ARCH_LIVE"
  by (simp_all add: sec_name_def SECTION_PREFIX_def SECTION_ST_ID_def SECTION_ST_ADDR_def SECTION_ST_LIVE_def
      SECTION_ST_ARCH_LIVE_def BUF_SIZE_def)

definition new_names :: "string list" where
  "new_names = [SECTION_ST_ID, SECTION_ST_ADDR, SECTION_ST_LIVE, SECTION_ST_ARCH_LIVE]"

lemma new_names_ok:
  "distinct new_names" "\<forall>n\<in>set new_names. CHR 0x00 \<notin> set n \<and> length n \<le> BUF_SIZE"
  by (simp_all add: new_names_def SECTION_PREFIX_def SECTION_ST_ID_def SECTION_ST_ADDR_def SECTION_ST_LIVE_def
      SECTION_ST_ARCH_LIVE_def BUF_SIZE_def)

lemma add_sections_view:
  assumes wf: "elf_wf (b_elf b)" and fresh: "\<forall>n\<in>set new_names. get_section_by_name (b_elf b) n = None"
    and maps: "maps_wf sms"
    and run: "add_sections written junk b sms SECTION_PREFIX start_id unwind_sec = Inr b'"
  obtains sites live archs na addrs where
    "create_call_site_metadata junk b start_id sms na addrs = Inr (sites, live, archs)"
    "sec_view (b_elf b') SECTION_ST_ID = (of_nat (length sites), Some (enc_table enc_call_site (sort_key cs_id sites)))"
    "sec_view (b_elf b') SECTION_ST_ADDR = (of_nat (length sites),
      Some (enc_table enc_call_site (sort_key cs_addr (sort_key cs_id sites))))"
    "sec_view (b_elf b') SECTION_ST_LIVE = (of_nat (length live), Some (enc_table enc_live_value live))"
    "sec_view (b_elf b') SECTION_ST_ARCH_LIVE = (of_nat (length archs), Some (enc_table enc_arch_live_value archs))"
    "\<forall>n. n \<notin> set new_names \<longrightarrow> sec_view (b_elf b') n = sec_view (b_elf b) n"
proof -
  let ?e = "b_elf b"
  obtain na addrs sites live archs e1 e2 e3 e4 e5 where r:
    "create_call_site_metadata junk b start_id sms na addrs = Inr (sites, live, archs)"
    "put_section ?e SECTION_ST_ID (length sites) 52 (enc_table enc_call_site (sort_key cs_id sites)) = Inr e1"
    "put_section e1 SECTION_ST_ADDR (length sites) 52
      (enc_table enc_call_site (sort_key cs_addr (sort_key cs_id sites))) = Inr e2"
    "put_section e2 SECTION_ST_LIVE (length live) 12 (enc_table enc_live_value live) = Inr e3"
    "put_section e3 SECTION_ST_ARCH_LIVE (length archs) 20 (enc_table enc_arch_live_value archs) = Inr e4"
    "update_offsets e4 4 = Inr e5" "b_elf b' = e5"
    using run
    by (auto simp: add_sections_def section_names Let_def bindE_eq_Inr_iff split: option.splits if_splits)
  note small = create_metadata_law(5-7)[OF r(1) maps]
  have fr: "get_section_by_name ?e SECTION_ST_ID = None" "get_section_by_name ?e SECTION_ST_ADDR = None"
    "get_section_by_name ?e SECTION_ST_LIVE = None" "get_section_by_name ?e SECTION_ST_ARCH_LIVE = None"
    using fresh by (simp_all add: new_names_def)
  have ok: "CHR 0x00 \<notin> set SECTION_ST_ID" "length SECTION_ST_ID \<le> BUF_SIZE"
    "CHR 0x00 \<notin> set SECTION_ST_ADDR" "length SECTION_ST_ADDR \<le> BUF_SIZE"
    "CHR 0x00 \<notin> set SECTION_ST_LIVE" "length SECTION_ST_LIVE \<le> BUF_SIZE"
    "CHR 0x00 \<notin> set SECTION_ST_ARCH_LIVE" "length SECTION_ST_ARCH_LIVE \<le> BUF_SIZE"
    using new_names_ok(2) by (simp_all add: new_names_def)
  have ne: "SECTION_ST_ID \<noteq> SECTION_ST_ADDR" "SECTION_ST_ID \<noteq> SECTION_ST_LIVE" "SECTION_ST_ID \<noteq> SECTION_ST_ARCH_LIVE"
    "SECTION_ST_ADDR \<noteq> SECTION_ST_LIVE" "SECTION_ST_ADDR \<noteq> SECTION_ST_ARCH_LIVE" "SECTION_ST_LIVE \<noteq> SECTION_ST_ARCH_LIVE"
    using new_names_ok(1) by (auto simp: new_names_def)
  note ne' = ne ne[symmetric]
  have b: "52 * length sites < 2 ^ 64" "12 * length live < 2 ^ 64" "20 * length archs < 2 ^ 64"
    using small by simp_all
  note p1 = put_section_run[OF wf fr(1) ok(1,2) _ _ b(1) r(2)]
  have f1: "get_section_by_name e1 SECTION_ST_ADDR = None" using p1(3)[of SECTION_ST_ADDR] ne' fr by simp
  note p2 = put_section_run[OF p1(1) f1 ok(3,4) _ _ b(1) r(3)]
  have f2: "get_section_by_name e2 SECTION_ST_LIVE = None"
    using p1(3)[of SECTION_ST_LIVE] p2(3)[of SECTION_ST_LIVE] ne' fr by simp
  note p3 = put_section_run[OF p2(1) f2 ok(5,6) _ _ b(2) r(4)]
  have f3: "get_section_by_name e3 SECTION_ST_ARCH_LIVE = None"
    using p1(3)[of SECTION_ST_ARCH_LIVE] p2(3)[of SECTION_ST_ARCH_LIVE] p3(3)[of SECTION_ST_ARCH_LIVE] ne' fr by simp
  note p4 = put_section_run[OF p3(1) f3 ok(7,8) _ _ b(3) r(5)]
  note v5 = update_offsets_view[OF r(6)]
  show thesis
  proof (rule that[OF r(1)])
    show "sec_view (b_elf b') SECTION_ST_ID =
        (of_nat (length sites), Some (enc_table enc_call_site (sort_key cs_id sites)))"
      using v5 p1(2) p2(4) p3(4) p4(4) ne' r(7) by simp
    show "sec_view (b_elf b') SECTION_ST_ADDR = (of_nat (length sites),
        Some (enc_table enc_call_site (sort_key cs_addr (sort_key cs_id sites))))"
      using v5 p2(2) p3(4) p4(4) ne' r(7) by simp
    show "sec_view (b_elf b') SECTION_ST_LIVE = (of_nat (length live), Some (enc_table enc_live_value live))"
      using v5 p3(2) p4(4) ne' r(7) by simp
    show "sec_view (b_elf b') SECTION_ST_ARCH_LIVE =
        (of_nat (length archs), Some (enc_table enc_arch_live_value archs))"
      using v5 p4(2) r(7) by simp
    show "\<forall>n. n \<notin> set new_names \<longrightarrow> sec_view (b_elf b') n = sec_view (b_elf b) n"
      using v5 p1(4) p2(4) p3(4) p4(4) r(7) by (simp add: new_names_def)
  qed
qed

lemma call_site_table: "dec_table 52 dec_call_site (enc_table enc_call_site rs) = rs"
  by (intro dec_enc_table) (simp_all add: call_site_roundtrip)

lemma read_section_view:
  "read_section e sec n dec = Some (cnt, rs) \<Longrightarrow> sec_view e sec = (k, Some d) \<Longrightarrow> cnt = k \<and> rs = dec_table n dec d"
  by (auto simp: read_section_def sec_view_def Let_def split: if_splits)

lemma read_optional_section_view:
  "read_optional_section e sec n dec = Some (cnt, rs) \<Longrightarrow> sec_view e sec = (k, Some d) \<Longrightarrow>
    cnt = k \<and> rs = (if 0 < k then dec_table n dec d else [])"
  by (auto simp: read_optional_section_def sec_view_def Let_def split: if_splits)

text \<open>
  The handle the runtime builds from the binary: both site tables are sorted the way their
  searches need, they hold the same sites, and the sites describe the stack map records.
\<close>

lemma bind_SomeE:
  "Option.bind m f = Some y \<Longrightarrow> (\<And>x. m = Some x \<Longrightarrow> f x = Some y \<Longrightarrow> P) \<Longrightarrow> P"
  by (cases m) auto

lemma bind_pair_SomeE:
  "Option.bind m (\<lambda>(a, b). f a b) = Some y \<Longrightarrow> (\<And>a b. m = Some (a, b) \<Longrightarrow> f a b = Some y \<Longrightarrow> P) \<Longrightarrow> P"
  by (cases m) auto

lemma read_handle_sections:
  assumes "read_handle fn e = Some h"
  shows "read_section e SECTION_ST_UNWIND_ADDR 16 dec_unwind_addr = Some (rh_unwind_addr_count h, rh_unwind_addrs h)"
    and "read_section e SECTION_ST_UNWIND 4 dec_unwind_loc = Some (rh_unwind_count h, rh_unwind_locs h)"
    and "read_section e SECTION_ST_ID 52 dec_call_site = Some (rh_sites_count h, rh_sites_id h)"
    and "\<exists>d. st_get_section_data e SECTION_ST_ADDR = Some d \<and> rh_sites_addr h = dec_table 52 dec_call_site d"
    and "read_section e SECTION_ST_LIVE 12 dec_live_value = Some (rh_live_vals_count h, rh_live_vals h)"
    and "read_optional_section e SECTION_ST_ARCH_LIVE 20 dec_arch_live_value =
      Some (rh_arch_live_vals_count h, rh_arch_live_vals h)"
proof -
  obtain arch uac uas uc uls sc ids d lc lvs ac avs t where
    r: "read_section e SECTION_ST_UNWIND_ADDR 16 dec_unwind_addr = Some (uac, uas)"
      "read_section e SECTION_ST_UNWIND 4 dec_unwind_loc = Some (uc, uls)"
      "read_section e SECTION_ST_ID 52 dec_call_site = Some (sc, ids)"
      "st_get_section_data e SECTION_ST_ADDR = Some d"
      "read_section e SECTION_ST_LIVE 12 dec_live_value = Some (lc, lvs)"
      "read_optional_section e SECTION_ST_ARCH_LIVE 20 dec_arch_live_value = Some (ac, avs)"
    and h: "Some \<lparr>rh_fn = fn, rh_arch = arch, rh_ptr_size = (if e_class e = ELFCLASS64 then 8 else 4),
         rh_unwind_addr_count = uac, rh_unwind_addrs = uas, rh_unwind_count = uc, rh_unwind_locs = uls,
         rh_sites_count = sc, rh_sites_id = ids, rh_sites_addr = dec_table 52 dec_call_site d,
         rh_live_vals_count = lc, rh_live_vals = lvs,
         rh_arch_live_vals_count = ac, rh_arch_live_vals = avs, rh_table = t\<rparr> = Some h"
    using assms unfolding read_handle_def Let_def
    by (elim bind_pair_SomeE bind_SomeE)
  note h' = h[unfolded option.inject, symmetric]
  show "read_section e SECTION_ST_UNWIND_ADDR 16 dec_unwind_addr = Some (rh_unwind_addr_count h, rh_unwind_addrs h)"
    "read_section e SECTION_ST_UNWIND 4 dec_unwind_loc = Some (rh_unwind_count h, rh_unwind_locs h)"
    "read_section e SECTION_ST_ID 52 dec_call_site = Some (rh_sites_count h, rh_sites_id h)"
    "\<exists>d. st_get_section_data e SECTION_ST_ADDR = Some d \<and> rh_sites_addr h = dec_table 52 dec_call_site d"
    "read_section e SECTION_ST_LIVE 12 dec_live_value = Some (rh_live_vals_count h, rh_live_vals h)"
    "read_optional_section e SECTION_ST_ARCH_LIVE 20 dec_arch_live_value =
      Some (rh_arch_live_vals_count h, rh_arch_live_vals h)"
    by (simp_all only: h' raw_handle.simps r option.inject ex_simps simp_thms)
qed

lemma handle_of_tool_output:
  assumes wf: "elf_wf (b_elf b)" and fresh: "\<forall>n\<in>set new_names. get_section_by_name (b_elf b) n = None"
    and maps: "maps_wf sms"
    and run: "add_sections written junk b sms SECTION_PREFIX start_id unwind_sec = Inr b'"
    and h: "read_handle fn (b_elf b') = Some h"
  shows "sites_id_wf (attach ops props h)" and "sites_addr_wf (attach ops props h)"
    and "\<exists>sites. mset (rh_sites_id h) = mset sites \<and> mset (rh_sites_addr h) = mset sites \<and>
      list_all2 (\<lambda>(frs, r). describes (b_arch b) frs (rh_live_vals h) (rh_arch_live_vals h) r) (all_records sms) sites \<and>
      map cs_id sites = id_seq start_id (map (\<lambda>(frs, r). csr_id r) (all_records sms))"
    and "n \<notin> set new_names \<Longrightarrow> sec_view (b_elf b') n = sec_view (b_elf b) n"
proof -
  obtain sites live archs na addrs where v:
    "create_call_site_metadata junk b start_id sms na addrs = Inr (sites, live, archs)"
    "sec_view (b_elf b') SECTION_ST_ID = (of_nat (length sites), Some (enc_table enc_call_site (sort_key cs_id sites)))"
    "sec_view (b_elf b') SECTION_ST_ADDR = (of_nat (length sites),
      Some (enc_table enc_call_site (sort_key cs_addr (sort_key cs_id sites))))"
    "sec_view (b_elf b') SECTION_ST_LIVE = (of_nat (length live), Some (enc_table enc_live_value live))"
    "sec_view (b_elf b') SECTION_ST_ARCH_LIVE = (of_nat (length archs), Some (enc_table enc_arch_live_value archs))"
    "\<forall>n. n \<notin> set new_names \<longrightarrow> sec_view (b_elf b') n = sec_view (b_elf b) n"
    by (rule add_sections_view[OF wf fresh maps run])
  note law = create_metadata_law[OF v(1) maps]
  note r = read_handle_sections[OF h]
  have ids: "rh_sites_count h = of_nat (length sites)" "rh_sites_id h = sort_key cs_id sites"
    using read_section_view[OF r(3) v(2)] by (simp_all add: call_site_table)
  have addrs: "rh_sites_addr h = sort_key cs_addr (sort_key cs_id sites)"
    using r(4) v(3) by (auto simp: sec_view_def call_site_table)
  have lwf: "\<forall>x\<in>set live. live_value_wf x" "\<forall>x\<in>set archs. arch_live_value_wf x"
    using maps unfolding law(3,4) by (auto simp: maps_wf_def record_wf_def)
  have live: "rh_live_vals h = live"
    using read_section_view[OF r(5) v(4)] live_table[OF lwf(1)] by simp
  have "unat (of_nat (length archs) :: u64) = length archs" using law(7) by (intro unat_of_nat_small) simp
  then have "(0 :: u64) < of_nat (length archs) \<longleftrightarrow> archs \<noteq> []"
    by (metis length_greater_0_conv unat_0 word_less_nat_alt)
  then have archs: "rh_arch_live_vals h = archs"
    using read_optional_section_view[OF r(6) v(5)] arch_table[OF lwf(2)] by auto
  have "unat (of_nat (length sites) :: u64) = length sites" using law(5) by (intro unat_of_nat_small) simp
  then have c: "counts (rh_sites_count h) (rh_sites_id h)" "counts (rh_sites_count h) (rh_sites_addr h)"
    using law(5) by (simp_all add: counts_def ids addrs)
  then show "sites_id_wf (attach ops props h)" "sites_addr_wf (attach ops props h)"
    by (simp_all add: sites_id_wf_def sites_addr_wf_def attach_def ids addrs)
  show "\<exists>sites. mset (rh_sites_id h) = mset sites \<and> mset (rh_sites_addr h) = mset sites \<and>
      list_all2 (\<lambda>(frs, r). describes (b_arch b) frs (rh_live_vals h) (rh_arch_live_vals h) r) (all_records sms) sites \<and>
      map cs_id sites = id_seq start_id (map (\<lambda>(frs, r). csr_id r) (all_records sms))"
    using law(1,2) by (intro exI[of _ sites]) (simp add: ids addrs live archs)
  show "n \<notin> set new_names \<Longrightarrow> sec_view (b_elf b') n = sec_view (b_elf b) n" using v(6) by blast
qed

section \<open>The unwinding ranges\<close>

text \<open>
  Each function's records start where those of the functions before it, in the order of the
  linked object files, end. Only the offset is assigned.
\<close>

lemma assign_offsets_length [simp]: "length (assign_offsets cur us) = length us"
  by (induction us arbitrary: cur) simp_all

lemma assign_offsets_nth:
  "i < length us \<Longrightarrow> assign_offsets cur us ! i = (us ! i)\<lparr>ua_unwind_offset :=
     ucast (cur + sum_list (map (\<lambda>u. ucast (ua_num_unwind u)) (take i us)))\<rparr>"
proof (induction us arbitrary: cur i)
  case (Cons u us)
  then show ?case by (cases i) (simp_all add: add.assoc)
qed simp

lemma assign_offsets_addrs: "map ua_addr (assign_offsets cur us) = map ua_addr us"
  by (induction us arbitrary: cur) simp_all

lemma unwind_addr_table: "dec_table 16 dec_unwind_addr (enc_table enc_unwind_addr rs) = rs"
  by (intro dec_enc_table) (simp_all add: unwind_addr_roundtrip)

lemma update_function_addr_law:
  assumes sec: "get_section_by_name (b_elf b) sec = Some i"
    and s: "s_blocks (e_secs (b_elf b) ! i) = [enc_table enc_unwind_addr us]"
      "s_size (e_secs (b_elf b) ! i) = of_nat (16 * length us)" "s_entsize (e_secs (b_elf b) ! i) = 16"
      "s_hdr_ok (e_secs (b_elf b) ! i)"
    and us: "us \<noteq> []" "16 * length us < 2 ^ 64"
  shows "\<exists>b'. update_function_addr b sec = Inr b' \<and>
    sec_view (b_elf b') sec = (of_nat (length us), Some (enc_table enc_unwind_addr (sort_key ua_addr (assign_offsets 0 us))))"
proof -
  let ?e = "b_elf b" and ?tab = "enc_table enc_unwind_addr (sort_key ua_addr (assign_offsets 0 us))"
  have i: "i < length (e_secs ?e)" by (rule get_section_bound[OF sec])
  have n: "unat (of_nat (16 * length us) :: u64) = 16 * length us" using us(2) by (rule unat_of_nat_small)
  have q: "(of_nat (16 * length us) :: u64) div 16 = of_nat (length us)"
    using entries_of_size(1)[of 16 "length us", OF _ _ us(2)] by simp
  have l: "unat (of_nat (length us) :: u64) = length us" using us(2) by (intro unat_of_nat_small) simp
  have nz: "(of_nat (16 * length us) :: u64) \<noteq> 0" using n us(1) by (metis length_0_conv mult_eq_0_iff unat_0 zero_neq_numeral)
  let ?s' = "(e_secs ?e ! i)\<lparr>s_blocks := [?tab], s_size := of_nat (16 * length us)\<rparr>"
  let ?e' = "?e\<lparr>e_secs := (e_secs ?e)[i := ?s']\<rparr>"
  have run: "update_function_addr b sec = Inr (b\<lparr>b_elf := ?e'\<rparr>)"
    using sec s nz q l us
    by (simp add: update_function_addr_def Let_def get_section_data_def get_num_data_blocks_def update_section_def
        unwind_addr_table del: of_nat_mult)
  have "get_section_by_name ?e' sec = Some i"
    using sec i by (auto simp: get_section_by_name_def scan_secs_update split: option.splits)
  then have "sec_view ?e' sec = (of_nat (length us), Some ?tab)"
    using i s q by (simp add: sec_view_def get_num_entries_def st_get_section_data_def get_section_eq del: of_nat_mult)
  with run show ?thesis by simp
qed

lemma sorted_ranges:
  assumes "distinct (map ua_addr us)"
  shows "sorted_wrt (<) (map ua_addr (sort_key ua_addr (assign_offsets cur us)))"
proof -
  have "mset (map ua_addr (sort_key ua_addr (assign_offsets cur us))) = mset (map ua_addr us)"
    by (simp flip: assign_offsets_addrs[of cur us])
  then have "distinct (map ua_addr (sort_key ua_addr (assign_offsets cur us)))"
    using assms by (metis distinct_count_atmost_1 set_mset_mset)
  then show ?thesis by (simp add: strict_sorted_iff)
qed

end
