(* ===== verification/Tool_Run.thy ===== *)
theory Tool_Run
  imports Write_Metadata
begin

text \<open>
  A run of \<open>gen-stackinfo\<close> from end to end: \<open>main\<close> of \<open>tool/stack_metadata/src/main.c\<close> parses the stack
  maps, sorts the unwinding ranges and adds the call site sections, and \<open>st_init\<close> of the runtime
  opens the result. The parser's output is well formed and no larger than its input, sorting
  the ranges keeps every section where it is, and the new sections leave the old ones as they were;
  so the handle satisfies the invariants of all three searches, with no assumption on the contents
  of the stack maps.
\<close>

section \<open>The parser reads no more than the data\<close>

lemma align8_le: "align8 base p \<le> p + 7"
  by (simp add: align8_def) linarith

lemma slice_bound: "slice bs p n = Inr xs \<Longrightarrow> p + n \<le> length bs"
  by (auto simp: slice_def split: if_splits)

lemma read_record_bound:
  assumes "read_record base bs p = Inr (r, q)" shows "q \<le> length bs + 7"
proof -
  from assms obtain n1 n2 n3 archs where r:
    "slice bs (p + 28 + 12 * unat (n1 :: u16) + 4 * unat (n2 :: u16)) (20 * unat (n3 :: u16)) = Inr archs"
    "q = align8 base (p + 28 + 12 * unat n1 + 4 * unat n2 + 20 * unat n3)"
    by (auto simp: read_record_def Let_def res_simps algebra_simps)
  show ?thesis
    unfolding r(2) using slice_bound[OF r(1)] by (intro order_trans[OF align8_le]) simp
qed

lemma read_stackmap_records_bound:
  "read_stackmap_records base bs p k = Inr (rs, q) \<Longrightarrow> p \<le> length bs + 7 \<Longrightarrow> q \<le> length bs + 7"
  by (induction k arbitrary: p rs) (auto simp: res_simps dest: read_record_bound)

lemma read_map_section_bound:
  assumes "read_map_section base bs p = Inr (s, q)"
  shows "p + 16 + 18 * length (call_sites s) \<le> q" and "q \<le> length bs + 7"
proof -
  from assms obtain p2 n k xs where r: "slice bs p2 n = Inr xs" "p + 16 \<le> p2 + n"
    "read_stackmap_records base bs (p2 + n) k = Inr (call_sites s, q)"
    by (auto simp: read_map_section_def Let_def res_simps)
  from records_end_read[OF r(3)] r(2) show "p + 16 + 18 * length (call_sites s) \<le> q" by simp
  show "q \<le> length bs + 7" using read_stackmap_records_bound[OF r(3)] slice_bound[OF r(1)] by simp
qed

lemma read_sections_bound:
  "read_sections base bs p k = Inr ss \<Longrightarrow> p \<le> length bs + 7 \<Longrightarrow> p + 18 * length (all_records ss) \<le> length bs + 7"
proof (induction k arbitrary: p ss)
  case (Suc k)
  from Suc.prems(1) obtain s q ss' where r: "read_map_section base bs p = Inr (s, q)"
    "read_sections base bs q k = Inr ss'" "ss = s # ss'"
    by (auto simp: res_simps)
  from Suc.IH[OF r(2)] read_map_section_bound[OF r(1)] r(3) show ?case by (simp add: all_records_def)
qed (simp add: all_records_def)

text \<open>Files whose data blocks have less than 1 TiB.\<close>

definition blocks_small :: "elf \<Rightarrow> bool" where
  "blocks_small e \<longleftrightarrow> (\<forall>s\<in>set (e_secs e). \<forall>d\<in>set (s_blocks s). length d < 2 ^ 40)"

lemma init_stackmap_maps_wf:
  assumes "init_stackmap base (Some b) = Inr sms" and "blocks_small (b_elf b)"
  shows "maps_wf sms"
proof -
  obtain i n where i: "get_section_by_name (b_elf b) LLVM_STACKMAP_SECTION = Some i"
    "length (s_blocks (e_secs (b_elf b) ! i)) = 1" "read_sections base (hd (s_blocks (e_secs (b_elf b) ! i))) 0 n = Inr sms"
    using assms(1) by (auto simp: init_stackmap_def Let_def bindE_eq_Inr_iff get_num_data_blocks_def split: option.splits if_splits)
  have "hd (s_blocks (e_secs (b_elf b) ! i)) \<in> set (s_blocks (e_secs (b_elf b) ! i))"
    using i(2) by (intro hd_in_set) auto
  with assms(2) get_section_bound[OF i(1)] have "length (hd (s_blocks (e_secs (b_elf b) ! i))) < 2 ^ 40"
    by (auto simp: blocks_small_def)
  with read_sections_bound[OF i(3)] have "length (all_records sms) < 2 ^ 40" by simp
  with read_sections_wf[OF i(3)] show ?thesis by (auto simp: maps_wf_def all_records_def map_section_wf_def)
qed

section \<open>Sorting the ranges keeps the other sections\<close>

lemma update_function_addr_keeps:
  assumes "update_function_addr b sec = Inr b'"
  shows "get_section_by_name (b_elf b') n = get_section_by_name (b_elf b) n" and "b_arch b' = b_arch b"
    and "elf_wf (b_elf b) \<Longrightarrow> elf_wf (b_elf b')"
proof -
  obtain i s' where b': "b' = b\<lparr>b_elf := (b_elf b)\<lparr>e_secs := (e_secs (b_elf b))[i := s']\<rparr>\<rparr>"
    "get_section_by_name (b_elf b) sec = Some i"
    "s_hdr_ok s' = s_hdr_ok (e_secs (b_elf b) ! i)" "s_name s' = s_name (e_secs (b_elf b) ! i)"
    using assms
    by (auto simp: update_function_addr_def update_section_def Let_def split: option.splits if_splits list.splits prod.splits ret_t.splits)
  have i: "i < length (e_secs (b_elf b))" by (rule get_section_bound[OF b'(2)])
  show "get_section_by_name (b_elf b') n = get_section_by_name (b_elf b) n"
    using b' i by (auto simp: get_section_by_name_def scan_secs_update split: option.splits)
  show "b_arch b' = b_arch b" using b'(1) by simp
  show "elf_wf (b_elf b')" if "elf_wf (b_elf b)"
    using that b' i by (auto simp: elf_wf_def split: option.splits dest!: set_update_subset_insert[THEN subsetD])
qed

section \<open>The whole run\<close>

lemma gen_stackinfo_steps:
  assumes "gen_stackinfo base written junk env (Some fn) pre start_id rs = Inr (b', rs')" and "fl_begin env = Some e"
  obtains b1 sms where "init_stackmap base (Some \<lparr>b_name = fn, b_arch = the (e_machine e), b_elf = e\<rparr>) = Inr sms"
    and "update_function_addr \<lparr>b_name = fn, b_arch = the (e_machine e), b_elf = e\<rparr> (sec_name pre ''unwind_arange'') = Inr b1"
    and "add_sections written junk b1 sms pre start_id (sec_name pre ''unwind_arange'') = Inr b'" and "rs' = rs"
  using assms
  by (auto simp: gen_stackinfo_def init_elf_bin_def free_elf_bin_def Let_def bindE_eq_Inr_iff split: if_splits)

lemma unwind_name: "sec_name SECTION_PREFIX ''unwind_arange'' = SECTION_ST_UNWIND_ADDR" "SECTION_ST_UNWIND_ADDR \<notin> set new_names"
  by (simp_all add: sec_name_def new_names_def SECTION_PREFIX_def SECTION_ST_UNWIND_ADDR_def SECTION_ST_ID_def SECTION_ST_ADDR_def
      SECTION_ST_LIVE_def SECTION_ST_ARCH_LIVE_def BUF_SIZE_def)

lemma st_init_handle: "st_init env (Some fn) rs = (Some h, rs1) \<Longrightarrow> fl_begin env = Some e \<Longrightarrow> read_handle fn e = Some h"
  by (auto simp: st_init_def Let_def split: if_splits option.splits)

text \<open>The unwinding ranges as the linker leaves them: one block of records with distinct addresses.\<close>

definition ranges_in :: "elf \<Rightarrow> unwind_addr list \<Rightarrow> bool" where
  "ranges_in e us \<longleftrightarrow> (case get_section_by_name e SECTION_ST_UNWIND_ADDR of None \<Rightarrow> False
     | Some i \<Rightarrow> let s = e_secs e ! i in s_hdr_ok s \<and> s_blocks s = [enc_table enc_unwind_addr us] \<and>
         s_size s = of_nat (16 * length us) \<and> s_entsize s = 16) \<and> us \<noteq> [] \<and> distinct (map ua_addr us)"

lemma ranges_wf:
  assumes "ranges_in e us" and "blocks_small e" and "update_function_addr b SECTION_ST_UNWIND_ADDR = Inr b1" and "b_elf b = e"
    and "sec_view e' SECTION_ST_UNWIND_ADDR = sec_view (b_elf b1) SECTION_ST_UNWIND_ADDR" and "read_handle fn e' = Some h"
  shows "unwind_addrs_wf (attach ops props h)"
proof -
  obtain i where i: "get_section_by_name e SECTION_ST_UNWIND_ADDR = Some i" "s_blocks (e_secs e ! i) = [enc_table enc_unwind_addr us]"
    "s_size (e_secs e ! i) = of_nat (16 * length us)" "s_entsize (e_secs e ! i) = 16" "s_hdr_ok (e_secs e ! i)" "us \<noteq> []"
    "distinct (map ua_addr us)"
    using assms(1) by (auto simp: ranges_in_def Let_def split: option.splits)
  have "\<forall>d\<in>set (s_blocks (e_secs e ! i)). length d < 2 ^ 40"
    using assms(2) get_section_bound[OF i(1)] unfolding blocks_small_def by (meson nth_mem)
  then have "length (enc_table enc_unwind_addr us) < 2 ^ 40" using i(2) by simp
  then have l: "16 * length us < 2 ^ 40" by (simp add: length_enc_table[of us enc_unwind_addr 16] unwind_addr_roundtrip)
  let ?t = "sort_key ua_addr (assign_offsets 0 us)"
  have "sec_view (b_elf b1) SECTION_ST_UNWIND_ADDR = (of_nat (length us), Some (enc_table enc_unwind_addr ?t))"
    using update_function_addr_law[of b SECTION_ST_UNWIND_ADDR i us] i l assms(3,4) by auto
  then have v: "sec_view e' SECTION_ST_UNWIND_ADDR = (of_nat (length us), Some (enc_table enc_unwind_addr ?t))"
    using assms(5) by simp
  have h: "rh_unwind_addr_count h = of_nat (length us)" "rh_unwind_addrs h = ?t"
    using read_section_view[OF read_handle_sections(1)[OF assms(6)] v] by (simp_all add: unwind_addr_table)
  have "unat (of_nat (length us) :: u64) = length us" using l by (intro unat_of_nat_small) simp
  then show ?thesis
    using h l sorted_ranges[OF i(7), of 0] by (simp add: unwind_addrs_wf_def attach_def counts_def)
qed

lemma gen_stackinfo_handle:
  assumes e: "fl_begin env = Some e" "elf_wf e" "blocks_small e" "ranges_in e us"
    and fresh: "\<forall>n\<in>set new_names. get_section_by_name e n = None"
    and run: "gen_stackinfo base written junk env (Some fn) SECTION_PREFIX start_id rs = Inr (b', rs')"
    and open_it: "st_init env' (Some fn') rs0 = (Some h, rs1)" "fl_begin env' = Some (b_elf b')"
  shows "sites_id_wf (attach ops props h)" and "sites_addr_wf (attach ops props h)" and "unwind_addrs_wf (attach ops props h)"
    and "\<exists>sms sites. init_stackmap base (Some \<lparr>b_name = fn, b_arch = the (e_machine e), b_elf = e\<rparr>) = Inr sms \<and>
      mset (rh_sites_id h) = mset sites \<and> mset (rh_sites_addr h) = mset sites \<and>
      list_all2 (\<lambda>(frs, r). describes (the (e_machine e)) frs (rh_live_vals h) (rh_arch_live_vals h) r) (all_records sms) sites \<and>
      map cs_id sites = id_seq start_id (map (\<lambda>(frs, r). csr_id r) (all_records sms))"
    and "rs' = rs"
proof -
  let ?b = "\<lparr>b_name = fn, b_arch = the (e_machine e), b_elf = e\<rparr>"
  obtain b1 sms where s: "init_stackmap base (Some ?b) = Inr sms" "update_function_addr ?b SECTION_ST_UNWIND_ADDR = Inr b1"
    "add_sections written junk b1 sms SECTION_PREFIX start_id SECTION_ST_UNWIND_ADDR = Inr b'" "rs' = rs"
    using gen_stackinfo_steps[OF run e(1)] unwind_name(1) by metis
  note k = update_function_addr_keeps[OF s(2)]
  have w: "elf_wf (b_elf b1)" "\<forall>n\<in>set new_names. get_section_by_name (b_elf b1) n = None" "maps_wf sms"
    using k e(2,3) fresh init_stackmap_maps_wf[OF s(1)] by simp_all
  have h: "read_handle fn' (b_elf b') = Some h" using st_init_handle open_it by blast
  note t = handle_of_tool_output[OF w s(3) h]
  show "sites_id_wf (attach ops props h)" "sites_addr_wf (attach ops props h)" by (rule t)+
  show "unwind_addrs_wf (attach ops props h)"
    using ranges_wf[OF e(4,3) s(2) _ t(4)[OF unwind_name(2)] h] by simp
  show "rs' = rs" by (rule s(4))
  show "\<exists>sms sites. init_stackmap base (Some ?b) = Inr sms \<and>
      mset (rh_sites_id h) = mset sites \<and> mset (rh_sites_addr h) = mset sites \<and>
      list_all2 (\<lambda>(frs, r). describes (the (e_machine e)) frs (rh_live_vals h) (rh_arch_live_vals h) r) (all_records sms) sites \<and>
      map cs_id sites = id_seq start_id (map (\<lambda>(frs, r). csr_id r) (all_records sms))"
    using s(1) t(3) k(2) by auto
qed

end
