(* ===== verification/Examples.thy ===== *)
theory Examples
  imports Userspace Tool_Run
begin

text \<open>
  A small program on which the models are run: \<open>main\<close> calls \<open>f\<close>, which keeps a value on its stack
  and calls the migration point. Both binaries have the functions at the same addresses, with
  different return addresses, frame sizes and locations. The stack on aarch64 is in the bytes
  from \<open>0x7000\<close> on, the one to be built for x86-64 ends at \<open>0x9000\<close>.
\<close>

section \<open>Metadata\<close>

definition ex_site :: "u64 \<Rightarrow> u64 \<Rightarrow> u32 \<Rightarrow> u16 \<Rightarrow> u64 \<Rightarrow> u16 \<Rightarrow> call_site" where
  "ex_site i a fsize nunwind uoff nlive = EMPTY_CALL_SITE\<lparr>cs_id := i, cs_addr := a, cs_frame_size := fsize,
     cs_num_unwind := nunwind, cs_unwind_offset := uoff, cs_num_live := nlive\<rparr>"

definition ex_slot :: "u16 \<Rightarrow> u32 \<Rightarrow> live_value" where
  "ex_slot r off = \<lparr>is_duplicate = False, is_alloca = False, is_ptr = False, lv_type = SM_INDIRECT, lv_size = 8,
     lv_regnum = r, lv_offset = off, alloca_size = 0\<rparr>"

definition ex_ranges :: "unwind_addr list" where
  "ex_ranges = [\<lparr>ua_addr = 0x1000, ua_num_unwind = 2, ua_unwind_offset = 0\<rparr>,
     \<lparr>ua_addr = 0x2000, ua_num_unwind = 2, ua_unwind_offset = 0\<rparr>,
     \<lparr>ua_addr = 0x3000, ua_num_unwind = 0, ua_unwind_offset = 0\<rparr>]"

definition ex_sites_a64 :: "call_site list" where
  "ex_sites_a64 = [ex_site 1 0x1010 16 2 0 0, ex_site 5 0x2010 32 2 0 1, ex_site UINT64_MAX 0x3010 16 0 0 0]"

definition ex_sites_x86 :: "call_site list" where
  "ex_sites_x86 = [ex_site 1 0x1020 16 2 0 0, ex_site 5 0x2020 32 2 0 1, ex_site UINT64_MAX 0x3020 16 0 0 0]"

definition ex_a64 :: "regset_aarch64 st_handle" where
  "ex_a64 = \<lparr>h_arch = EM_AARCH64, h_ptr_size = 8, h_regops = regs_aarch64, h_props = properties_aarch64,
     unwind_addr_count = 3, unwind_addrs = ex_ranges, unwind_count = 2,
     unwind_locs = [\<lparr>ul_reg = 29, ul_offset = 0\<rparr>, \<lparr>ul_reg = 30, ul_offset = 8\<rparr>],
     sites_count = 3, sites_id = ex_sites_a64, sites_addr = ex_sites_a64,
     live_vals_count = 2, live_vals = [ex_slot 29 16, ex_slot 29 24], arch_live_vals_count = 0, arch_live_vals = []\<rparr>"

definition ex_x86 :: "regset_x86_64 st_handle" where
  "ex_x86 = \<lparr>h_arch = EM_X86_64, h_ptr_size = 8, h_regops = regs_x86_64, h_props = properties_x86_64,
     unwind_addr_count = 3, unwind_addrs = ex_ranges, unwind_count = 2,
     unwind_locs = [\<lparr>ul_reg = 6, ul_offset = 0\<rparr>, \<lparr>ul_reg = 16, ul_offset = 8\<rparr>],
     sites_count = 3, sites_id = ex_sites_x86, sites_addr = ex_sites_x86,
     live_vals_count = 2, live_vals = [ex_slot 6 (- 8), ex_slot 6 (- 16)],
     arch_live_vals_count = 0, arch_live_vals = []\<rparr>"

section \<open>State at the migration point\<close>

definition ex_mem :: mem where
  "ex_mem = store64 (store64 (store64 (store64 (store64 (\<lambda>_. 0) 0x7000 0x7010) 0x7008 0x2010) 0x7010 0x7030) 0x7018 0x3010)
     0x7020 42"

definition ex_regs :: regset_aarch64 where
  "ex_regs = zero_aarch64\<lparr>a64_sp := 0x7000, a64_pc := 0x1010, a64_x := (\<lambda>_. 0)(29 := 0x7000)\<rparr>"

definition ex_fresh_a64 :: "regset_aarch64 fresh" where
  "ex_fresh_a64 = \<lparr>fresh_acts = (\<lambda>_. \<lparr>act_site = EMPTY_CALL_SITE, act_cfa = 0, act_regs = regset_default_aarch64,
     act_callee_saved = \<lparr>bm_size = 0, bm_bits = None\<rparr>\<rparr>), fresh_word = (\<lambda>_. 0)\<rparr>"

definition ex_fresh_x86 :: "regset_x86_64 fresh" where
  "ex_fresh_x86 = \<lparr>fresh_acts = (\<lambda>_. \<lparr>act_site = EMPTY_CALL_SITE, act_cfa = 0, act_regs = regset_default_x86_64,
     act_callee_saved = \<lparr>bm_size = 0, bm_bits = None\<rparr>\<rparr>), fresh_word = (\<lambda>_. 0)\<rparr>"

definition ex_rewrite :: "(mem \<times> regset_x86_64 option \<times> int) res option" where
  "ex_rewrite = st_rewrite_stack True (Some ex_fresh_a64) (Some ex_fresh_x86) ex_mem
     (Some ex_a64) (Some ex_regs) 0x7040 (Some ex_x86) (Some zero_x86_64) 0x9000"

section \<open>Contexts in the middle of a rewrite\<close>

text \<open>Both contexts at the frame of \<open>f\<close>, the middle one of three activations.\<close>

definition ex_act_x86 :: "call_site \<Rightarrow> u64 \<Rightarrow> u64 \<Rightarrow> u64 \<Rightarrow> nat \<Rightarrow> regset_x86_64 activation" where
  "ex_act_x86 site cfa sp_v fbp_v i = \<lparr>act_site = site, act_cfa = cfa,
     act_regs = regset_init_x86_64 (zero_x86_64\<lparr>x86_rsp := sp_v, x86_rbp := fbp_v, x86_rip := cs_addr site\<rparr>),
     act_callee_saved = \<lparr>bm_size = X86_64_NUM_REGS, bm_bits = Some (i * bitmap_size X86_64_NUM_REGS)\<rparr>\<rparr>"

definition ex_ctx_x86 :: "regset_x86_64 rewrite_context" where
  "ex_ctx_x86 = \<lparr>handle = ex_x86, stack_base = 0x9000, stack = 0x8fc8, out_regs = zero_x86_64, num_acts = 3, act = 1,
     acts = (\<lambda>i. if i = 0 then ex_act_x86 EMPTY_CALL_SITE 0x8fd0 0x8fc8 0x8fe0 0
       else if i = 1 then ex_act_x86 (ex_sites_x86 ! 1) 0x8ff0 0x8fd0 0x8fe0 1
       else ex_act_x86 (ex_sites_x86 ! 2) 0 0 0 2),
     stack_pointers = [], callee_saved_pool = replicate 64 0\<rparr>"

definition ex_act_a64 :: "call_site \<Rightarrow> u64 \<Rightarrow> u64 \<Rightarrow> u64 \<Rightarrow> u64 \<Rightarrow> nat \<Rightarrow> regset_aarch64 activation" where
  "ex_act_a64 site cfa sp_v fbp_v ra i = \<lparr>act_site = site, act_cfa = cfa,
     act_regs = regset_init_aarch64 (zero_aarch64\<lparr>a64_sp := sp_v, a64_pc := cs_addr site,
       a64_x := (\<lambda>_. 0)(29 := fbp_v, 30 := ra)\<rparr>),
     act_callee_saved = \<lparr>bm_size = AARCH64_NUM_REGS, bm_bits = Some (i * bitmap_size AARCH64_NUM_REGS)\<rparr>\<rparr>"

definition ex_ctx_a64 :: "regset_aarch64 rewrite_context" where
  "ex_ctx_a64 = \<lparr>handle = ex_a64, stack_base = 0x7040, stack = 0x7000, out_regs = zero_aarch64, num_acts = 3, act = 1,
     acts = (\<lambda>i. if i = 0 then ex_act_a64 (ex_sites_a64 ! 0) 0x7010 0x7000 0x7000 0x2010 0
       else if i = 1 then ex_act_a64 (ex_sites_a64 ! 1) 0x7030 0x7010 0x7010 0x2010 1
       else ex_act_a64 (ex_sites_a64 ! 2) 0x7040 0x7030 0x7030 0x3010 2),
     stack_pointers = [], callee_saved_pool = replicate 64 0\<rparr>"

lemma ex_ctx_x86_unwindable: "unwindable properties_x86_64 X86_64_NUM_REGS ex_ctx_x86 (ACT ex_ctx_x86)"
  by code_simp

lemma ex_ctx_a64_unwindable: "unwindable properties_aarch64 AARCH64_NUM_REGS ex_ctx_a64 (ACT ex_ctx_a64)"
  by code_simp

lemmas ex_defs = ex_ctx_x86_def ex_ctx_a64_def ex_act_x86_def ex_act_a64_def ex_x86_def ex_a64_def ex_sites_x86_def
  ex_sites_a64_def ex_site_def EMPTY_CALL_SITE_def

lemma ex_ctx_x86_simps [simp]:
  "REGOPS ex_ctx_x86 = regs_x86_64" "PROPS ex_ctx_x86 = properties_x86_64" "act ex_ctx_x86 = 1"
  "act_cfa (acts ex_ctx_x86 1) = 0x8ff0" "act_cfa (acts ex_ctx_x86 (Suc 0)) = 0x8ff0" "cs_addr (act_site (acts ex_ctx_x86 2)) = 0x3020"
  "cs_frame_size (act_site (acts ex_ctx_x86 2)) = 16" "Suc (Suc 0) < MAX_FRAMES"
  "cs_addr (act_site (acts ex_ctx_x86 (Suc (Suc 0)))) = 0x3020" "cs_frame_size (act_site (acts ex_ctx_x86 (Suc (Suc 0)))) = 16"
  by (simp_all add: ex_defs MAX_FRAMES_def)

lemma ex_ctx_a64_simps [simp]:
  "REGOPS ex_ctx_a64 = regs_aarch64" "PROPS ex_ctx_a64 = properties_aarch64" "act ex_ctx_a64 = 1"
  "act_cfa (acts ex_ctx_a64 1) = 0x7030" "act_cfa (acts ex_ctx_a64 (Suc 0)) = 0x7030"
  "cs_addr (act_site (acts ex_ctx_a64 2)) = 0x3010" "cs_frame_size (act_site (acts ex_ctx_a64 2)) = 16"
  "cs_addr (act_site (acts ex_ctx_a64 (Suc (Suc 0)))) = 0x3010" "cs_frame_size (act_site (acts ex_ctx_a64 (Suc (Suc 0)))) = 16"
  by (simp_all add: ex_defs)

definition ex_entry_x86 :: "regset_x86_64 rewrite_context" where
  "ex_entry_x86 = ex_ctx_x86\<lparr>act := 0\<rparr>"

lemma ex_entry_x86_simps [simp]:
  "handle ex_entry_x86 = ex_x86" "h_regops ex_x86 = regs_x86_64" "h_props ex_x86 = properties_x86_64" "act ex_entry_x86 = 0"
  "act_cfa (acts ex_entry_x86 0) = 0x8fd0" "sp_x86_64 (act_regs (acts ex_entry_x86 0)) = 0x8fc8"
  "cs_addr (act_site (acts ex_entry_x86 (Suc 0))) = 0x2020" "cs_frame_size (act_site (acts ex_entry_x86 (Suc 0))) = 32"
  "Suc 0 < MAX_FRAMES"
  by (simp_all add: ex_entry_x86_def ex_defs MAX_FRAMES_def sp_x86_64_def regset_init_x86_64_def)

lemma ex_fbp:
  "reg_read64 regs_x86_64 (act_regs (acts ex_ctx_x86 (Suc 0))) 6 = Inr 0x8fe0"
  "reg_read64 regs_aarch64 (act_regs (acts ex_ctx_a64 (Suc 0))) 29 = Inr 0x7010"
  by (simp_all add: x86.read64_fbp a64.read64_fbp) (simp_all add: ex_defs regs_x86_64_def regs_aarch64_def fbp_x86_64_def
     fbp_aarch64_def regset_init_x86_64_def regset_init_aarch64_def AARCH64_FBP_REG_def)

lemma ex_copy_locs:
  "get_src_loc ex_ctx_a64 (ex_slot 29 16) 1 = Inr (Src_loc (Loc_mem 0x7020))"
  "get_dest_loc ex_ctx_x86 (ex_slot 6 (- 8)) 1 = Inr (Loc_mem 0x8fd8)"
  "callee_addr_of checks ex_ctx_x86 (lv_type (ex_slot 6 (- 8))) r 1 = Inr None"
  "VAL_SIZE (ex_slot r' off) = 8" "\<not> is_const (lv_type (ex_slot r' off))"
  by (simp_all add: get_src_loc_def get_dest_loc_def get_val_loc_def ex_slot_def ex_fbp ptr_add_def callee_addr_of_def
      VAL_SIZE_def is_const_def)

lemma ex_value: "read_bytes ex_mem 0x7020 8 = le_bytes 8 (42 :: u64)"
  by (simp add: ex_mem_def store64_def read_write_same)

definition ex_leaf_a64 :: "regset_aarch64 rewrite_context" where
  "ex_leaf_a64 = upd_act ex_ctx_a64 1 (\<lambda>a. a\<lparr>act_site := (act_site a)\<lparr>cs_num_live := 0\<rparr>\<rparr>)"

definition ex_leaf_x86 :: "regset_x86_64 rewrite_context" where
  "ex_leaf_x86 = upd_act ex_ctx_x86 1 (\<lambda>a. a\<lparr>act_site := (act_site a)\<lparr>cs_num_live := 0\<rparr>\<rparr>)"

lemma ex_leaf_x86_unwindable: "unwindable properties_x86_64 X86_64_NUM_REGS ex_leaf_x86 (ACT ex_leaf_x86)"
  by code_simp

lemma ex_leaf_x86_simps [simp]:
  "handle ex_leaf_x86 = ex_x86" "h_regops ex_x86 = regs_x86_64" "h_props ex_x86 = properties_x86_64" "act ex_leaf_x86 = 1"
  "act_cfa (acts ex_leaf_x86 (Suc 0)) = 0x8ff0" "cs_addr (act_site (acts ex_leaf_x86 (Suc (Suc 0)))) = 0x3020"
  "cs_frame_size (act_site (acts ex_leaf_x86 (Suc (Suc 0)))) = 16"
  "cs_num_live (act_site (acts ex_leaf_x86 (Suc 0))) = 0" "cs_num_arch_live (act_site (acts ex_leaf_x86 (Suc 0))) = 0"
  by (simp_all add: ex_leaf_x86_def ex_defs)

lemma ex_leaf_a64_simps [simp]: "act ex_leaf_a64 = 1" "cs_num_live (act_site (acts ex_leaf_a64 (Suc 0))) = 0"
  by (simp_all add: ex_leaf_a64_def ex_defs)

lemma ex_frame_step_runs: "\<exists>m' d'. frame_step True ex_leaf_a64 ex_mem ex_leaf_x86 = Some (Inr (m', d'))"
proof -
  have n: "num_regs regs_x86_64 = X86_64_NUM_REGS" "ra_offset properties_x86_64 = - 8" "savedfbp_offset properties_x86_64 = - 16"
    by (simp_all add: regs_x86_64_def properties_x86_64_def)
  have rf: "rewrite_frame True m ex_leaf_a64 ex_leaf_x86 = Some (Inr (m, ex_leaf_x86))" for m
    by (simp add: rewrite_frame_def live_loop.simps)
  obtain d' where "pop_frame True (store64 ex_mem 0x8fe8 0x3020) ex_leaf_x86 True = Inr d'"
    using x86p.pop_frame_bounds_law[of ex_leaf_x86 "0x9000" True "store64 ex_mem 0x8fe8 0x3020"] ex_leaf_x86_unwindable n
    by auto
  then show ?thesis
    by (simp add: frame_step_def set_return_address_def rf bindN_def get_savedfbp_loc_def ptr_add_def n)
qed

definition ex_fixup :: "u64 \<Rightarrow> nat \<Rightarrow> fixup" where
  "ex_fixup a i = \<lparr>fx_src_addr = a, fx_act = i, fx_dest_loc = ex_slot 6 (- 16)\<rparr>"

definition ex_alloca :: "u16 \<Rightarrow> u32 \<Rightarrow> live_value" where
  "ex_alloca r off = (ex_slot r off)\<lparr>is_alloca := True, lv_type := SM_DIRECT, alloca_size := 8\<rparr>"

definition ex_alloca_a64 :: "regset_aarch64 rewrite_context" where
  "ex_alloca_a64 = ex_ctx_a64\<lparr>handle := ex_a64\<lparr>live_vals := [ex_alloca 29 16, ex_slot 29 24]\<rparr>\<rparr>"

definition ex_alloca_x86 :: "regset_x86_64 rewrite_context" where
  "ex_alloca_x86 = ex_ctx_x86\<lparr>handle := ex_x86\<lparr>live_vals := [ex_alloca 6 (- 8), ex_slot 6 (- 16)]\<rparr>,
     stack_pointers := [ex_fixup 0x7020 1, ex_fixup 0x7100 1]\<rparr>"

lemma ex_alloca_simps [simp]:
  "handle ex_alloca_a64 = ex_a64\<lparr>live_vals := [ex_alloca 29 16, ex_slot 29 24]\<rparr>" "acts ex_alloca_a64 = acts ex_ctx_a64"
  "act ex_alloca_a64 = 1" "h_regops ex_a64 = regs_aarch64"
  "handle ex_alloca_x86 = ex_x86\<lparr>live_vals := [ex_alloca 6 (- 8), ex_slot 6 (- 16)]\<rparr>" "acts ex_alloca_x86 = acts ex_ctx_x86"
  "act ex_alloca_x86 = 1" "h_regops ex_x86 = regs_x86_64" "stack_pointers ex_alloca_x86 = [ex_fixup 0x7020 1, ex_fixup 0x7100 1]"
  by (simp_all add: ex_alloca_a64_def ex_alloca_x86_def ex_defs)

lemma ex_sites_live [simp]:
  "cs_num_live (act_site (acts ex_ctx_x86 (Suc 0))) = 1" "cs_live_offset (act_site (acts ex_ctx_x86 (Suc 0))) = 0"
  "cs_live_offset (act_site (acts ex_ctx_a64 (Suc 0))) = 0"
  by (simp_all add: ex_defs)

lemma ex_alloca_fields [simp]:
  "is_duplicate (ex_alloca r off) = False" "is_alloca (ex_alloca r off) = True" "lv_type (ex_alloca r off) = SM_DIRECT"
  "lv_regnum (ex_alloca r off) = r" "lv_offset (ex_alloca r off) = off" "VAL_SIZE (ex_alloca r off) = 8"
  "is_duplicate (ex_slot r off) = False"
  by (simp_all add: ex_alloca_def ex_slot_def VAL_SIZE_def)

lemma ex_local_search: "\<exists>m' d'. local_search True ex_mem ex_alloca_a64 ex_alloca_x86 (ex_fixup 0x7020 1) 0 0 = Inr (Some (m', d'))"
proof -
  have p: "points_to_data True ex_alloca_a64 (ex_alloca 29 16) ex_alloca_x86 (ex_alloca 6 (- 8)) 0x7020 = Inr 0x8fd8"
    using points_to_data_direct[of "ex_alloca 29 16" "ex_alloca 6 (- 8)" ex_alloca_a64 "0x7010" ex_alloca_x86 "0x8fe0" "0x7020" "0x8fd8" True "0x7020"]
    by (simp add: ex_fbp ptr_add_def)
  obtain m' d' where w: "put_val_data True ex_mem ex_alloca_x86 (ex_slot 6 (- 16)) 1 0x8fd8 = Inr (m', d')"
    by (simp add: put_val_data_def get_dest_loc_def get_val_loc_def ex_slot_def ex_fbp ptr_add_def callee_addr_of_def
        is_const_def write_loc_def write_opt_def)
  have "skip_duplicates [ex_alloca r off, ex_slot r off'] 0 0 = Inr 0" for r off off'
    by (subst skip_duplicates.simps) (simp add: live_at_def)
  then show ?thesis using p w by (subst local_search.simps) (simp add: live_at_def Let_def ex_fixup_def)
qed

definition ex_deep_x86 :: "regset_x86_64 rewrite_context" where
  "ex_deep_x86 = ex_ctx_x86\<lparr>act := 64, acts := (\<lambda>i. ex_act_x86 (ex_sites_x86 ! 1) 0x8ff0 0x8fd0 0x8fe0 i),
     callee_saved_pool := replicate (MAX_FRAMES * bitmap_words X86_64_NUM_REGS) 0\<rparr>"

definition ex_start_a64 :: "regset_aarch64 rewrite_context" where
  "ex_start_a64 = ex_ctx_a64\<lparr>act := 0, num_acts := 0,
     acts := (acts ex_ctx_a64)(0 := ex_act_a64 (ex_site 1 0x1010 16 0 0 0) 0x7010 0x7000 0x7000 0x3010 0)\<rparr>"

definition ex_start_x86 :: "regset_x86_64 rewrite_context" where
  "ex_start_x86 = ex_ctx_x86\<lparr>act := 0, num_acts := 0\<rparr>"

lemma ex_sites_wf: "sites_addr_wf ex_a64" "sites_id_wf ex_x86"
  by (simp_all add: sites_addr_wf_def sites_id_wf_def counts_def ex_defs UINT64_MAX_def)

lemma ex_main_found:
  "get_site_by_addr ex_a64 0x3010 = Inr (Some (ex_site UINT64_MAX 0x3010 16 0 0 0))"
  "get_site_by_id ex_x86 UINT64_MAX = Inr (Some (ex_site UINT64_MAX 0x3020 16 0 0 0))"
  by code_simp+

definition ex_popped :: "regset_aarch64 rewrite_context \<Rightarrow> regset_aarch64 rewrite_context" where
  "ex_popped ctx = (upd_act ctx (act ctx + 1) (\<lambda>a. a\<lparr>
     act_regs := set_sp_aarch64 (set_pc_aarch64 (act_regs (ACT ctx)) (a64_x (raw_regs (act_regs (ACT ctx))) 30)) (act_cfa (ACT ctx)),
     act_callee_saved := \<lparr>bm_size = AARCH64_NUM_REGS, bm_bits = Some ((act ctx + 1) * bitmap_size AARCH64_NUM_REGS)\<rparr>\<rparr>))\<lparr>act := act ctx + 1\<rparr>"

lemma ex_pop:
  assumes "REGOPS ctx = regs_aarch64" and "unwind_range (act_site (ACT ctx)) = []" and "act ctx + 1 < MAX_FRAMES"
  shows "pop_frame True m ctx False = Inr (ex_popped ctx)"
proof -
  have o: "has_ra_reg regs_aarch64" "num_regs regs_aarch64 = AARCH64_NUM_REGS" "regset_clone regs_aarch64 a b = a"
    "ra_reg regs_aarch64 a = Inr (a64_x (raw_regs a) 30)" "set_pc regs_aarch64 = set_pc_aarch64" "set_sp regs_aarch64 = set_sp_aarch64" for a b
    by (simp_all add: regs_aarch64_def regset_clone_aarch64_def ra_reg_aarch64_def AARCH64_LINK_REG_def)
  show ?thesis
    using assms
    by (simp add: pop_frame_def Let_def setup_regset_def setup_callee_saved_bits_def restore_callee_saved_regs_def
        set_pc_from_ra_def advance_def o ex_popped_def upd_act_def activation_upd_comm ASSERT_holds)
qed

lemma ex_unwind_runs: "\<exists>s d. unwind_and_size True ex_mem ex_start_a64 ex_start_x86 = Inr (s, d)"
proof -
  have p1: "pop_frame True ex_mem ex_start_a64 False = Inr (ex_popped ex_start_a64)"
    by (rule ex_pop) (simp_all add: ex_start_a64_def ex_defs unwind_range_def MAX_FRAMES_def)
  let ?s1 = "ex_popped ex_start_a64"
  have s1: "handle ?s1 = ex_a64" "act ?s1 = 1" "pc regs_aarch64 (act_regs (acts ?s1 1)) = 0x3010" "num_acts ?s1 = 0"
    "sp regs_aarch64 (act_regs (acts ?s1 1)) = 0x7010"
    by (simp_all add: ex_popped_def ex_start_a64_def ex_defs regs_aarch64_def a64_special_defs regset_init_aarch64_def)
  let ?s2 = "upd_act (upd_act (?s1\<lparr>num_acts := 1\<rparr>) 1 (\<lambda>a. a\<lparr>act_site := ex_site UINT64_MAX 0x3010 16 0 0 0\<rparr>)) 1 (\<lambda>a. a\<lparr>act_cfa := 0x7020\<rparr>)"
  have ops: "h_regops ex_a64 = regs_aarch64" "h_regops ex_x86 = regs_x86_64" "h_props ex_x86 = properties_x86_64"
    by (simp_all add: ex_defs)
  let ?d2 = "upd_act (ex_start_x86\<lparr>num_acts := 1, act := 1\<rparr>) 1 (\<lambda>a. a\<lparr>act_site := ex_site UINT64_MAX 0x3020 16 0 0 0\<rparr>)"
  have d: "handle ex_start_x86 = ex_x86" "act ex_start_x86 = 0" "num_acts ex_start_x86 = 0"
    by (simp_all add: ex_start_x86_def ex_defs)
  have site: "cs_id (ex_site a b c e f g) = a" "cs_addr (ex_site a b c e f g) = b" "cs_frame_size (ex_site a b c e f g) = c"
    "cs_unwind_offset (ex_site a b c e f g) = f" "cs_num_unwind (ex_site a b c e f g) = e" for a b c e f g by (simp_all add: ex_site_def)
  have st: "unwind_step True ex_mem (ex_start_a64, ex_start_x86, 0) = Inr (?s2, ?d2, 16)"
    using s1 d ops ex_main_found by (simp add: unwind_step_def p1 Let_def calculate_cfa_def site)
  have loop: "unwind_loop True ex_mem (ex_start_a64, ex_start_x86, 0) = Inr (?s2, ?d2, 16)"
    by (subst unwind_loop.simps) (simp add: st s1 site first_frame_def)
  have p2: "pop_frame True ex_mem ?s2 False = Inr (ex_popped ?s2)"
    by (rule ex_pop) (use s1 ops in \<open>simp_all add: site unwind_range_def MAX_FRAMES_def\<close>)
  have al: "align_sp properties_x86_64 0x8ff0 = Inr 0x8fe8" "sp_needs_align properties_x86_64"
    by (simp_all add: properties_x86_64_def align_sp_x86_64_def X86_64_STACK_ALIGNMENT_def Let_def)
  have dd: "stack_base ex_start_x86 = 0x9000" "callee_saved_pool ex_start_x86 = replicate 64 0"
    "bitmap_words (num_regs regs_x86_64) = 2"
    by (simp_all add: ex_start_x86_def ex_ctx_x86_def regs_x86_64_def X86_64_NUM_REGS_def bitmap_words_def STORAGE_TYPE_BITS_def)
  show ?thesis
    using s1 d ops al dd p2
    by (simp add: unwind_and_size_def loop Let_def MAX_STACK_SIZE_def clear_pool_def bootstrap_first_frame_funcentry_def
        setup_callee_saved_bits_def act_slot_def MAX_FRAMES_def)
qed

definition ex_record :: call_site_record where
  "ex_record = \<lparr>csr_id = 0, func_idx = 0, csr_offset = 0x20, csr_reserved = 0, num_locations = 1, locations = [ex_slot 6 (- 8)],
     num_live_outs = 0, live_outs = [], csr_num_arch_live = 0, arch_live = []\<rparr>"

definition ex_sm :: stack_map_section where
  "ex_sm = \<lparr>sm_version = 2, num_functions = 1, num_constants = 0, num_records = 1,
     function_records = [\<lparr>func_addr = 0x2000, fr_stack_size = 24, fr_num_unwind = 1, fr_unwind_offset = 0\<rparr>],
     constants = [], call_sites = [ex_record]\<rparr>"

definition ex_elf :: elf where
  "ex_elf = \<lparr>e_kind_elf = True, e_class = ELFCLASS64, e_ident_data = Some ELFDATA2LSB, e_machine = Some EM_X86_64,
     e_shstrtab = Some (CHR 0x00 # SECTION_ST_UNWIND_ADDR @ CHR 0x00 # SECTION_ST_UNWIND @ CHR 0x00 # LLVM_STACKMAP_SECTION @ [CHR 0x00]),
     e_secs = [
       \<lparr>s_hdr_ok = True, s_name = 1, s_type = SHT_PROGBITS, s_offset = 64, s_size = 16, s_entsize = 16,
         s_blocks = [enc_table enc_unwind_addr [\<lparr>ua_addr = 0x2000, ua_num_unwind = 1, ua_unwind_offset = 0\<rparr>]]\<rparr>,
       \<lparr>s_hdr_ok = True, s_name = 2 + length SECTION_ST_UNWIND_ADDR, s_type = SHT_PROGBITS, s_offset = 80, s_size = 4, s_entsize = 4,
         s_blocks = [enc_table enc_unwind_loc [\<lparr>ul_reg = 6, ul_offset = 0\<rparr>]]\<rparr>,
       \<lparr>s_hdr_ok = True, s_name = 3 + length SECTION_ST_UNWIND_ADDR + length SECTION_ST_UNWIND, s_type = SHT_PROGBITS, s_offset = 84,
         s_size = 80, s_entsize = 0, s_blocks = [enc_sections 0 0 [ex_sm]]\<rparr>],
     e_strtab = '''', e_syms = [], e_shoff = 164\<rparr>"

definition ex_bin :: bin where
  "ex_bin = \<lparr>b_name = ''a.out'', b_arch = EM_X86_64, b_elf = ex_elf\<rparr>"

lemma ex_tool_runs:
  "case add_sections True 0 ex_bin [ex_sm] SECTION_PREFIX 100 SECTION_ST_UNWIND_ADDR of
     Inr b \<Rightarrow> (case read_handle ''a.out'' (b_elf b) of Some h \<Rightarrow> True | None \<Rightarrow> False) | Inl _ \<Rightarrow> False"
  by code_simp

lemma ex_record_wf: "record_wf ex_record"
  by (simp add: ex_record_def record_wf_def ex_slot_def live_value_wf_def loc_wf_def)

lemma ex_elf_wf: "elf_wf (b_elf ex_bin)"
  by code_simp

lemma ex_elf_fresh: "\<forall>n\<in>set new_names. get_section_by_name (b_elf ex_bin) n = None"
  by code_simp

definition ex_env :: "elf \<Rightarrow> elf_env" where
  "ex_env e = \<lparr>fl_malloc = True, fl_fd = True, fl_begin = Some e, fl_layout = True\<rparr>"

definition ex_closed :: resources where
  "ex_closed = \<lparr>r_allocs = 0, r_fds = 0, r_elfs = 0\<rparr>"

lemma ex_stackinfo_runs:
  "case gen_stackinfo 0 True 0 (ex_env ex_elf) (Some ''a.out'') SECTION_PREFIX 100 ex_closed of
     Inr (b, rs) \<Rightarrow> (case st_init (ex_env (b_elf b)) (Some ''a.out'') ex_closed of (Some h, _) \<Rightarrow> True | (None, _) \<Rightarrow> False) | Inl _ \<Rightarrow> False"
  by code_simp

lemma ex_section_sizes: "\<forall>s\<in>set (e_secs ex_elf). \<forall>d\<in>set (s_blocks s). length d \<le> 80"
  by code_simp

lemma ex_elf_input: "blocks_small ex_elf" "ranges_in ex_elf [\<lparr>ua_addr = 0x2000, ua_num_unwind = 1, ua_unwind_offset = 0\<rparr>]"
  "stackmap_data ex_bin (enc_sections 0 0 [ex_sm])"
  using ex_section_sizes by (fastforce simp: blocks_small_def, code_simp+)

lemma ex_sm_wf: "map_section_wf ex_sm"
  using ex_record_wf by (simp add: map_section_wf_def ex_sm_def)

lemma ex_maps_wf: "maps_wf [ex_sm]"
  using ex_record_wf by (simp add: maps_wf_def all_records_def ex_sm_def)

lemmas ex_tool_input = ex_elf_wf ex_elf_fresh ex_maps_wf ex_record_wf

definition ex_us :: userspace where
  "ex_us = \<lparr>us_bounds = None, aarch64_handle = None, x86_64_handle = None, aarch64_fn = None, x86_64_fn = None,
     alloc_aarch64_fn = False, alloc_x86_64_fn = False, us_resources = \<lparr>r_allocs = 0, r_fds = 0, r_elfs = 0\<rparr>\<rparr>"

definition ex_no_file :: elf_env where
  "ex_no_file = \<lparr>fl_malloc = True, fl_fd = False, fl_begin = None, fl_layout = True\<rparr>"

definition ex_maps :: "map_line list" where
  "ex_maps = [\<lparr>ml_fields = 7, ml_start = 0x7f7f0000, ml_end = 0x7f800000, ml_path = ''[stack]''\<rparr>]"

lemma ex_list: "\<exists>h l ps. represents h l ps [10, 20 :: nat]"
proof -
  have e: "represents \<lparr>cells = (\<lambda>_. None), brk = 0\<rparr> list_init [] ([] :: nat list)" by (rule represents_init)
  from list_add_refines[OF e, of True 10] obtain h l p where 1: "represents h l p [10 :: nat]" by auto
  from list_add_refines[OF 1, of True 20] show ?thesis by auto
qed

end
