(* ===== verification/Frame_Links.thy ===== *)
theory Frame_Links
  imports Rewrite
begin

text \<open>
  Where the frames of a rewritten stack lie and what may be written into them: the chain of
  saved frame pointers and return addresses as a specification, the bytes that hold it, the
  metadata whose locations stay inside their frames, and that a frame rewritten with such
  metadata (\<open>rewrite_frame\<close> in \<open>lib/stack_transformation/src/rewrite.c\<close>) leaves the links of all
  frames and the special registers alone.
\<close>

section \<open>Byte ranges\<close>

definition spans :: "u64 \<Rightarrow> nat \<Rightarrow> u64 set" where
  "spans a n = {x. unat (x - a) < n}"

lemma write_bytes_outside: "x \<notin> spans a (length bs) \<Longrightarrow> write_bytes m a bs x = m x"
  by (simp add: spans_def write_bytes_def)

lemma store64_outside: "x \<notin> spans a 8 \<Longrightarrow> store64 m a v x = m x"
  by (simp add: store64_def write_bytes_outside)

lemma spans_mono: "n \<le> k \<Longrightarrow> spans a n \<subseteq> spans a k"
  by (auto simp: spans_def)

lemma spans_unat:
  assumes "x \<in> spans a n" and "unat a + n \<le> 2 ^ 64"
  shows "unat a \<le> unat x \<and> unat x < unat a + n"
proof -
  have n: "unat (x - a) < n" using assms(1) by (simp add: spans_def)
  have "unat (a + (x - a)) = unat a + unat (x - a)"
    using n assms(2) by (subst unat_add_lem[THEN iffD1]) simp_all
  then show ?thesis using n by simp
qed

lemma spans_disjoint:
  assumes "unat a + n \<le> 2 ^ 64" and "unat b + k \<le> 2 ^ 64" and "unat a + n \<le> unat b \<or> unat b + k \<le> unat a"
  shows "spans a n \<inter> spans b k = {}"
  using spans_unat[OF _ assms(1)] spans_unat[OF _ assms(2)] assms(3) by fastforce

lemma load64_cong:
  assumes "\<And>x. x \<in> spans a 8 \<Longrightarrow> m x = m' x"
  shows "load64 m a = load64 m' a"
proof -
  have "read_bytes m a 8 = read_bytes m' a 8"
    unfolding read_bytes_def by (intro map_cong refl assms) (simp add: spans_def unat_of_nat_small)
  then show ?thesis by (simp add: load64_def)
qed

lemma load_store64_apart: "spans a 8 \<inter> spans b 8 = {} \<Longrightarrow> load64 (store64 m a v) b = load64 m b"
  by (intro load64_cong store64_outside) auto

lemma unat_ptr_add:
  assumes "0 \<le> int (unat p) + k" and "int (unat p) + k < 2 ^ 64"
  shows "int (unat (ptr_add p k)) = int (unat p) + k"
proof -
  have "uint (ptr_add p k) = (uint p + k) mod 2 ^ 64"
    by (simp add: ptr_add_def uint_word_ariths mod_simps uint_word_of_int)
  then show ?thesis using assms by simp
qed

section \<open>The chain of frames\<close>

text \<open>
  The specification: what a debugger sees that follows the saved frame pointers from \<open>fp\<close> for \<open>n\<close>
  frames, the return address lying above the saved frame pointer.
\<close>

primrec frame_chain :: "mem \<Rightarrow> u64 \<Rightarrow> nat \<Rightarrow> u64 list" where
  "frame_chain m fp 0 = []"
| "frame_chain m fp (Suc n) = load64 m (fp + 8) # frame_chain m (load64 m fp) n"

text \<open>The frames below activation \<open>i\<close>, in bytes.\<close>

definition frames_sum :: "'b rewrite_context \<Rightarrow> nat \<Rightarrow> nat" where
  "frames_sum d i = (\<Sum>j\<leftarrow>[1..<i + 1]. unat (cs_frame_size (act_site (acts d j))))"

lemma frames_sum_simps [simp]: "frames_sum d 0 = 0"
  "frames_sum d (Suc i) = frames_sum d i + unat (cs_frame_size (act_site (acts d (Suc i))))"
  by (simp_all add: frames_sum_def)

lemma frames_sum_mono: "i \<le> j \<Longrightarrow> frames_sum d i \<le> frames_sum d j"
  by (induction j) (auto simp: le_Suc_eq)

lemma frames_sum_cong:
  "(\<And>j. j \<le> i \<Longrightarrow> act_site (acts d j) = act_site (acts d' j)) \<Longrightarrow> frames_sum d i = frames_sum d' i"
  by (induction i) auto

text \<open>
  Where the frames up to activation \<open>a\<close> lie: one after the other from the canonical frame address
  of activation 0 on, without wrap-around, the frame pointer 16 bytes below the top of its
  frame, the stack pointer at its bottom.
\<close>

definition standing :: "'b regops_t \<Rightarrow> 'b rewrite_context \<Rightarrow> nat \<Rightarrow> bool" where
  "standing ops d a \<longleftrightarrow> act_site (acts d 0) = EMPTY_CALL_SITE \<and> 8 \<le> unat (act_cfa (acts d 0)) \<and>
     (\<forall>i\<le>a. unat (act_cfa (acts d i)) = unat (act_cfa (acts d 0)) + frames_sum d i) \<and>
     (\<forall>i. 1 \<le> i \<longrightarrow> i \<le> a \<longrightarrow> 16 \<le> unat (cs_frame_size (act_site (acts d i))) \<and>
        fbp ops (act_regs (acts d i)) = act_cfa (acts d i) - 16 \<and>
        sp ops (act_regs (acts d i)) = act_cfa (acts d (i - 1)))"

text \<open>The bytes that hold the links: return addresses and saved frame pointers.\<close>

definition links :: "'b rewrite_context \<Rightarrow> nat \<Rightarrow> u64 set" where
  "links d a = spans (act_cfa (acts d 0) - 8) 8 \<union> (\<Union>i\<in>{1..a}. spans (act_cfa (acts d i) - 16) 16)"

text \<open>An offset from the frame pointer at which \<open>n\<close> bytes lie inside the frame, below the links.\<close>

definition in_frame :: "u32 \<Rightarrow> int \<Rightarrow> nat \<Rightarrow> bool" where
  "in_frame fsize off n \<longleftrightarrow> 16 - int (unat fsize) \<le> off \<and> off + int n \<le> 0"

lemma standingD:
  assumes "standing ops d a"
  shows "act_site (acts d 0) = EMPTY_CALL_SITE" and "8 \<le> unat (act_cfa (acts d 0))"
    and "i \<le> a \<Longrightarrow> unat (act_cfa (acts d i)) = unat (act_cfa (acts d 0)) + frames_sum d i"
    and "1 \<le> i \<Longrightarrow> i \<le> a \<Longrightarrow> 16 \<le> unat (cs_frame_size (act_site (acts d i)))"
    and "1 \<le> i \<Longrightarrow> i \<le> a \<Longrightarrow> fbp ops (act_regs (acts d i)) = act_cfa (acts d i) - 16"
    and "1 \<le> i \<Longrightarrow> i \<le> a \<Longrightarrow> sp ops (act_regs (acts d i)) = act_cfa (acts d (i - 1))"
  using assms unfolding standing_def by blast+

lemma unat_minus_small: "unat k \<le> unat (v :: u64) \<Longrightarrow> unat (v - k) = unat v - unat k"
  by (rule unat_sub) (simp only: word_le_nat_alt)

lemma of_nat_frame: "word_of_int (int (unat (f :: u32))) = (ucast f :: u64)" "of_nat (unat (f :: u32)) = (ucast f :: u64)"
  by simp_all

lemma unat_frame: "unat (ucast (f :: u32) :: u64) = unat f"
  using unat_of_nat_small[of "unat f"] unsigned_less[of f, where 'a = nat] by simp

lemma word_of_frame: "unat (c :: u64) + unat (f :: u32) = unat c' \<Longrightarrow> c + ucast f = c'"
proof -
  assume "unat c + unat f = unat c'"
  then have "of_nat (unat c) + of_nat (unat f) = (of_nat (unat c') :: u64)" by (metis of_nat_add)
  then show ?thesis by (simp add: of_nat_frame)
qed

lemma standing_cfa:
  assumes "standing ops d a" and "i \<le> a"
  shows "unat (act_cfa (acts d i)) = unat (act_cfa (acts d 0)) + frames_sum d i"
    and "1 \<le> i \<Longrightarrow> unat (act_cfa (acts d (i - 1))) + unat (cs_frame_size (act_site (acts d i))) = unat (act_cfa (acts d i))"
    and "1 \<le> i \<Longrightarrow> unat (act_cfa (acts d i) - 16) = unat (act_cfa (acts d i)) - 16"
    and "1 \<le> i \<Longrightarrow> 24 \<le> unat (act_cfa (acts d i))"
proof -
  show 1: "unat (act_cfa (acts d i)) = unat (act_cfa (acts d 0)) + frames_sum d i"
    by (rule standingD(3)[OF assms])
  assume i: "1 \<le> i"
  then obtain j where j: "i = Suc j" by (cases i) auto
  have "unat (act_cfa (acts d j)) = unat (act_cfa (acts d 0)) + frames_sum d j"
    using assms(2) j by (intro standingD(3)[OF assms(1)]) simp
  then show 2: "unat (act_cfa (acts d (i - 1))) + unat (cs_frame_size (act_site (acts d i))) = unat (act_cfa (acts d i))"
    using 1 unfolding j frames_sum_simps by simp
  have "16 \<le> unat (cs_frame_size (act_site (acts d i)))" "8 \<le> unat (act_cfa (acts d 0))"
    using standingD(2,4)[OF assms(1)] assms(2) i by auto
  then show "24 \<le> unat (act_cfa (acts d i))" using 1 unfolding j frames_sum_simps by simp
  then show "unat (act_cfa (acts d i) - 16) = unat (act_cfa (acts d i)) - 16"
    by (subst unat_minus_small) simp_all
qed

lemma standing_mono:
  assumes "standing ops d a" and "i \<le> j" and "j \<le> a"
  shows "unat (act_cfa (acts d i)) \<le> unat (act_cfa (acts d j))"
  using standing_cfa(1)[OF assms(1), of i] standing_cfa(1)[OF assms(1), of j] assms frames_sum_mono[of i j d] by simp

text \<open>A slot of frame \<open>i\<close> is apart from all links.\<close>

lemma frame_slot_apart:
  assumes st: "standing ops d a" and i: "1 \<le> i" "i \<le> a"
    and inf: "in_frame (cs_frame_size (act_site (acts d i))) off n"
  shows "spans (ptr_add (act_cfa (acts d i) - 16) off) n \<inter> links d a = {}"
proof -
  let ?c = "\<lambda>i. unat (act_cfa (acts d i))" and ?A = "ptr_add (act_cfa (acts d i) - 16) off"
  note c = standing_cfa(2-4)[OF st i(2) i(1)]
  have b: "?c i < 2 ^ 64" by (rule unat_less_64)
  have A: "int (unat ?A) = int (?c i) - 16 + off"
  proof -
    have "int (unat (act_cfa (acts d i) - 16)) = int (?c i) - 16" using c(2,3) by linarith
    moreover have "int (?c i) < 2 ^ 64" using uint_lt2p[of "act_cfa (acts d i)"] by simp
    moreover have "0 \<le> int (?c i) - 16 + off" "off \<le> 0" using c(1) inf unfolding in_frame_def by linarith+
    ultimately show ?thesis by (subst unat_ptr_add) linarith+
  qed
  have lo: "?c (i - 1) \<le> unat ?A" and hi: "unat ?A + n \<le> ?c i - 16"
    using A c inf unfolding in_frame_def by linarith+
  have "spans ?A n \<inter> spans (act_cfa (acts d 0) - 8) 8 = {}"
  proof (rule spans_disjoint)
    have "8 \<le> ?c 0" by (rule standingD(2)[OF st])
    then have e: "unat (act_cfa (acts d 0) - 8) = ?c 0 - 8" "8 \<le> ?c 0" by (simp_all add: unat_minus_small)
    show "unat ?A + n \<le> 2 ^ 64" using hi b by simp
    show "unat (act_cfa (acts d 0) - 8) + 8 \<le> 2 ^ 64" using e unat_less_64[of "act_cfa (acts d 0)"] by simp
    show "unat ?A + n \<le> unat (act_cfa (acts d 0) - 8) \<or> unat (act_cfa (acts d 0) - 8) + 8 \<le> unat ?A"
      using e lo standing_mono[OF st, of 0 "i - 1"] i by linarith
  qed
  moreover have "spans ?A n \<inter> spans (act_cfa (acts d j) - 16) 16 = {}" if j: "1 \<le> j" "j \<le> a" for j
  proof (rule spans_disjoint)
    note cj = standing_cfa(2-4)[OF st j(2,1)]
    show "unat ?A + n \<le> 2 ^ 64" using hi b by simp
    show "unat (act_cfa (acts d j) - 16) + 16 \<le> 2 ^ 64" using cj unat_less_64[of "act_cfa (acts d j)"] by simp
    show "unat ?A + n \<le> unat (act_cfa (acts d j) - 16) \<or> unat (act_cfa (acts d j) - 16) + 16 \<le> unat ?A"
    proof (cases "j < i")
      case True
      then show ?thesis using cj lo standing_mono[OF st, of j "i - 1"] i by linarith
    next
      case False
      then show ?thesis using cj hi standing_mono[OF st, of i j] j by linarith
    qed
  qed
  ultimately show ?thesis unfolding links_def by fastforce
qed

section \<open>What the writes of a frame leave alone\<close>

text \<open>The special registers: stack, frame and instruction pointer, and the return address.\<close>

definition specials :: "'b regops_t \<Rightarrow> nat \<Rightarrow> 'b regset_obj \<Rightarrow> u64 \<times> u64 \<times> u64 \<times> u8 list res" where
  "specials ops rar rs = (sp ops rs, fbp ops rs, pc ops rs, reg_get ops rs rar)"

definition preserves :: "'b regops_t \<Rightarrow> nat \<Rightarrow> u64 set \<Rightarrow> mem \<Rightarrow> 'b rewrite_context \<Rightarrow> mem \<Rightarrow> 'b rewrite_context \<Rightarrow> bool" where
  "preserves ops rar P m d m' d' \<longleftrightarrow> keeps d d' \<and>
     (\<forall>i. specials ops rar (act_regs (acts d' i)) = specials ops rar (act_regs (acts d i))) \<and> (\<forall>x\<in>P. m' x = m x)"

lemma preserves_refl [simp]: "preserves ops rar P m d m d"
  by (simp add: preserves_def)

lemma preserves_trans: "preserves ops rar P m d m1 d1 \<Longrightarrow> preserves ops rar P m1 d1 m2 d2 \<Longrightarrow> preserves ops rar P m d m2 d2"
  unfolding preserves_def by (metis keeps_trans)

lemma preserves_pointers [simp]: "preserves ops rar P m d m' (d'\<lparr>stack_pointers := ps\<rparr>) = preserves ops rar P m d m' d'"
  by (simp add: preserves_def)

lemma standing_preserves:
  assumes "preserves ops rar P m d m' d'"
  shows "standing ops d' a = standing ops d a" and "links d' a = links d a" and "frames_sum d' i = frames_sum d i"
proof -
  have k: "\<And>i. act_site (acts d' i) = act_site (acts d i)" "\<And>i. act_cfa (acts d' i) = act_cfa (acts d i)"
    "\<And>i. sp ops (act_regs (acts d' i)) = sp ops (act_regs (acts d i))"
    "\<And>i. fbp ops (act_regs (acts d' i)) = fbp ops (act_regs (acts d i))"
    using assms by (auto simp: preserves_def keeps_def specials_def)
  show f: "frames_sum d' i = frames_sum d i" for i by (rule frames_sum_cong) (simp add: k)
  show "standing ops d' a = standing ops d a" unfolding standing_def k f ..
  show "links d' a = links d a" unfolding links_def k ..
qed

text \<open>Locations that may be written: registers that are not special, memory apart from \<open>P\<close>.\<close>

definition safe_loc :: "nat set \<Rightarrow> u64 set \<Rightarrow> loc \<Rightarrow> nat \<Rightarrow> bool" where
  "safe_loc S P l n = (case l of Loc_reg i r \<Rightarrow> r \<notin> S | Loc_mem a \<Rightarrow> spans a n \<inter> P = {})"

lemma safe_loc_mono: "safe_loc S P l n \<Longrightarrow> k \<le> n \<Longrightarrow> safe_loc S P l k"
  using spans_mono[of k n] by (auto simp: safe_loc_def split: loc.splits)

text \<open>
  A location of the metadata that stays inside its frame: a register that is not special, with
  at most eight bytes when it is callee-saved and so has a save slot, or bytes of the frame
  addressed from the frame or stack pointer.
\<close>

definition framed_loc :: "nat \<Rightarrow> nat \<Rightarrow> nat \<Rightarrow> properties_t \<Rightarrow> u32 \<Rightarrow> location_type \<Rightarrow> nat \<Rightarrow> u32 \<Rightarrow> nat \<Rightarrow> bool" where
  "framed_loc spr fbpr rar props fsize type r off n =
     (case type of
        SM_REGISTER \<Rightarrow> r \<notin> {spr, fbpr, rar} \<and> (is_callee_saved props r \<longrightarrow> n \<le> 8)
      | SM_DIRECT \<Rightarrow> r = fbpr \<and> in_frame fsize (sint off) n \<or> r = spr \<and> in_frame fsize (sint off + 16 - int (unat fsize)) n
      | SM_INDIRECT \<Rightarrow> r = fbpr \<and> in_frame fsize (sint off) n \<or> r = spr \<and> in_frame fsize (sint off + 16 - int (unat fsize)) n
      | _ \<Rightarrow> True)"

lemma framed_loc_mono: "framed_loc spr fbpr rar props fsize type r off n \<Longrightarrow> k \<le> n \<Longrightarrow> framed_loc spr fbpr rar props fsize type r off k"
  by (auto simp: framed_loc_def in_frame_def split: location_type.splits)

text \<open>
  A site of the destination metadata whose values and save slots stay inside the frame. A fixup
  writes eight bytes; without assertions any value of the frame can be the target of one.
\<close>

definition framed_size :: "bool \<Rightarrow> live_value \<Rightarrow> nat" where
  "framed_size checks v = (if checks \<and> \<not> is_ptr v then VAL_SIZE v else max 8 (VAL_SIZE v))"

definition framed_val :: "nat \<Rightarrow> nat \<Rightarrow> nat \<Rightarrow> properties_t \<Rightarrow> bool \<Rightarrow> u32 \<Rightarrow> live_value \<Rightarrow> bool" where
  "framed_val spr fbpr rar props checks fsize v \<longleftrightarrow> framed_loc spr fbpr rar props fsize (lv_type v) (unat (lv_regnum v)) (lv_offset v) (framed_size checks v)"

definition framed_arch :: "nat \<Rightarrow> nat \<Rightarrow> nat \<Rightarrow> properties_t \<Rightarrow> u32 \<Rightarrow> arch_live_value \<Rightarrow> bool" where
  "framed_arch spr fbpr rar props fsize v \<longleftrightarrow> framed_loc spr fbpr rar props fsize (al_type v) (unat (al_regnum v)) (al_offset v) 8"

definition framed_saves :: "nat \<Rightarrow> nat \<Rightarrow> 'b st_handle \<Rightarrow> call_site \<Rightarrow> bool" where
  "framed_saves fbpr rar h site \<longleftrightarrow> (\<forall>k\<in>set (unwind_range site). k < length (unwind_locs h) \<longrightarrow>
     loc_reg (unwind_locs h ! k) \<in> {fbpr, rar} \<or> in_frame (cs_frame_size site) (sint (ul_offset (unwind_locs h ! k))) 8)"

definition framed_site :: "nat \<Rightarrow> nat \<Rightarrow> nat \<Rightarrow> bool \<Rightarrow> 'b st_handle \<Rightarrow> call_site \<Rightarrow> bool" where
  "framed_site spr fbpr rar checks h site \<longleftrightarrow>
     16 \<le> unat (cs_frame_size site) \<and> cs_addr site \<noteq> 0 \<and> framed_saves fbpr rar h site \<and>
     (let off = unat (cs_live_offset site); n = unat (cs_num_live site) in
       (\<forall>k<n. off + k < length (live_vals h) \<longrightarrow> framed_val spr fbpr rar (h_props h) checks (cs_frame_size site) (live_vals h ! (off + k))) \<and>
       (off + n < length (live_vals h) \<longrightarrow> \<not> is_duplicate (live_vals h ! (off + n)))) \<and>
     (let off = unat (cs_arch_live_offset site) in
       \<forall>k<unat (cs_num_arch_live site). off + k < length (arch_live_vals h) \<longrightarrow>
         framed_arch spr fbpr rar (h_props h) (cs_frame_size site) (arch_live_vals h ! (off + k)))"

definition framed_fixup :: "nat \<Rightarrow> nat \<Rightarrow> nat \<Rightarrow> 'b rewrite_context \<Rightarrow> nat \<Rightarrow> fixup \<Rightarrow> bool" where
  "framed_fixup spr fbpr rar d a fx \<longleftrightarrow> 1 \<le> fx_act fx \<and> fx_act fx \<le> a \<and>
     framed_loc spr fbpr rar (PROPS d) (cs_frame_size (act_site (acts d (fx_act fx)))) (lv_type (fx_dest_loc fx))
       (unat (lv_regnum (fx_dest_loc fx))) (lv_offset (fx_dest_loc fx)) 8"

lemma save_search_cases:
  "save_search ctx a r ks = Inr x \<Longrightarrow> x = 0 \<or> (\<exists>k\<in>set ks. k < length (unwind_locs (handle ctx)) \<and>
     loc_reg (unwind_locs (handle ctx) ! k) = r \<and> x = save_slot ctx a (unwind_locs (handle ctx) ! k))"
  by (induction ks) (auto simp: res_simps loc_reg_def split: if_splits)

context stack_properties
begin

lemma write_loc_preserves:
  assumes "REGOPS d = ops" and "write_loc d m l bs = Inr (m', d')" and "safe_loc {spr, fbpr, rar} P l (length bs)"
  shows "preserves ops rar P m d m' d'"
proof (cases l)
  case (Loc_mem a)
  then have "m' = write_bytes m a bs" "d' = d" "spans a (length bs) \<inter> P = {}"
    using assms by (auto simp: write_loc_def safe_loc_def split: if_splits)
  then show ?thesis using write_bytes_outside[of _ a bs m] by (auto simp: preserves_def)
next
  case (Loc_reg i r)
  then obtain rs where rs: "reg_put ops (act_regs (acts d i)) r bs = Inr rs" "m' = m" "d' = upd_act d i (\<lambda>a. a\<lparr>act_regs := rs\<rparr>)"
    using assms by (auto simp: write_loc_def res_simps)
  have r: "r \<noteq> spr" "r \<noteq> fbpr" "r \<noteq> rar" using assms(3) Loc_reg by (auto simp: safe_loc_def)
  have "reg_get ops rs r' = reg_get ops (act_regs (acts d i)) r'" if "r' \<in> {spr, fbpr, rar}" for r'
    using put_other[OF rs(1), of r'] r that by auto
  then have "specials ops rar rs = specials ops rar (act_regs (acts d i))"
    using put_pc[OF rs(1) r(3)] get_sp[of rs] get_sp[of "act_regs (acts d i)"] get_fbp[of rs] get_fbp[of "act_regs (acts d i)"]
    by (simp add: specials_def)
  then show ?thesis using rs write_loc_keeps[OF assms(2)] by (simp add: preserves_def)
qed

lemma get_val_loc_safe:
  assumes st: "standing ops d a" and ops: "REGOPS d = ops" and i: "1 \<le> i" "i \<le> a"
    and fr: "framed_loc spr fbpr rar props (cs_frame_size (act_site (acts d i))) type r off n"
    and run: "get_val_loc d type r off i = Inr l"
  shows "safe_loc {spr, fbpr, rar} (links d a) l n"
proof -
  have base: "safe_loc {spr, fbpr, rar} (links d a) (Loc_mem (ptr_add p (sint off))) n"
    if "reg_read64 ops (act_regs (acts d i)) r = Inr p"
      "r = fbpr \<and> in_frame (cs_frame_size (act_site (acts d i))) (sint off) n \<or>
       r = spr \<and> in_frame (cs_frame_size (act_site (acts d i))) (sint off + 16 - int (unat (cs_frame_size (act_site (acts d i))))) n" for p
    using that(2)
  proof (elim disjE conjE)
    assume "r = fbpr" and f: "in_frame (cs_frame_size (act_site (acts d i))) (sint off) n"
    then have "p = act_cfa (acts d i) - 16" using that(1) read64_fbp standingD(5)[OF st i] by simp
    then show ?thesis using frame_slot_apart[OF st i f] by (simp add: safe_loc_def)
  next
    let ?fs = "cs_frame_size (act_site (acts d i))"
    assume "r = spr" and f: "in_frame ?fs (sint off + 16 - int (unat ?fs)) n"
    then have "p = act_cfa (acts d (i - 1))" using that(1) read64_sp standingD(6)[OF st i] by simp
    moreover have "act_cfa (acts d i) = act_cfa (acts d (i - 1)) + ucast ?fs"
      using word_of_frame[OF standing_cfa(2)[OF st i(2,1)]] by simp
    ultimately have "ptr_add p (sint off) = ptr_add (act_cfa (acts d i) - 16) (sint off + 16 - int (unat ?fs))"
      by (simp add: ptr_add_def of_nat_frame)
    then show ?thesis using frame_slot_apart[OF st i f] by (simp add: safe_loc_def)
  qed
  show ?thesis
    using run fr ops base
    by (cases type) (auto simp: get_val_loc_def framed_loc_def res_simps safe_loc_def)
qed

lemma callee_walk_safe:
  assumes st: "standing ops d a" and ops: "REGOPS d = ops" and r: "r \<notin> {spr, fbpr, rar}"
    and sites: "\<And>i. 1 \<le> i \<Longrightarrow> i \<le> a \<Longrightarrow> framed_saves fbpr rar (handle d) (act_site (acts d i))"
    and run: "callee_walk checks d r k = Inr (Some l)" and k: "k \<le> Suc a"
  shows "safe_loc {spr, fbpr, rar} (links d a) l 8"
  using run k
proof (induction k)
  case 0
  then show ?case using r by (auto simp: res_simps safe_loc_def)
next
  case (Suc k)
  show ?case
  proof (cases "\<exists>x. x \<noteq> 0 \<and> l = Loc_mem x \<and> save_search d (acts d k) r (unwind_range (act_site (acts d k))) = Inr x")
    case True
    then obtain x where x: "x \<noteq> 0" "l = Loc_mem x" "save_search d (acts d k) r (unwind_range (act_site (acts d k))) = Inr x" by blast
    then obtain j where j: "j \<in> set (unwind_range (act_site (acts d k)))" "j < length (unwind_locs (handle d))"
      "loc_reg (unwind_locs (handle d) ! j) = r" "x = save_slot d (acts d k) (unwind_locs (handle d) ! j)"
      using save_search_cases by blast
    have "k \<noteq> 0" using j(1) standingD(1)[OF st] by (cases k) (auto simp: unwind_range_def EMPTY_CALL_SITE_def)
    then have k: "1 \<le> k" "k \<le> a" using Suc.prems by auto
    have "in_frame (cs_frame_size (act_site (acts d k))) (sint (ul_offset (unwind_locs (handle d) ! j))) 8"
      using sites[OF k] j r unfolding framed_saves_def by auto
    from frame_slot_apart[OF st k this] show ?thesis
      using x(2) j(4) ops standingD(5)[OF st k] by (simp add: safe_loc_def save_slot_def)
  next
    case False
    then have "callee_walk checks d r k = Inr (Some l)"
      using Suc.prems(1) by (auto simp: res_simps get_register_save_loc_def split: if_splits)
    with Suc show ?thesis by simp
  qed
qed

lemma callee_addr_safe:
  assumes "standing ops d a" and "REGOPS d = ops" and "1 \<le> i" and "i \<le> a"
    and "\<And>i. 1 \<le> i \<Longrightarrow> i \<le> a \<Longrightarrow> framed_saves fbpr rar (handle d) (act_site (acts d i))"
    and "framed_loc spr fbpr rar (PROPS d) fsize type r off n"
    and "callee_addr_of checks d type r i = Inr (Some l)"
  shows "safe_loc {spr, fbpr, rar} (links d a) l n"
proof -
  have t: "type = SM_REGISTER" "is_callee_saved (PROPS d) r" "callee_walk checks d r i = Inr (Some l)"
    using assms(3,7) by (auto simp: callee_addr_of_def callee_saved_loc_def split: if_splits)
  then have "r \<notin> {spr, fbpr, rar}" "n \<le> 8" using assms(6) by (auto simp: framed_loc_def)
  with callee_walk_safe[OF assms(1,2) _ assms(5) t(3)] assms(4) show ?thesis by (auto intro: safe_loc_mono)
qed

lemma put_val_preserves:
  assumes st: "standing ops d a" and ops: "REGOPS d = ops" "PROPS d = props" and act: "act d = a" "act src = a" "1 \<le> a"
    and saves: "\<And>i. 1 \<le> i \<Longrightarrow> i \<le> a \<Longrightarrow> framed_saves fbpr rar (handle d) (act_site (acts d i))"
    and fr: "framed_loc spr fbpr rar props (cs_frame_size (act_site (acts d a))) (lv_type dv) (unat (lv_regnum dv)) (lv_offset dv) (VAL_SIZE dv)"
    and run: "put_val checks m src sv d dv = Inr (m', d')"
  shows "preserves ops rar (links d a) m d m' d'"
proof (cases "is_const (lv_type dv)")
  case True
  then show ?thesis using run by (auto simp: put_val_def res_simps)
next
  case False
  then obtain sl l co bs m1 d1 where r: "get_dest_loc d dv a = Inr l"
      "callee_addr_of checks d (lv_type dv) (unat (lv_regnum dv)) a = Inr co"
      "read_src src m sl (VAL_SIZE dv) = Inr bs" "write_loc d m l bs = Inr (m1, d1)"
    and rest: "(case co of None \<Rightarrow> Inr (m1, d1)
       | Some l \<Rightarrow> bindE (read_src src m1 sl (VAL_SIZE dv)) (\<lambda>bs1. write_loc d1 m1 l bs1)) = Inr (m', d')"
    using run act by (auto simp: put_val_def res_simps)
  have 1: "preserves ops rar (links d a) m d m1 d1"
    using get_val_loc_safe[OF st ops(1) act(3) order_refl fr] r(1) read_src_length[OF r(3)]
    by (intro write_loc_preserves[OF ops(1) r(4)]) (simp add: get_dest_loc_def)
  show ?thesis
  proof (cases co)
    case None
    then show ?thesis using rest 1 by simp
  next
    case (Some l')
    then obtain bs1 where b: "read_src src m1 sl (VAL_SIZE dv) = Inr bs1" "write_loc d1 m1 l' bs1 = Inr (m', d')"
      using rest by (auto simp: res_simps)
    have "REGOPS d1 = ops" using 1 ops by (simp add: preserves_def keeps_def)
    moreover have "safe_loc {spr, fbpr, rar} (links d a) l' (VAL_SIZE dv)"
      by (rule callee_addr_safe[OF st ops(1) act(3) order_refl saves, where type = "lv_type dv" and r = "unat (lv_regnum dv)"])
         (use fr ops r(2) Some in auto)
    ultimately show ?thesis
      using write_loc_preserves[OF _ b(2)] read_src_length[OF b(1)] preserves_trans[OF 1] by simp
  qed
qed

lemma put_val_data_preserves:
  assumes st: "standing ops d a" and ops: "REGOPS d = ops" "PROPS d = props" and i: "1 \<le> i" "i \<le> a"
    and saves: "\<And>i. 1 \<le> i \<Longrightarrow> i \<le> a \<Longrightarrow> framed_saves fbpr rar (handle d) (act_site (acts d i))"
    and fr: "framed_loc spr fbpr rar props (cs_frame_size (act_site (acts d i))) (lv_type v) (unat (lv_regnum v)) (lv_offset v) 8"
    and run: "put_val_data checks m d v i data = Inr (m', d')"
  shows "preserves ops rar (links d a) m d m' d'"
proof (cases "is_const (lv_type v)")
  case True
  then show ?thesis using run by (auto simp: put_val_data_def res_simps)
next
  case False
  then obtain l co m1 d1 where r: "get_dest_loc d v i = Inr l"
      "callee_addr_of checks d (lv_type v) (unat (lv_regnum v)) i = Inr co"
      "write_loc d m l (le_bytes 8 data) = Inr (m1, d1)" "write_opt d1 m1 co (le_bytes 8 data) = Inr (m', d')"
    using run by (auto simp: put_val_data_def res_simps)
  have 1: "preserves ops rar (links d a) m d m1 d1"
    using get_val_loc_safe[OF st ops(1) i fr] r(1)
    by (intro write_loc_preserves[OF ops(1) r(3)]) (simp add: get_dest_loc_def)
  show ?thesis
  proof (cases co)
    case None
    then show ?thesis using r(4) 1 by (simp add: write_opt_def)
  next
    case (Some l')
    have "REGOPS d1 = ops" using 1 ops by (simp add: preserves_def keeps_def)
    moreover have "safe_loc {spr, fbpr, rar} (links d a) l' 8"
      by (rule callee_addr_safe[OF st ops(1) i saves, where type = "lv_type v" and r = "unat (lv_regnum v)"])
         (use fr ops r(2) Some in auto)
    ultimately show ?thesis
      using write_loc_preserves[of d1 m1 l'] r(4) Some preserves_trans[OF 1] by (simp add: write_opt_def)
  qed
qed

lemma put_val_arch_preserves:
  assumes st: "standing ops d a" and ops: "REGOPS d = ops" "PROPS d = props" and act: "act d = a" "1 \<le> a"
    and saves: "\<And>i. 1 \<le> i \<Longrightarrow> i \<le> a \<Longrightarrow> framed_saves fbpr rar (handle d) (act_site (acts d i))"
    and fr: "framed_arch spr fbpr rar props (cs_frame_size (act_site (acts d a))) v"
    and run: "put_val_arch checks m d v = Inr (m', d')"
  shows "preserves ops rar (links d a) m d m' d'"
proof -
  obtain l co v' m1 d1 where r: "get_val_loc d (al_type v) (unat (al_regnum v)) (al_offset v) a = Inr l"
      "callee_addr_of checks d (al_type v) (unat (al_regnum v)) a = Inr co"
      "write_loc d m l (le_bytes 8 (v' :: u64)) = Inr (m1, d1)"
    and rest: "(case co of None \<Rightarrow> Inr (m1, d1)
       | Some l' \<Rightarrow> bindE (read_loc d1 m1 l 8) (\<lambda>bs. write_loc d1 m1 l' bs)) = Inr (m', d')"
    using run act by (auto simp: put_val_arch_def apply_arch_operation_def res_simps)
  have 1: "preserves ops rar (links d a) m d m1 d1"
    using get_val_loc_safe[OF st ops(1) act(2) order_refl fr[unfolded framed_arch_def] r(1)]
    by (intro write_loc_preserves[OF ops(1) r(3)]) simp
  show ?thesis
  proof (cases co)
    case None
    then show ?thesis using rest 1 by simp
  next
    case (Some l')
    then obtain bs where b: "read_loc d1 m1 l 8 = Inr bs" "write_loc d1 m1 l' bs = Inr (m', d')"
      using rest by (auto simp: res_simps)
    have "REGOPS d1 = ops" using 1 ops by (simp add: preserves_def keeps_def)
    moreover have "safe_loc {spr, fbpr, rar} (links d a) l' 8"
      by (rule callee_addr_safe[OF st ops(1) act(2) order_refl saves, where type = "al_type v" and r = "unat (al_regnum v)"])
         (use fr[unfolded framed_arch_def] ops r(2) Some in auto)
    ultimately show ?thesis
      using write_loc_preserves[OF _ b(2)] read_loc_length[OF b(1)] preserves_trans[OF 1] by simp
  qed
qed

text \<open>So rewriting a frame keeps the links of all frames up to it and the special registers.\<close>

lemma frame_invariant_preserves:
  assumes st: "standing ops d a" and ops: "REGOPS d = ops" "PROPS d = props" and act: "act d = a" "act src = a" "1 \<le> a"
    and saves: "\<And>i. 1 \<le> i \<Longrightarrow> i \<le> a \<Longrightarrow> framed_saves fbpr rar (handle d) (act_site (acts d i))"
    and fsize: "fsize = cs_frame_size (act_site (acts d a))"
  shows "frame_invariant checks src (preserves ops rar (links d a) m d) (framed_val spr fbpr rar props checks fsize)
    (framed_fixup spr fbpr rar d a) (framed_arch spr fbpr rar props fsize)"
proof unfold_locales
  note eqs = ops act st saves fsize
  have at: "standing ops d1 a" "links d1 a = links d a" "REGOPS d1 = ops" "PROPS d1 = props" "act d1 = a"
    "\<And>i. act_site (acts d1 i) = act_site (acts d i)"
    "\<And>i. 1 \<le> i \<Longrightarrow> i \<le> a \<Longrightarrow> framed_saves fbpr rar (handle d1) (act_site (acts d1 i))"
    if "preserves ops rar (links d a) m d m1 d1" for m1 d1
    using that eqs standing_preserves[OF that] by (auto simp: preserves_def keeps_def)
  show "preserves ops rar (links d a) m d m2 d2"
    if p: "preserves ops rar (links d a) m d m1 d1" "framed_val spr fbpr rar props checks fsize dv" "put_val checks m1 src sv d1 dv = Inr (m2, d2)"
    for m1 d1 dv sv m2 d2
  proof -
    have "framed_loc spr fbpr rar props (cs_frame_size (act_site (acts d1 a))) (lv_type dv) (unat (lv_regnum dv)) (lv_offset dv) (VAL_SIZE dv)"
      using p(2) fsize unfolding framed_val_def at(6)[OF p(1)] by (auto simp: framed_size_def elim: framed_loc_mono)
    from put_val_preserves[OF at(1,3,4,5)[OF p(1)] act(2,3) at(7)[OF p(1)] this p(3)] at(2)[OF p(1)] p(1)
    show ?thesis by (auto intro: preserves_trans)
  qed
  show "preserves ops rar (links d a) m d m2 d2"
    if p: "preserves ops rar (links d a) m d m1 d1" "framed_fixup spr fbpr rar d a fx"
      "put_val_data checks m1 d1 (fx_dest_loc fx) (fx_act fx) x = Inr (m2, d2)" for m1 d1 fx x m2 d2
  proof -
    have f: "1 \<le> fx_act fx" "fx_act fx \<le> a" "framed_loc spr fbpr rar props (cs_frame_size (act_site (acts d1 (fx_act fx)))) (lv_type (fx_dest_loc fx))
       (unat (lv_regnum (fx_dest_loc fx))) (lv_offset (fx_dest_loc fx)) 8"
      using p(2) ops unfolding framed_fixup_def at(6)[OF p(1)] by auto
    from put_val_data_preserves[OF at(1,3,4)[OF p(1)] f(1,2) at(7)[OF p(1)] f(3) p(3)] at(2)[OF p(1)] p(1)
    show ?thesis by (auto intro: preserves_trans)
  qed
  show "preserves ops rar (links d a) m d m2 d2"
    if p: "preserves ops rar (links d a) m d m1 d1" "framed_arch spr fbpr rar props fsize v" "put_val_arch checks m1 d1 v = Inr (m2, d2)" for m1 d1 v m2 d2
    using put_val_arch_preserves[OF at(1,3,4,5)[OF p(1)] act(3) at(7)[OF p(1)] _ p(3)] at(2,6)[OF p(1)] p fsize
    by (auto intro: preserves_trans)
  show "framed_fixup spr fbpr rar d a fx"
    if p: "preserves ops rar (links d a) m d m1 d1" "framed_val spr fbpr rar props checks fsize dv" "is_ptr sv" "checks \<longrightarrow> is_ptr dv"
      "fx_act fx = act d1" "fx_dest_loc fx = dv" for m1 d1 dv sv fx
    using p(2,4-6) at(5)[OF p(1)] act(3) ops fsize
    by (auto simp: framed_fixup_def framed_val_def framed_size_def elim: framed_loc_mono split: if_splits)
qed simp

lemma rewrite_frame_preserves:
  assumes "standing ops d a" and "REGOPS d = ops" "PROPS d = props" and "act d = a" "act src = a" "1 \<le> a"
    and sites: "\<And>i. 1 \<le> i \<Longrightarrow> i \<le> a \<Longrightarrow> framed_site spr fbpr rar checks (handle d) (act_site (acts d i))"
    and fixups: "\<forall>fx\<in>set (stack_pointers d). framed_fixup spr fbpr rar d a fx"
    and run: "rewrite_frame checks m src d = Some (Inr (m', d'))"
  shows "preserves ops rar (links d a) m d m' d' \<and> (\<forall>fx\<in>set (stack_pointers d'). framed_fixup spr fbpr rar d a fx)"
proof (rule frame_invariant.rewrite_frame_inv[OF frame_invariant_preserves[OF assms(1-6) _ refl] preserves_refl fixups _ _ _ run])
  let ?site = "act_site (acts d a)"
  have site: "framed_site spr fbpr rar checks (handle d) ?site" using sites[OF assms(6) order_refl] .
  show "?site = act_site (ACT d)" using assms(4) by simp
  show "framed_saves fbpr rar (handle d) (act_site (acts d i))" if "1 \<le> i" "i \<le> a" for i
    using sites[OF that] by (simp add: framed_site_def)
  show "framed_val spr fbpr rar props checks (cs_frame_size ?site) (live_vals (handle d) ! (unat (cs_live_offset ?site) + k))"
    if k: "touched (live_vals (handle d)) (unat (cs_live_offset ?site)) (unat (cs_num_live ?site)) k"
      "unat (cs_live_offset ?site) + k < length (live_vals (handle d))" for k
  proof -
    have "k < unat (cs_num_live ?site)" using k site by (fastforce simp: touched_def framed_site_def Let_def not_less)
    then show ?thesis using site k(2) assms(3) by (simp add: framed_site_def Let_def)
  qed
  show "framed_arch spr fbpr rar props (cs_frame_size ?site) (arch_live_vals (handle d) ! (unat (cs_arch_live_offset ?site) + k))"
    if "k < unat (cs_num_arch_live ?site)" "unat (cs_arch_live_offset ?site) + k < length (arch_live_vals (handle d))" for k
    using site that assms(3) by (simp add: framed_site_def Let_def)
qed

end

end
