(* ===== verification/Rewrite_Run.thy ===== *)
theory Rewrite_Run
  imports Frame_Links
begin

text \<open>
  A whole run of the rewriting, \<open>lib/stack_transformation/src/rewrite.c\<close>: each step of the driver
  puts a frame on top of the frames that stand and links it, so after the run the registers
  are those at the entry of the function and the stack shows, followed by frame pointers, the
  call chain of the destination binary.
\<close>

section \<open>One step of the driver\<close>

text \<open>
  The links of the frames below \<open>a\<close>: each frame holds the return address into its caller and the
  caller's frame pointer.
\<close>

definition linked :: "mem \<Rightarrow> 'b rewrite_context \<Rightarrow> nat \<Rightarrow> bool" where
  "linked m d a \<longleftrightarrow> (\<forall>i. 1 \<le> i \<longrightarrow> i < a \<longrightarrow>
     load64 m (act_cfa (acts d i) - 8) = cs_addr (act_site (acts d (Suc i))) \<and>
     load64 m (act_cfa (acts d i) - 16) = act_cfa (acts d (Suc i)) - 16)"

lemma spans_upper: "spans (c - 8) 8 \<subseteq> spans (c - 16) 16"
proof
  fix x :: u64 assume "x \<in> spans (c - 8) 8"
  then have 8: "unat (x - (c - 8)) < 8" by (simp add: spans_def)
  have "x - (c - 16) = (x - (c - 8)) + 8" by simp
  then have "unat (x - (c - 16)) = unat (x - (c - 8)) + 8"
    using 8 by (simp only:) (subst unat_add_lem[THEN iffD1], simp_all)
  with 8 show "x \<in> spans (c - 16) 16" by (simp add: spans_def)
qed

lemma links_slots:
  "spans (act_cfa (acts d 0) - 8) 8 \<subseteq> links d a"
  "1 \<le> i \<Longrightarrow> i \<le> a \<Longrightarrow> spans (act_cfa (acts d i) - 8) 8 \<subseteq> links d a"
  "1 \<le> i \<Longrightarrow> i \<le> a \<Longrightarrow> spans (act_cfa (acts d i) - 16) 8 \<subseteq> links d a"
  using spans_upper[of "act_cfa (acts d i)"] spans_mono[of 8 16 "act_cfa (acts d i) - 16"] by (auto simp: links_def)

text \<open>The slots of different frames are apart, and so are the two of one frame.\<close>

lemma slots_apart:
  assumes st: "standing ops d a" and ij: "i < j" "j \<le> a" and k: "k = 8 \<or> k = 16 \<and> 1 \<le> i" and l: "l = 8 \<or> l = 16"
  shows "spans (act_cfa (acts d i) - k) 8 \<inter> spans (act_cfa (acts d j) - l) 8 = {}"
proof (rule spans_disjoint)
  let ?c = "\<lambda>i. unat (act_cfa (acts d i))"
  have j: "1 \<le> j" "24 \<le> ?c j" "?c (j - 1) + unat (cs_frame_size (act_site (acts d j))) = ?c j"
      "16 \<le> unat (cs_frame_size (act_site (acts d j)))" "?c i \<le> ?c (j - 1)"
    using ij standing_cfa(2,4)[OF st ij(2)] standingD(4)[OF st _ ij(2)] standing_mono[OF st, of i "j - 1"] by auto
  have i: "unat k \<le> ?c i" using k standingD(2)[OF st] standing_cfa(4)[OF st, of i] standing_mono[OF st, of 0 i] ij by auto
  have kl: "unat k = 8 \<or> unat k = 16" "unat l = 8 \<or> unat l = 16" using k l by auto
  have e: "unat (act_cfa (acts d i) - k) = ?c i - unat k" "unat (act_cfa (acts d j) - l) = ?c j - unat l"
    using i j(2) kl by (auto intro!: unat_minus_small)
  note b = unat_less_64[of "act_cfa (acts d i)"] unat_less_64[of "act_cfa (acts d j)"]
  show "unat (act_cfa (acts d i) - k) + 8 \<le> 2 ^ 64" using e(1) kl(1) i b by linarith
  show "unat (act_cfa (acts d j) - l) + 8 \<le> 2 ^ 64" using e(2) kl(2) j b by linarith
  show "unat (act_cfa (acts d i) - k) + 8 \<le> unat (act_cfa (acts d j) - l) \<or>
      unat (act_cfa (acts d j) - l) + 8 \<le> unat (act_cfa (acts d i) - k)"
    using e kl i j by linarith
qed

lemma slot_pair_apart:
  assumes st: "standing ops d a" and i: "1 \<le> i" "i \<le> a"
  shows "spans (act_cfa (acts d i) - 16) 8 \<inter> spans (act_cfa (acts d i) - 8) 8 = {}"
proof (rule spans_disjoint)
  let ?c = "act_cfa (acts d i)"
  have c: "24 \<le> unat ?c" using standing_cfa(4)[OF st i(2,1)] .
  then have e: "unat (?c - 16) = unat ?c - 16" "unat (?c - 8) = unat ?c - 8" by (simp_all add: unat_minus_small)
  note b = unat_less_64[of ?c]
  show "unat (?c - 16) + 8 \<le> 2 ^ 64" "unat (?c - 8) + 8 \<le> 2 ^ 64"
    "unat (?c - 16) + 8 \<le> unat (?c - 8) \<or> unat (?c - 8) + 8 \<le> unat (?c - 16)"
    using c e b by linarith+
qed

lemma preserves_load:
  assumes "preserves ops rar P m d m' d'" and "spans x 8 \<subseteq> P"
  shows "load64 m' x = load64 m x"
  using assms by (intro load64_cong) (auto simp: preserves_def)

text \<open>
  The state between two steps, at activation \<open>a\<close>: the frames stand, they are linked and the pending
  fixups are inside their frames. What no step changes: the metadata and the entry frame.
\<close>

definition built :: "'b regops_t \<Rightarrow> nat \<Rightarrow> nat \<Rightarrow> nat \<Rightarrow> mem \<Rightarrow> 'b rewrite_context \<Rightarrow> nat \<Rightarrow> bool" where
  "built ops spr fbpr rar m d a \<longleftrightarrow> standing ops d a \<and> linked m d a \<and> act d = a \<and>
     (\<forall>fx\<in>set (stack_pointers d). framed_fixup spr fbpr rar d a fx)"

definition same_entry :: "'b regops_t \<Rightarrow> nat \<Rightarrow> mem \<Rightarrow> 'b rewrite_context \<Rightarrow> mem \<Rightarrow> 'b rewrite_context \<Rightarrow> bool" where
  "same_entry ops rar m d m' d' \<longleftrightarrow> handle d' = handle d \<and> (\<forall>i. act_site (acts d' i) = act_site (acts d i)) \<and>
     act_cfa (acts d' 0) = act_cfa (acts d 0) \<and> out_regs d' = out_regs d \<and> num_acts d' = num_acts d \<and>
     specials ops rar (act_regs (acts d' 0)) = specials ops rar (act_regs (acts d 0)) \<and>
     load64 m' (act_cfa (acts d 0) - 8) = load64 m (act_cfa (acts d 0) - 8)"

lemma same_entry_refl [simp]: "same_entry ops rar m d m d"
  by (simp add: same_entry_def)

lemma same_entry_trans: "same_entry ops rar m d m1 d1 \<Longrightarrow> same_entry ops rar m1 d1 m2 d2 \<Longrightarrow> same_entry ops rar m d m2 d2"
  by (simp add: same_entry_def)

text \<open>A frame on top of the frames that stand, and its links on top of theirs.\<close>

lemma standing_next:
  assumes st: "standing ops d a" and keep: "\<And>i. i \<le> a \<Longrightarrow> acts d' i = acts d i" "\<And>i. act_site (acts d' i) = act_site (acts d i)"
    and new: "act_cfa (acts d' (Suc a)) = act_cfa (acts d a) + ucast (cs_frame_size (act_site (acts d (Suc a))))"
      "fbp ops (act_regs (acts d' (Suc a))) = act_cfa (acts d' (Suc a)) - 16" "sp ops (act_regs (acts d' (Suc a))) = act_cfa (acts d a)"
    and room: "unat (act_cfa (acts d 0)) + frames_sum d (Suc a) < 2 ^ 64" "16 \<le> unat (cs_frame_size (act_site (acts d (Suc a))))"
  shows "standing ops d' (Suc a)"
  unfolding standing_def
proof (intro conjI allI impI)
  have fs: "frames_sum d' i = frames_sum d i" for i by (rule frames_sum_cong) (simp add: keep)
  have top: "unat (act_cfa (acts d' (Suc a))) = unat (act_cfa (acts d 0)) + frames_sum d (Suc a)"
    unfolding new(1) using room(1) standingD(3)[OF st order_refl]
    by (subst unat_add_lem[THEN iffD1]) (simp_all add: unat_frame)
  show "act_site (acts d' 0) = EMPTY_CALL_SITE" using standingD(1)[OF st] keep by simp
  show "8 \<le> unat (act_cfa (acts d' 0))" using standingD(2)[OF st] keep by simp
  fix i assume i: "i \<le> Suc a"
  show "unat (act_cfa (acts d' i)) = unat (act_cfa (acts d' 0)) + frames_sum d' i"
    using i top standingD(3)[OF st, of i] keep fs by (cases "i = Suc a") auto
  assume i1: "1 \<le> i"
  show "16 \<le> unat (cs_frame_size (act_site (acts d' i)))"
    using i i1 room(2) keep standingD(4)[OF st, of i] by (cases "i = Suc a") auto
  show "fbp ops (act_regs (acts d' i)) = act_cfa (acts d' i) - 16"
    using i i1 new standingD(5)[OF st, of i] keep by (cases "i = Suc a") auto
  show "sp ops (act_regs (acts d' i)) = act_cfa (acts d' (i - 1))"
    using i i1 new keep standingD(6)[OF st, of i] by (cases "i = Suc a") auto
qed

text \<open>
  Memory after a step: the return address is stored, the frame is rewritten, the frame pointer
  is stored. The slots of the frames below keep their contents.
\<close>

lemma links_after_step:
  assumes st: "standing ops d a" and a: "1 \<le> a" and p: "preserves ops rar (links d a) (store64 m (act_cfa (acts d a) - 8) ra) d m1 d1"
    and m': "m' = store64 m1 (act_cfa (acts d a) - 16) fp"
  shows "i < a \<Longrightarrow> x = 8 \<or> x = 16 \<and> 1 \<le> i \<Longrightarrow> load64 m' (act_cfa (acts d i) - x) = load64 m (act_cfa (acts d i) - x)"
    and "load64 m' (act_cfa (acts d a) - 8) = ra" and "load64 m' (act_cfa (acts d a) - 16) = fp"
proof -
  let ?c = "\<lambda>i. act_cfa (acts d i)"
  show "load64 m' (?c a - 8) = ra" "load64 m' (?c a - 16) = fp"
    using slot_pair_apart[OF st a order_refl] preserves_load[OF p links_slots(2)[OF a order_refl]]
    unfolding m' by (simp_all add: load_store64_apart mem_simps)
  assume that: "i < a" "x = 8 \<or> x = 16 \<and> 1 \<le> i"
  have "spans (?c i - x) 8 \<subseteq> links d a"
    using links_slots(1)[of d a] links_slots(2,3)[of i a d] that by (cases "i = 0") (simp_all, blast)
  from preserves_load[OF p this]
  have "load64 m1 (?c i - x) = load64 (store64 m (?c a - 8) ra) (?c i - x)" .
  moreover have "spans (?c a - 16) 8 \<inter> spans (?c i - x) 8 = {}" "spans (?c a - 8) 8 \<inter> spans (?c i - x) 8 = {}"
    using slots_apart[OF st that(1) order_refl that(2), of 16] slots_apart[OF st that(1) order_refl that(2), of 8] by auto
  ultimately show "load64 m' (?c i - x) = load64 m (?c i - x)" unfolding m' by (simp add: load_store64_apart)
qed

context stack_properties
begin

lemma setup_frame_bounds_run:
  assumes "REGOPS c = ops" and "0 < i" and "setup_frame_bounds checks c i = Inr c'"
  shows "act_cfa (acts c' i) = act_cfa (acts c (i - 1)) + ucast (cs_frame_size (act_site (acts c i))) \<and>
    fbp ops (act_regs (acts c' i)) = act_cfa (acts c' i) - 16 \<and> sp ops (act_regs (acts c' i)) = act_cfa (acts c (i - 1))"
  using assms(2,3) by (auto simp: assms(1) setup_frame_bounds_def calculate_cfa_def Let_def res_simps setup_fbp_law special_simps)

lemma pop_frame_bounds_run:
  assumes ops: "REGOPS c = ops" and run: "pop_frame checks m c True = Inr c'"
  shows "act_cfa (ACT c') = act_cfa (ACT c) + ucast (cs_frame_size (act_site (NEXT_ACT c))) \<and>
    fbp ops (act_regs (ACT c')) = act_cfa (ACT c') - 16 \<and> sp ops (act_regs (ACT c')) = act_cfa (ACT c)"
proof -
  obtain c1 c2 c3 c4 where c: "setup_regset c (act c + 1) = Inr c1" "setup_callee_saved_bits c1 (act c + 1) = Inr c2"
      "restore_callee_saved_regs checks m c2 (act c + 1) = Inr c3" "setup_frame_bounds checks c3 (act c + 1) = Inr c4"
      "advance checks c4 = Inr c'"
    using run by (auto simp: pop_frame_def Let_def res_simps)
  have 1: "same_but (act c + 1) c c1" using c(1) by (auto simp: setup_regset_def act_slot_def split: if_splits)
  have 2: "same_but (act c + 1) c1 c2" using c(2) by (auto simp: setup_callee_saved_bits_def act_slot_def split: if_splits)
  have 3: "same_but (act c + 1) c c3"
    using same_but_trans[OF same_but_trans[OF 1 2] restore_callee_saved_same[OF c(3)]] .
  have "act c' = act c + 1" using pop_frame_act[OF run] by simp
  moreover have "acts c' = acts c4" using c(5) by (auto simp: advance_def Let_def res_simps)
  moreover have "acts c3 (act c) = acts c (act c)" "handle c3 = handle c"
    "act_site (acts c3 (act c + 1)) = act_site (acts c (act c + 1))"
    using 3 by (auto simp: same_but_def)
  ultimately show ?thesis using setup_frame_bounds_run[OF _ _ c(4)] ops by simp
qed

lemma frame_step_built:
  assumes bt: "built ops spr fbpr rar m d a" and ops: "REGOPS d = ops" "PROPS d = props" and act: "act src = a" "1 \<le> a"
    and sites: "\<And>i. 1 \<le> i \<Longrightarrow> i \<le> Suc a \<Longrightarrow> framed_site spr fbpr rar checks (handle d) (act_site (acts d i))"
    and room: "unat (act_cfa (acts d 0)) + frames_sum d (Suc a) < 2 ^ 64"
    and run: "frame_step checks src m d = Some (Inr (m', d'))"
  shows "built ops spr fbpr rar m' d' (Suc a) \<and> same_entry ops rar m d m' d'"
proof -
  let ?c = "\<lambda>i. act_cfa (acts d i)" and ?s = "\<lambda>i. act_site (acts d i)"
  have st: "standing ops d a" "linked m d a" "act d = a" "\<forall>fx\<in>set (stack_pointers d). framed_fixup spr fbpr rar d a fx"
    using bt by (auto simp: built_def)
  obtain m0 m1 d1 where r: "set_return_address checks m d (cs_addr (act_site (NEXT_ACT d))) = Inr m0"
    "rewrite_frame checks m0 src d = Some (Inr (m1, d1))" "pop_frame checks m1 d1 True = Inr d'"
    "m' = store64 m1 (get_savedfbp_loc d1) (fbp (REGOPS d') (act_regs (ACT d')))"
    using run by (auto simp: frame_step_def Let_def bindN_Some_Inr)
  have m0: "m0 = store64 m (?c a - 8) (cs_addr (?s (Suc a)))"
    using r(1) st(3) ops ra_offset_law by (auto simp: set_return_address_def res_simps ptr_add_def)
  have p: "preserves ops rar (links d a) m0 d m1 d1" "\<forall>fx\<in>set (stack_pointers d1). framed_fixup spr fbpr rar d a fx"
    using rewrite_frame_preserves[OF st(1) ops st(3) act _ st(4) r(2)] sites by auto
  have k: "handle d1 = handle d" "act d1 = a" "\<And>i. act_site (acts d1 i) = ?s i" "\<And>i. act_cfa (acts d1 i) = ?c i"
    "out_regs d1 = out_regs d" "num_acts d1 = num_acts d"
    "\<And>i. specials ops rar (act_regs (acts d1 i)) = specials ops rar (act_regs (acts d i))"
    using p(1) st(3) by (auto simp: preserves_def keeps_def)
  have s: "same_but (Suc a) d1 d'" and act': "act d' = Suc a"
    using pop_frame_same[OF r(3)] pop_frame_act[OF r(3)] k(2) by simp_all
  have b: "act_cfa (acts d' (Suc a)) = ?c a + ucast (cs_frame_size (?s (Suc a)))"
    "fbp ops (act_regs (acts d' (Suc a))) = act_cfa (acts d' (Suc a)) - 16" "sp ops (act_regs (acts d' (Suc a))) = ?c a"
    using pop_frame_bounds_run[OF _ r(3)] k ops act' by auto
  have site': "act_site (acts d' i) = ?s i" and old: "i \<noteq> Suc a \<Longrightarrow> acts d' i = acts d1 i" for i
    using s k by (cases "i = Suc a"; auto simp: same_but_def)+
  have st': "standing ops d' (Suc a)"
    using standing_next[of ops d1 a d'] standing_preserves(1,3)[OF p(1)] st(1) b k old site' room sites[of "Suc a"]
    by (simp add: framed_site_def)
  have m': "m' = store64 m1 (?c a - 16) (act_cfa (acts d' (Suc a)) - 16)"
    using r(4) k ops savedfbp_law s b(2) act' by (simp add: get_savedfbp_loc_def ptr_add_def same_but_def)
  note after = links_after_step[OF st(1) act(2) p(1)[unfolded m0] m']
  have "linked m' d' (Suc a)"
    unfolding linked_def
  proof (intro allI impI)
    fix i assume i: "1 \<le> i" "i < Suc a"
    then show "load64 m' (act_cfa (acts d' i) - 8) = cs_addr (act_site (acts d' (Suc i))) \<and>
        load64 m' (act_cfa (acts d' i) - 16) = act_cfa (acts d' (Suc i)) - 16"
      using st(2) after(1)[of i 8] after(1)[of i 16] after(2,3) old[of i] old[of "Suc i"] site' k
      by (cases "i = a") (auto simp: linked_def)
  qed
  moreover have "\<forall>fx\<in>set (stack_pointers d'). framed_fixup spr fbpr rar d' (Suc a) fx"
    using p(2) s site' k by (auto simp: framed_fixup_def same_but_def)
  ultimately show ?thesis
    using st' act' s k site' old[of 0] after(1)[of 0 8] act(2) by (auto simp: built_def same_entry_def same_but_def)
qed

lemma frame_loop_built:
  assumes "built ops spr fbpr rar m d k" and "REGOPS d = ops" "PROPS d = props" and "1 \<le> k" and "k \<le> n"
    and "\<And>i. 1 \<le> i \<Longrightarrow> i \<le> n \<Longrightarrow> framed_site spr fbpr rar checks (handle d) (act_site (acts d i))"
    and "unat (act_cfa (acts d 0)) + frames_sum d n < 2 ^ 64"
    and "frame_loop checks src [k..<n] m d = Some (Inr (m', d'))"
  shows "built ops spr fbpr rar m' d' n \<and> same_entry ops rar m d m' d'"
  using assms
proof (induction "n - k" arbitrary: k m d)
  case 0
  then show ?case by simp
next
  case (Suc j)
  then have k: "k < n" by simp
  then obtain m1 d1 where r: "frame_step checks (src\<lparr>act := k\<rparr>) m d = Some (Inr (m1, d1))"
    "frame_loop checks src [Suc k..<n] m1 d1 = Some (Inr (m', d'))"
    using Suc.prems(8) by (auto simp: upt_conv_Cons bindN_Some_Inr)
  have "frames_sum d (Suc k) \<le> frames_sum d n" using k by (intro frames_sum_mono) simp
  then have 1: "built ops spr fbpr rar m1 d1 (Suc k)" "same_entry ops rar m d m1 d1"
    using frame_step_built[OF Suc.prems(1-3) _ Suc.prems(4) Suc.prems(6) _ r(1)] Suc.prems(7) k by auto
  have e: "handle d1 = handle d" "\<And>i. act_site (acts d1 i) = act_site (acts d i)" "act_cfa (acts d1 0) = act_cfa (acts d 0)"
    using 1(2) by (auto simp: same_entry_def)
  have fs: "frames_sum d1 n = frames_sum d n" by (rule frames_sum_cong) (simp add: e)
  have "built ops spr fbpr rar m' d' n \<and> same_entry ops rar m1 d1 m' d'"
    by (rule Suc.hyps(1)[OF _ 1(1)]) (use Suc.hyps(2) Suc.prems e fs r(2) k in auto)
  with 1(2) show ?case by (blast intro: same_entry_trans)
qed

end

text \<open>Linked frames are the chain the specification walks.\<close>

lemma linked_chain:
  assumes "linked m d n" and "1 \<le> i" and "i \<le> n"
  shows "frame_chain m (act_cfa (acts d i) - 16) (n - i) = map (\<lambda>j. cs_addr (act_site (acts d j))) [i + 1..<n + 1]"
  using assms
proof (induction "n - i" arbitrary: i)
  case (Suc k)
  then have "i < n" by simp
  then have l: "load64 m (act_cfa (acts d i) - 8) = cs_addr (act_site (acts d (Suc i)))"
    "load64 m (act_cfa (acts d i) - 16) = act_cfa (acts d (Suc i)) - 16"
    using Suc.prems by (auto simp: linked_def)
  have "frame_chain m (act_cfa (acts d (Suc i)) - 16) (n - Suc i) = map (\<lambda>j. cs_addr (act_site (acts d j))) [Suc i + 1..<n + 1]"
    using Suc \<open>i < n\<close> by (intro Suc.hyps(1)) auto
  moreover have "n - i = Suc (n - Suc i)" "[i + 1..<n + 1] = Suc i # [Suc i + 1..<n + 1]"
    using \<open>i < n\<close> by (auto simp: upt_conv_Cons)
  ultimately show ?case using l by simp
qed simp

text \<open>The same for the frame pointer of the entry frame.\<close>

lemma built_chain:
  assumes b: "built ops spr fbpr rar m d 1" "built ops spr fbpr rar m' d' n" "same_entry ops rar m d m' d'" and n: "1 \<le> n"
    and fp: "fbp ops (act_regs (acts d 0)) = act_cfa (acts d 1) - 16"
  shows "frame_chain m' (fbp ops (act_regs (acts d' 0))) (n - 1) = map (\<lambda>i. cs_addr (act_site (acts d i))) [2..<n + 1]"
proof -
  have e: "\<And>i. act_site (acts d' i) = act_site (acts d i)" "act_cfa (acts d' 0) = act_cfa (acts d 0)"
    "fbp ops (act_regs (acts d' 0)) = fbp ops (act_regs (acts d 0))"
    using b(3) by (auto simp: same_entry_def specials_def)
  have "frames_sum d' 1 = frames_sum d 1" by (rule frames_sum_cong) (simp add: e)
  moreover have "unat (act_cfa (acts d 1)) = unat (act_cfa (acts d 0)) + frames_sum d 1"
    "unat (act_cfa (acts d' 1)) = unat (act_cfa (acts d' 0)) + frames_sum d' 1"
    using b(1,2) n standingD(3)[of ops d 1 1] standingD(3)[of ops d' n 1] by (auto simp: built_def)
  ultimately have "act_cfa (acts d' 1) = act_cfa (acts d 1)" using e(2) by (metis unsigned_word_eqI)
  moreover have "linked m' d' n" using b(2) by (simp add: built_def)
  ultimately show ?thesis using linked_chain[of m' d' n 1] n fp e by (simp add: numeral_2_eq_2)
qed

section \<open>The whole run\<close>

text \<open>The return address of the entry frame, in the link register or on the stack.\<close>

definition entry_ra :: "'raw regops_t \<Rightarrow> mem \<Rightarrow> 'raw regset_obj \<Rightarrow> u64 res" where
  "entry_ra ops m rs = (if has_ra_reg ops then ra_reg ops rs else Inr (load64 m (sp ops rs)))"

text \<open>The size of the stack as a word is that of its frames.\<close>

lemma frames_size_sum: "frames_size d n = of_nat (frames_sum d n)"
  by (induction n) (simp_all add: frames_size_def)

context stack_properties
begin

text \<open>Where the destination stack starts: its frames end at the base, within eight bytes.\<close>

lemma entry_geometry:
  assumes size: "sz + 24 \<le> unat base" "unat base + 8 < 2 ^ 64" and "tos0 = base - of_nat sz"
    and tos: "if sp_needs_align props then align_sp props tos0 = Inr tos else tos = tos0"
    and cfa: "cfa = ptr_add tos (cfa_offset_funcentry props)"
  shows "8 \<le> unat cfa" and "unat cfa + sz \<le> unat base + 8" and "unat base \<le> unat cfa + sz + 8" and "\<not> has_ra_reg ops \<Longrightarrow> cfa - 8 = tos"
proof -
  have s: "unat (of_nat sz :: u64) = sz" using size unat_less_64[of base] by (intro unat_of_nat_small) simp
  have "unat tos0 = unat base - sz" unfolding assms(3) using s size by (subst unat_minus_small) simp_all
  then have t0: "unat tos0 + sz = unat base" "24 \<le> unat tos0" using size by linarith+
  have "tos = tos0 \<or> tos = tos0 - 8" using tos align_law[of tos0] by (auto split: if_splits)
  then have t: "unat tos + sz \<le> unat base" "unat base \<le> unat tos + sz + 8" "16 \<le> unat tos"
    using t0 unat_minus_small[of 8 tos0] by auto
  have off: "int (unat cfa) = int (unat tos) + (if has_ra_reg ops then 0 else 8)"
  proof -
    have "unat tos + 8 < 2 ^ 64" using t size by linarith
    then have "int (unat tos) + 8 < 2 ^ 64" by (metis (mono_tags) of_nat_add of_nat_less_iff of_nat_numeral of_nat_power)
    then show ?thesis unfolding cfa entry_law by (subst unat_ptr_add) (simp_all split: if_splits)
  qed
  show "8 \<le> unat cfa" "unat cfa + sz \<le> unat base + 8" "unat base \<le> unat cfa + sz + 8" using off t by (cases "has_ra_reg ops"; simp only: if_True if_False; linarith)+
  show "\<not> has_ra_reg ops \<Longrightarrow> cfa - 8 = tos" unfolding cfa entry_law by (simp add: ptr_add_def)
qed

lemma set_return_address_funcentry_run:
  assumes "REGOPS d = ops" "PROPS d = props"
    and "set_return_address_funcentry checks m d ra = Inr (m', d')" and "\<not> has_ra_reg ops \<Longrightarrow> act_cfa (ACT d) - 8 = sp ops (act_regs (ACT d))"
  shows "entry_ra ops m' (act_regs (ACT d')) = Inr ra \<and> sp ops (act_regs (ACT d')) = sp ops (act_regs (ACT d)) \<and>
    pc ops (act_regs (ACT d')) = pc ops (act_regs (ACT d)) \<and> keeps d d' \<and> stack_pointers d' = stack_pointers d \<and>
    (\<forall>i. i \<noteq> act d \<longrightarrow> acts d' i = acts d i)"
proof (cases "has_ra_reg ops")
  case True
  obtain rs where rs: "set_ra_reg ops (act_regs (ACT d)) ra = Inr rs" "ra_reg ops rs = Inr ra" "pc ops rs = pc ops (act_regs (ACT d))"
    "\<forall>r. r \<noteq> rar \<longrightarrow> reg_get ops rs r = reg_get ops (act_regs (ACT d)) r"
    using set_ra_law[OF True] by blast
  have "sp ops rs = sp ops (act_regs (ACT d))"
    using rs(4) get_sp[of rs] get_sp[of "act_regs (ACT d)"] rar_special(1) by auto
  then show ?thesis using assms rs True
    by (auto simp: set_return_address_funcentry_def entry_ra_def res_simps keeps_def)
next
  case False
  then show ?thesis using assms ra_offset_law
    by (auto simp: set_return_address_funcentry_def entry_ra_def res_simps ptr_add_def mem_simps)
qed

lemma pop_frame_funcentry_built:
  assumes ops: "REGOPS d = ops" "PROPS d = props" and act: "act d = 0" and site: "act_site (acts d 0) = EMPTY_CALL_SITE"
    and sites: "framed_site spr fbpr rar checks (handle d) (act_site (acts d 1))"
    and room: "8 \<le> unat (act_cfa (acts d 0))" "unat (act_cfa (acts d 0)) + frames_sum d 1 < 2 ^ 64"
    and ra: "entry_ra ops m (act_regs (acts d 0)) = Inr ra" and ptrs: "stack_pointers d = []"
    and run: "pop_frame_funcentry checks m d = Inr d'"
  shows "built ops spr fbpr rar m d' 1 \<and> fbp ops (act_regs (acts d' 0)) = act_cfa (acts d' 1) - 16 \<and>
    sp ops (act_regs (acts d' 0)) = sp ops (act_regs (acts d 0)) \<and> pc ops (act_regs (acts d' 0)) = pc ops (act_regs (acts d 0)) \<and>
    entry_ra ops m (act_regs (acts d' 0)) = Inr ra \<and> act_cfa (acts d' 0) = act_cfa (acts d 0) \<and> handle d' = handle d \<and>
    (\<forall>i. act_site (acts d' i) = act_site (acts d i)) \<and> num_acts d' = num_acts d \<and> out_regs d' = out_regs d"
proof -
  define cfa where "cfa = act_cfa (ACT d) + ucast (cs_frame_size (act_site (NEXT_ACT d)))"
  have "unat cfa = unat (act_cfa (acts d 0)) + unat (cs_frame_size (act_site (acts d 1)))"
    unfolding cfa_def using room act by (subst unat_add_lem[THEN iffD1]) (simp_all add: unat_frame)
  moreover have fs: "16 \<le> unat (cs_frame_size (act_site (acts d 1)))" "cs_addr (act_site (acts d 1)) \<noteq> 0"
    using sites by (auto simp: framed_site_def)
  ultimately have cfa: "24 \<le> unat cfa" "unat cfa = unat (act_cfa (acts d 0)) + frames_sum d 1" using room by auto
  have nz: "act_cfa (ACT d) \<noteq> 0" "cfa \<noteq> 0" "cfa \<noteq> 16" using cfa(1) room(1) act by auto
  have ra': "(if has_ra_reg ops then ra_reg ops (act_regs (ACT d)) else Inr (load64 m (sp ops (act_regs (ACT d))))) = Inr ra"
    using ra act by (simp add: entry_ra_def split: if_splits)
  have asserts: "checks \<longrightarrow> act_cfa (ACT d) \<noteq> 0 \<and> cs_addr (act_site (NEXT_ACT d)) \<noteq> 0 \<and> cfa \<noteq> 0 \<and> cfa \<noteq> 16"
    using nz fs(2) act by simp
  have slot: "act d + 1 < MAX_FRAMES" using act by (simp add: MAX_FRAMES_def)
  obtain d1 where law: "pop_frame_funcentry checks m d = Inr d1" "act d1 = act d + 1"
    "sp ops (act_regs (ACT d1)) = act_cfa (ACT d)" "fbp ops (act_regs (ACT d1)) = cfa - 16" "act_cfa (ACT d1) = cfa"
    "act_site (ACT d1) = act_site (NEXT_ACT d)" "act_regs (acts d1 (act d)) = set_fbp ops (act_regs (ACT d)) (cfa - 16)"
    "\<forall>j. j \<noteq> act d \<longrightarrow> j \<noteq> act d + 1 \<longrightarrow> acts d1 j = acts d j" "handle d1 = handle d" "stack_pointers d1 = stack_pointers d"
    "out_regs d1 = out_regs d" "num_acts d1 = num_acts d" "act_cfa (acts d1 (act d)) = act_cfa (ACT d)"
    "act_site (acts d1 (act d)) = act_site (ACT d)"
    using pop_frame_funcentry_law[OF ops slot ra' cfa_def asserts] by blast
  have d': "d1 = d'" using law(1) run by simp
  have all: "act_site (acts d' i) = act_site (acts d i)" for i
    using law d' act by (cases "i = 0"; cases "i = 1") auto
  have s: "frames_sum d' i = frames_sum d i" for i by (rule frames_sum_cong) (simp add: all)
  have "standing ops d' 1"
    unfolding standing_def using law d' act site room(1) cfa(2) fs(1) s all by (auto simp: le_Suc_eq)
  moreover have "linked m d' 1" by (simp add: linked_def)
  moreover have "reg_get ops (set_fbp ops rs v) rar = reg_get ops rs rar" for rs v using get_set_fbp[OF rar_special(2)] .
  then have "entry_ra ops m (set_fbp ops rs v) = entry_ra ops m rs" for rs v
    using ra_law[of rs] ra_law[of "set_fbp ops rs v"] by (auto simp: entry_ra_def special_simps)
  ultimately show ?thesis
    using law d' act ra ptrs all by (simp add: built_def special_simps)
qed

lemma entry_ra_specials:
  assumes "specials ops rar rs' = specials ops rar rs" and "\<not> has_ra_reg ops \<Longrightarrow> load64 m' (sp ops rs) = load64 m (sp ops rs)"
  shows "entry_ra ops m' rs' = entry_ra ops m rs"
  using assms ra_law[of rs] ra_law[of rs'] by (auto simp: entry_ra_def specials_def)

text \<open>The entry frame and the innermost frame, before the loop over the frames.\<close>

lemma rewrite_entry_built:
  assumes ops: "REGOPS d = ops" "PROPS d = props" and act: "act d = 0" and site: "act_site (acts d 0) = EMPTY_CALL_SITE"
    and sites: "framed_site spr fbpr rar checks (handle d) (act_site (acts d 1))" and ptrs: "stack_pointers d = []"
    and sp: "sp ops (act_regs (acts d 0)) = tos" "\<not> has_ra_reg ops \<Longrightarrow> act_cfa (acts d 0) - 8 = tos"
    and room: "8 \<le> unat (act_cfa (acts d 0))" "unat (act_cfa (acts d 0)) + frames_sum d 1 < 2 ^ 64"
    and run: "set_return_address_funcentry checks m d ra = Inr (m', d1)" "pop_frame_funcentry checks m' d1 = Inr d'"
  shows "built ops spr fbpr rar m' d' 1 \<and> fbp ops (act_regs (acts d' 0)) = act_cfa (acts d' 1) - 16 \<and>
    sp ops (act_regs (acts d' 0)) = tos \<and> pc ops (act_regs (acts d' 0)) = pc ops (act_regs (acts d 0)) \<and>
    entry_ra ops m' (act_regs (acts d' 0)) = Inr ra \<and> act_cfa (acts d' 0) = act_cfa (acts d 0) \<and> handle d' = handle d \<and>
    (\<forall>i. act_site (acts d' i) = act_site (acts d i)) \<and> num_acts d' = num_acts d \<and> out_regs d' = out_regs d"
proof -
  have e: "entry_ra ops m' (act_regs (acts d1 0)) = Inr ra" "sp ops (act_regs (acts d1 0)) = tos"
    "pc ops (act_regs (acts d1 0)) = pc ops (act_regs (acts d 0))" "keeps d d1" "stack_pointers d1 = []"
    using set_return_address_funcentry_run[OF ops run(1)] sp act ptrs by (auto simp: keeps_def)
  have k: "handle d1 = handle d" "act d1 = 0" "\<And>i. act_site (acts d1 i) = act_site (acts d i)"
    "act_cfa (acts d1 0) = act_cfa (acts d 0)" "num_acts d1 = num_acts d" "out_regs d1 = out_regs d"
    using e(4) act by (auto simp: keeps_def)
  have fs: "frames_sum d1 1 = frames_sum d 1" by (rule frames_sum_cong) (simp add: k)
  show ?thesis
    using pop_frame_funcentry_built[OF _ _ k(2) _ _ _ _ e(1,5) run(2)] ops site sites room fs e(2,3) k by auto
qed

text \<open>
  After a rewrite the registers are those of the entry of the function, its return address
  leads to the innermost frame, and from the frame pointer on the stack shows the return
  addresses of the destination's call sites, one per frame.
\<close>

lemma rewrite_contexts_chain:
  assumes wf: "sites_addr_wf (handle src)" "sites_id_wf (handle dest)"
    and start: "act src = 0" "num_acts src = 0" "act dest = 0" "num_acts dest = 0"
    and ops: "REGOPS dest = ops" "PROPS dest = props"
    and fresh: "act_site (acts dest 0) = EMPTY_CALL_SITE" "stack_pointers dest = []"
    and framed: "\<forall>site\<in>set (sites_id (handle dest)). framed_site spr fbpr rar checks (handle dest) site"
    and uw: "unwind_and_size checks m src dest = Inr (src1, dest1)"
    and sz: "frames_sum dest1 (num_acts dest1 - 1) + 24 \<le> unat (stack_base dest)" "unat (stack_base dest) + 8 < 2 ^ 64"
    and run: "rewrite_contexts checks m src dest = Some (Inr (m', out, src', dest'))"
  shows "\<exists>rs. out = regset_copyout ops rs (out_regs dest) \<and> sp ops rs = stack dest1 \<and>
    pc ops rs = pc ops (act_regs (acts dest 0)) \<and> entry_ra ops m' rs = Inr (cs_addr (act_site (acts dest1 1))) \<and>
    frame_chain m' (fbp ops rs) (num_acts dest1 - 2) = map (\<lambda>i. cs_addr (act_site (acts dest1 i))) [2..<num_acts dest1]"
proof -
  obtain n where n: "0 < n" "num_acts src1 = n + 1" "num_acts dest1 = n + 1" "act dest1 = 0" "matched src1 dest1 n"
    "handle dest1 = handle dest" "act_site (acts dest1 0) = EMPTY_CALL_SITE" "stack_pointers dest1 = []"
    "act_regs (acts dest1 0) = set_sp ops (act_regs (acts dest 0)) (stack dest1)"
    "act_cfa (acts dest1 0) = ptr_add (stack dest1) (cfa_offset_funcentry props)" "out_regs dest1 = out_regs dest"
    "if sp_needs_align props then align_sp props (stack_base dest - of_nat (frames_sum dest1 n)) = Inr (stack dest1)
     else stack dest1 = stack_base dest - of_nat (frames_sum dest1 n)"
    using unwind_and_size_law[OF wf start uw] fresh by (auto simp: Let_def ops special_simps frames_size_sum split: if_splits)
  note geo = entry_geometry[OF sz(1)[unfolded n(3) add_diff_cancel_right'] sz(2) refl n(12) n(10)]
  obtain m1 dest2 dest3 dest4 where r: "set_return_address_funcentry checks m dest1 (cs_addr (act_site (acts dest1 1))) = Inr (m1, dest2)"
    "pop_frame_funcentry checks m1 dest2 = Inr dest3" "frame_loop checks src1 [1..<n] m1 dest3 = Some (Inr (m', dest4))"
    "out = regset_copyout (REGOPS dest4) (act_regs (acts dest4 0)) (out_regs dest4)"
    using run n by (auto simp: rewrite_contexts_def uw bindN_Some_Inr)
  have sites: "framed_site spr fbpr rar checks (handle dest) (act_site (acts dest1 i))" if "1 \<le> i" "i \<le> n" for i
    using framed n(5,6) that by (auto simp: matched_def)
  have "frames_sum dest1 1 \<le> frames_sum dest1 n" using n(1) by (intro frames_sum_mono) simp
  then have room: "unat (act_cfa (acts dest1 0)) + frames_sum dest1 n < 2 ^ 64" "unat (act_cfa (acts dest1 0)) + frames_sum dest1 1 < 2 ^ 64"
    using geo(2) sz(2) by linarith+
  have sp1: "sp ops (act_regs (acts dest1 0)) = stack dest1" "pc ops (act_regs (acts dest1 0)) = pc ops (act_regs (acts dest 0))"
    using n by (simp_all add: special_simps)
  have "built ops spr fbpr rar m1 dest3 1 \<and> fbp ops (act_regs (acts dest3 0)) = act_cfa (acts dest3 1) - 16 \<and>
    sp ops (act_regs (acts dest3 0)) = stack dest1 \<and> pc ops (act_regs (acts dest3 0)) = pc ops (act_regs (acts dest1 0)) \<and>
    entry_ra ops m1 (act_regs (acts dest3 0)) = Inr (cs_addr (act_site (acts dest1 1))) \<and> act_cfa (acts dest3 0) = act_cfa (acts dest1 0) \<and>
    handle dest3 = handle dest1 \<and> (\<forall>i. act_site (acts dest3 i) = act_site (acts dest1 i)) \<and> num_acts dest3 = num_acts dest1 \<and>
    out_regs dest3 = out_regs dest1"
    by (rule rewrite_entry_built[OF _ _ n(4,7) _ n(8) sp1(1) geo(4) geo(1) room(2) r(1,2)]) (use n ops sites[of 1] in auto)
  then have b: "built ops spr fbpr rar m1 dest3 1" "fbp ops (act_regs (acts dest3 0)) = act_cfa (acts dest3 1) - 16"
    "sp ops (act_regs (acts dest3 0)) = stack dest1" "pc ops (act_regs (acts dest3 0)) = pc ops (act_regs (acts dest1 0))"
    "entry_ra ops m1 (act_regs (acts dest3 0)) = Inr (cs_addr (act_site (acts dest1 1)))" "act_cfa (acts dest3 0) = act_cfa (acts dest1 0)"
    "handle dest3 = handle dest1" "\<And>i. act_site (acts dest3 i) = act_site (acts dest1 i)" "out_regs dest3 = out_regs dest1" by blast+
  have fs3: "frames_sum dest3 i = frames_sum dest1 i" for i by (rule frames_sum_cong) (simp add: b)
  have l: "built ops spr fbpr rar m' dest4 n" "same_entry ops rar m1 dest3 m' dest4"
    using frame_loop_built[OF b(1) _ _ order_refl _ _ _ r(3)] b n ops sites room(1) fs3 by auto
  have sp3: "specials ops rar (act_regs (acts dest4 0)) = specials ops rar (act_regs (acts dest3 0))"
    and keep: "out_regs dest4 = out_regs dest" "handle dest4 = handle dest"
    using l(2) b n by (auto simp: same_entry_def)
  have ra: "entry_ra ops m' (act_regs (acts dest4 0)) = entry_ra ops m1 (act_regs (acts dest3 0))"
    using l(2) b(3,6) geo(4) by (intro entry_ra_specials[OF sp3]) (simp add: same_entry_def)
  have "n + 1 - 2 = n - 1" using n(1) by simp
  with built_chain[OF b(1) l _ b(2)] n(1,3) b(8)
  have "frame_chain m' (fbp ops (act_regs (acts dest4 0))) (num_acts dest1 - 2) =
      map (\<lambda>i. cs_addr (act_site (acts dest1 i))) [2..<num_acts dest1]" by simp
  with sp3 ra b(3-5) sp1 r(4) keep ops show ?thesis
    by (intro exI[of _ "act_regs (acts dest4 0)"]) (auto simp: specials_def)
qed

end

section \<open>From the driver to its contexts\<close>

lemma init_src_context_start:
  "init_src_context checks al h rs base = Inr c \<Longrightarrow> act c = 0 \<and> num_acts c = 0 \<and> handle c = h"
  by (auto simp: init_src_context_def init_data_pools_def blank_context_def bootstrap_first_frame_def
      setup_callee_saved_bits_def act_slot_def Let_def res_simps split: option.splits if_splits)

lemma init_dest_context_start:
  "init_dest_context checks al h rs base fn = Inr c \<Longrightarrow> act c = 0 \<and> num_acts c = 0 \<and> handle c = h \<and>
    act_site (acts c 0) = EMPTY_CALL_SITE \<and> stack_pointers c = [] \<and> stack_base c = base \<and> out_regs c = rs \<and>
    (\<exists>r. act_regs (acts c 0) = set_pc (h_regops h) r fn)"
  by (auto simp: init_dest_context_def init_data_pools_def blank_context_def res_simps split: option.splits)

lemma st_rewrite_stack_contexts:
  assumes "init_src_context checks asrc hs rs bs = Inr src"
    and "get_function_address hs (pc (h_regops hs) (act_regs (acts src 0))) = Inr fn"
    and "init_dest_context checks adst ht rd bd fn = Inr dest"
    and "st_rewrite_stack checks asrc adst m (Some hs) (Some rs) bs (Some ht) (Some rd) bd = Some (Inr (m', Some out, 0))"
  shows "\<exists>s d. rewrite_contexts checks m src dest = Some (Inr (m', out, s, d))"
  using assms init_src_context_start[OF assms(1)]
  by (auto simp: st_rewrite_stack_def rewrite_all_def bindN_Some_Inr split: if_splits)

context stack_properties
begin

lemma st_rewrite_stack_chain:
  assumes wf: "sites_addr_wf hs" "sites_id_wf ht" and ops: "h_regops ht = ops" "h_props ht = props"
    and framed: "\<forall>site\<in>set (sites_id ht). framed_site spr fbpr rar checks ht site"
    and init: "init_src_context checks asrc hs rs bs = Inr src"
      "get_function_address hs (pc (h_regops hs) (act_regs (acts src 0))) = Inr fn"
      "init_dest_context checks adst ht rd bd fn = Inr dest"
    and uw: "unwind_and_size checks m src dest = Inr (src1, dest1)"
    and sz: "frames_sum dest1 (num_acts dest1 - 1) + 24 \<le> unat bd" "unat bd + 8 < 2 ^ 64"
    and run: "st_rewrite_stack checks asrc adst m (Some hs) (Some rs) bs (Some ht) (Some rd) bd = Some (Inr (m', Some out, 0))"
  shows "\<exists>r. out = regset_copyout ops r rd \<and> sp ops r = stack dest1 \<and> pc ops r = fn \<and>
    entry_ra ops m' r = Inr (cs_addr (act_site (acts dest1 1))) \<and>
    frame_chain m' (fbp ops r) (num_acts dest1 - 2) = map (\<lambda>i. cs_addr (act_site (acts dest1 i))) [2..<num_acts dest1]"
proof -
  obtain s d where r: "rewrite_contexts checks m src dest = Some (Inr (m', out, s, d))"
    using st_rewrite_stack_contexts[OF init run] by blast
  have a: "act src = 0" "num_acts src = 0" "handle src = hs" using init_src_context_start[OF init(1)] by auto
  obtain r0 where b: "act dest = 0" "num_acts dest = 0" "handle dest = ht" "act_site (acts dest 0) = EMPTY_CALL_SITE"
    "stack_pointers dest = []" "stack_base dest = bd" "out_regs dest = rd" "act_regs (acts dest 0) = set_pc ops r0 fn"
    using init_dest_context_start[OF init(3)] ops by auto
  then have "pc ops (act_regs (acts dest 0)) = fn" by (simp add: special_simps)
  with rewrite_contexts_chain[OF _ _ a(1,2) b(1,2) _ _ b(4,5) _ uw _ _ r] show ?thesis
    using wf ops framed sz a(3) b(3,6,7) by simp
qed

end

text \<open>For the two architectures the registers are those of the structure the caller gets back.\<close>

lemma chain_x86_64:
  assumes "\<exists>r. out = regset_copyout regs_x86_64 r rd \<and> sp regs_x86_64 r = tos \<and> pc regs_x86_64 r = fn \<and>
    entry_ra regs_x86_64 m r = Inr ra \<and> frame_chain m (fbp regs_x86_64 r) n = ras"
  shows "x86_rsp out = tos \<and> x86_rip out = fn \<and> load64 m (x86_rsp out) = ra \<and> frame_chain m (x86_rbp out) n = ras"
  using assms by (auto simp: regs_x86_64_def regset_copyout_x86_64_def sp_x86_64_def pc_x86_64_def fbp_x86_64_def entry_ra_def)

lemma chain_aarch64:
  assumes "\<exists>r. out = regset_copyout regs_aarch64 r rd \<and> sp regs_aarch64 r = tos \<and> pc regs_aarch64 r = fn \<and>
    entry_ra regs_aarch64 m r = Inr ra \<and> frame_chain m (fbp regs_aarch64 r) n = ras"
  shows "a64_sp out = tos \<and> a64_pc out = fn \<and> a64_x out 30 = ra \<and> frame_chain m (a64_x out 29) n = ras"
  using assms by (auto simp: regs_aarch64_def regset_copyout_aarch64_def a64_special_defs ra_reg_aarch64_def entry_ra_def)

text \<open>The rewriting in the other direction.\<close>

lemmas rewritten_stack_aarch64 = chain_aarch64[OF a64p.st_rewrite_stack_chain]

end
