(* ===== verification/Rewrite_Examples.thy ===== *)
theory Rewrite_Examples
  imports Examples Rewrite_Run
begin

text \<open>
  The example program of \<open>Examples\<close> run through the whole rewriting: the stack of the three
  functions is unwound on aarch64 and rebuilt for x86-64, step by step, with the laws of the
  components instead of their definitions where these are long.
\<close>

section \<open>Unwinding the source stack\<close>

definition ex_at :: "regset_aarch64 rewrite_context \<Rightarrow> nat \<Rightarrow> nat \<Rightarrow> call_site \<Rightarrow> u64 \<Rightarrow> u64 \<Rightarrow> bool" where
  "ex_at c a n site fp cfa \<longleftrightarrow> handle c = ex_a64 \<and> act c = a \<and> num_acts c = n \<and> act_site (acts c a) = site \<and>
     fbp regs_aarch64 (act_regs (acts c a)) = fp \<and> act_cfa (acts c a) = cfa \<and>
     act_callee_saved (acts c a) = \<lparr>bm_size = AARCH64_NUM_REGS, bm_bits = Some (a * bitmap_size AARCH64_NUM_REGS)\<rparr> \<and>
     length (callee_saved_pool c) = 1024"

lemma ex_init_src:
  "\<exists>c. init_src_context True (Some ex_fresh_a64) ex_a64 ex_regs 0x7040 = Inr c \<and> ex_at c 0 0 (ex_site 1 0x1010 16 2 0 0) 0x7000 0x7010 \<and>
     pc regs_aarch64 (act_regs (acts c 0)) = 0x1010"
proof -
  have s: "get_site_by_addr ex_a64 0x1010 = Inr (Some (ex_site 1 0x1010 16 2 0 0))" by code_simp
  have h: "h_regops ex_a64 = regs_aarch64" by (simp add: ex_a64_def)
  have o: "num_regs regs_aarch64 = AARCH64_NUM_REGS" "regset_copyin regs_aarch64 = regset_copyin_aarch64"
    "sp regs_aarch64 = sp_aarch64" "pc regs_aarch64 = pc_aarch64" "fbp regs_aarch64 = fbp_aarch64"
    by (simp_all add: regs_aarch64_def)
  have n: "bitmap_words AARCH64_NUM_REGS = 2"
    by (simp add: bitmap_words_def AARCH64_NUM_REGS_def STORAGE_TYPE_BITS_def)
  have r: "a64_pc ex_regs = 0x1010" "a64_sp ex_regs = 0x7000" "a64_x ex_regs AARCH64_FBP_REG = 0x7000"
    by (simp_all add: ex_regs_def AARCH64_FBP_REG_def)
  show ?thesis
    by (simp add: init_src_context_def init_data_pools_def blank_context_def Let_def h o s r n bootstrap_first_frame_def ex_at_def
        setup_callee_saved_bits_def act_slot_def calculate_cfa_def regset_copyin_aarch64_def sp_aarch64_def pc_aarch64_def fbp_aarch64_def
        ex_site_def MAX_FRAMES_def del: upt_Suc)
qed


lemma ex_a64_locs: "unwind_range (ex_site i a fs 2 0 k) = [0, 1]" "unwind_range (ex_site i a fs 0 0 k) = []"
  "unwind_locs ex_a64 = [\<lparr>ul_reg = 29, ul_offset = 0\<rparr>, \<lparr>ul_reg = 30, ul_offset = 8\<rparr>]"
  by (simp_all add: unwind_range_def ex_site_def ex_a64_def upt_rec)

lemma ex_a64_pop:
  assumes at: "ex_at c a n (ex_site i adr fs 2 0 k) fp cfa" and a: "a \<le> 2"
  shows "\<exists>c'. pop_frame True m c False = Inr c' \<and> act c' = a + 1 \<and> num_acts c' = n \<and> handle c' = ex_a64 \<and>
    pc regs_aarch64 (act_regs (acts c' (a + 1))) = load64 m (fp + 8) \<and> sp regs_aarch64 (act_regs (acts c' (a + 1))) = cfa \<and>
    fbp regs_aarch64 (act_regs (acts c' (a + 1))) = load64 m fp \<and>
    act_callee_saved (acts c' (a + 1)) = \<lparr>bm_size = AARCH64_NUM_REGS, bm_bits = Some ((a + 1) * bitmap_size AARCH64_NUM_REGS)\<rparr> \<and>
    length (callee_saved_pool c') = 1024 \<and> (\<forall>j. j \<noteq> a + 1 \<longrightarrow> acts c' j = acts c j)"
proof -
  have o: "REGOPS c = regs_aarch64" "PROPS c = properties_aarch64" "num_regs regs_aarch64 = AARCH64_NUM_REGS"
    using at by (simp_all add: ex_at_def ex_a64_def regs_aarch64_def)
  have bm: "bitmap_words AARCH64_NUM_REGS = 2" by (simp add: bitmap_words_def AARCH64_NUM_REGS_def STORAGE_TYPE_BITS_def)
  have locs: "site_locs (handle c) (act_site (ACT c)) = [\<lparr>ul_reg = 29, ul_offset = 0\<rparr>, \<lparr>ul_reg = 30, ul_offset = 8\<rparr>]"
    using at by (simp add: ex_at_def site_locs_def ex_a64_locs)
  have uw: "unwindable properties_aarch64 (num_regs regs_aarch64) c (ACT c)"
    using at a locs by (auto simp: unwindable_def ex_at_def ex_a64_locs o bitmap_wf_def bitmap_size_def bm loc_reg_def
        properties_aarch64_def is_callee_saved_aarch64_def a64_dwarf_def)
  have room: "act c + 1 < MAX_FRAMES" using at a by (simp add: ex_at_def MAX_FRAMES_def)
  obtain rs pool where p: "pop_frame True m c False = Inr ((with_regs (entered c) (act c + 1) rs pool)\<lparr>act := act c + 1\<rparr>)"
      "caller_regs regs_aarch64 31 30 m c (ACT c) rs" "length pool = length (callee_saved_pool c)"
    using a64p.pop_frame_law[OF o(1,2) uw room] by blast
  have "reg_read64 regs_aarch64 rs 29 = Inr (load64 m fp)" "reg_read64 regs_aarch64 rs 30 = Inr (load64 m (fp + 8))"
    "reg_read64 regs_aarch64 rs 30 = Inr (pc regs_aarch64 rs)" "sp regs_aarch64 rs = cfa"
    using p(2) at locs by (auto simp: caller_regs_def loc_reg_def save_slot_def ptr_add_def o ex_at_def)
  then show ?thesis
    using p at by (auto simp: ex_at_def a64.read64_fbp entered_def o)
qed


lemma ex_mem_loads: "load64 ex_mem 0x7000 = 0x7010" "load64 ex_mem 0x7008 = 0x2010" "load64 ex_mem 0x7010 = 0x7030" "load64 ex_mem 0x7018 = 0x3010"
  by code_simp+

lemma ex_site_sel:
  "cs_id (ex_site a b c e f g) = a" "cs_addr (ex_site a b c e f g) = b" "cs_frame_size (ex_site a b c e f g) = c"
  by (simp_all add: ex_site_def)

lemma ex_step:
  assumes at: "ex_at c a n (ex_site i adr fs 2 0 k) fp cfa" and a: "a \<le> 2"
    and d: "handle d = ex_x86" "act d = a" "num_acts d = n"
    and s: "get_site_by_addr ex_a64 (load64 ex_mem (fp + 8)) = Inr (Some s)" "cs_addr s \<noteq> 0"
    and t: "get_site_by_id ex_x86 (cs_id s) = Inr (Some t)"
  shows "\<exists>c'. unwind_step True ex_mem (c, d, sz) =
      Inr (c', upd_act (d\<lparr>num_acts := n + 1, act := a + 1\<rparr>) (a + 1) (\<lambda>x. x\<lparr>act_site := t\<rparr>), sz + ucast (cs_frame_size t)) \<and>
    ex_at c' (a + 1) (n + 1) s (load64 ex_mem fp) (cfa + ucast (cs_frame_size s)) \<and> (\<forall>j. j \<noteq> a + 1 \<longrightarrow> acts c' j = acts c j)"
proof -
  obtain c' where p: "pop_frame True ex_mem c False = Inr c'" "act c' = a + 1" "num_acts c' = n" "handle c' = ex_a64"
    "pc regs_aarch64 (act_regs (acts c' (a + 1))) = load64 ex_mem (fp + 8)" "sp regs_aarch64 (act_regs (acts c' (a + 1))) = cfa"
    "fbp regs_aarch64 (act_regs (acts c' (a + 1))) = load64 ex_mem fp"
    "act_callee_saved (acts c' (a + 1)) = \<lparr>bm_size = AARCH64_NUM_REGS, bm_bits = Some ((a + 1) * bitmap_size AARCH64_NUM_REGS)\<rparr>"
    "length (callee_saved_pool c') = 1024" "\<forall>j. j \<noteq> a + 1 \<longrightarrow> acts c' j = acts c j"
    using ex_a64_pop[OF at a] by blast
  have h: "h_regops ex_a64 = regs_aarch64" by (simp add: ex_a64_def)
  show ?thesis using p d s t h by (simp add: unwind_step_def Let_def calculate_cfa_def ex_at_def)
qed

text \<open>The two frames \<open>f\<close> and \<open>main\<close> above the migration point.\<close>

lemma ex_unwind_loop:
  assumes at: "ex_at c 0 0 (ex_site 1 0x1010 16 2 0 0) 0x7000 0x7010" and d: "handle d = ex_x86" "act d = 0" "num_acts d = 0"
  shows "\<exists>c'. unwind_loop True ex_mem (c, d, 0) = Inr (c', upd_act (upd_act (d\<lparr>num_acts := 2, act := 2\<rparr>) 1
      (\<lambda>x. x\<lparr>act_site := ex_site 5 0x2020 32 2 0 1\<rparr>)) 2 (\<lambda>x. x\<lparr>act_site := ex_site UINT64_MAX 0x3020 16 0 0 0\<rparr>), 48) \<and>
    ex_at c' 2 2 (ex_site UINT64_MAX 0x3010 16 0 0 0) 0x7030 0x7040 \<and> act_site (acts c' 1) = ex_site 5 0x2010 32 2 0 1 \<and>
    fbp regs_aarch64 (act_regs (acts c' 1)) = 0x7010"
proof -
  have l: "get_site_by_addr ex_a64 0x2010 = Inr (Some (ex_site 5 0x2010 32 2 0 1))"
    "get_site_by_id ex_x86 5 = Inr (Some (ex_site 5 0x2020 32 2 0 1))" by code_simp+
  let ?d1 = "upd_act (d\<lparr>num_acts := 1, act := 1\<rparr>) 1 (\<lambda>x. x\<lparr>act_site := ex_site 5 0x2020 32 2 0 1\<rparr>)"
  obtain c1 where 1: "unwind_step True ex_mem (c, d, 0) = Inr (c1, ?d1, 32)" "ex_at c1 1 1 (ex_site 5 0x2010 32 2 0 1) 0x7010 0x7030"
    using ex_step[OF at _ d, of "ex_site 5 0x2010 32 2 0 1" "ex_site 5 0x2020 32 2 0 1" 0] l by (auto simp: ex_mem_loads ex_site_sel)
  obtain c2 where 2: "unwind_step True ex_mem (c1, ?d1, 32) = Inr (c2, upd_act (?d1\<lparr>num_acts := 2, act := 2\<rparr>) 2
        (\<lambda>x. x\<lparr>act_site := ex_site UINT64_MAX 0x3020 16 0 0 0\<rparr>), 48)" "ex_at c2 2 2 (ex_site UINT64_MAX 0x3010 16 0 0 0) 0x7030 0x7040"
      "acts c2 1 = acts c1 1"
    using ex_step[OF 1(2), of ?d1 "ex_site UINT64_MAX 0x3010 16 0 0 0" "ex_site UINT64_MAX 0x3020 16 0 0 0" 32] d ex_main_found
    by (auto simp: ex_mem_loads ex_site_sel simp flip: numeral_2_eq_2)
  have "\<not> first_frame (cs_id (act_site (ACT c1)))" "first_frame (cs_id (act_site (ACT c2)))"
    using 1(2) 2(2) by (simp_all add: ex_at_def ex_site_sel first_frame_def UINT64_MAX_def)
  then have "unwind_loop True ex_mem (c, d, 0) = Inr (c2, upd_act (?d1\<lparr>num_acts := 2, act := 2\<rparr>) 2
        (\<lambda>x. x\<lparr>act_site := ex_site UINT64_MAX 0x3020 16 0 0 0\<rparr>), 48)"
    using 1(1) 2(1) by (subst unwind_loop.simps, subst unwind_loop.simps) simp
  then show ?thesis using 2(2,3) 1(2) by (simp add: upd_act_def ex_at_def)
qed


definition ex_dest1 :: "regset_x86_64 rewrite_context \<Rightarrow> u64 list \<Rightarrow> regset_x86_64 rewrite_context" where
  "ex_dest1 d pool = (upd_act (upd_act (upd_act (d\<lparr>num_acts := 3, act := 0, stack := 0x8fc8\<rparr>) 1
      (\<lambda>x. x\<lparr>act_site := ex_site 5 0x2020 32 2 0 1\<rparr>)) 2 (\<lambda>x. x\<lparr>act_site := ex_site UINT64_MAX 0x3020 16 0 0 0\<rparr>)) 0
      (\<lambda>x. x\<lparr>act_regs := set_sp regs_x86_64 (act_regs x) 0x8fc8, act_cfa := 0x8fd0,
         act_callee_saved := \<lparr>bm_size = X86_64_NUM_REGS, bm_bits = Some 0\<rparr>\<rparr>))\<lparr>callee_saved_pool := pool\<rparr>"

lemma ex_unwind:
  assumes at: "ex_at c 0 0 (ex_site 1 0x1010 16 2 0 0) 0x7000 0x7010" and d: "handle d = ex_x86" "act d = 0" "num_acts d = 0"
    "stack_base d = 0x9000" "length (callee_saved_pool d) = 1024"
  shows "\<exists>c' pool. unwind_and_size True ex_mem c d = Inr (c', ex_dest1 d pool) \<and> length pool = 1024 \<and>
    act_site (acts c' 1) = ex_site 5 0x2010 32 2 0 1 \<and> fbp regs_aarch64 (act_regs (acts c' 1)) = 0x7010 \<and>
    handle c' = ex_a64 \<and> num_acts c' = 3 \<and> act c' = 0"
proof -
  obtain c1 where l: "unwind_loop True ex_mem (c, d, 0) = Inr (c1, upd_act (upd_act (d\<lparr>num_acts := 2, act := 2\<rparr>) 1
      (\<lambda>x. x\<lparr>act_site := ex_site 5 0x2020 32 2 0 1\<rparr>)) 2 (\<lambda>x. x\<lparr>act_site := ex_site UINT64_MAX 0x3020 16 0 0 0\<rparr>), 48)"
    "ex_at c1 2 2 (ex_site UINT64_MAX 0x3010 16 0 0 0) 0x7030 0x7040" "act_site (acts c1 1) = ex_site 5 0x2010 32 2 0 1"
    "fbp regs_aarch64 (act_regs (acts c1 1)) = 0x7010"
    using ex_unwind_loop[OF at d(1-3)] by blast
  have p: "pop_frame True ex_mem c1 False = Inr (ex_popped c1)"
    by (rule ex_pop) (use l(2) in \<open>simp_all add: ex_at_def ex_a64_locs ex_a64_def MAX_FRAMES_def\<close>)
  have x: "h_regops ex_x86 = regs_x86_64" "h_props ex_x86 = properties_x86_64" by (simp_all add: ex_x86_def)
  have al: "align_sp properties_x86_64 0x8fd0 = Inr 0x8fc8" "sp_needs_align properties_x86_64" "cfa_offset_funcentry properties_x86_64 = 8"
    by (simp_all add: properties_x86_64_def align_sp_x86_64_def X86_64_STACK_ALIGNMENT_def)
  have w: "bitmap_words X86_64_NUM_REGS = 2" "num_regs regs_x86_64 = X86_64_NUM_REGS"
    by (simp_all add: regs_x86_64_def X86_64_NUM_REGS_def bitmap_words_def STORAGE_TYPE_BITS_def)
  show ?thesis
    using d x al w p l(2-4)
    by (simp add: unwind_and_size_def l(1) Let_def MAX_STACK_SIZE_def clear_pool_def bootstrap_first_frame_funcentry_def
        setup_callee_saved_bits_def act_slot_def MAX_FRAMES_def x86.special_simps ptr_add_def)
      (intro exI[of _ "replicate 6 0 @ drop 6 (callee_saved_pool d)"],
       simp add: ex_dest1_def upd_act_def ex_popped_def ex_at_def x86.special_simps fun_eq_iff)
qed


section \<open>Rewriting it\<close>

lemma ex_init_dest:
  "\<exists>d. init_dest_context True (Some ex_fresh_x86) ex_x86 zero_x86_64 0x9000 fn = Inr d \<and> length (callee_saved_pool d) = 1024"
proof -
  have n: "bitmap_words (num_regs regs_x86_64) = 2" "h_regops ex_x86 = regs_x86_64"
    by (simp_all add: bitmap_words_def ex_x86_def regs_x86_64_def X86_64_NUM_REGS_def STORAGE_TYPE_BITS_def)
  show ?thesis by (simp add: init_dest_context_def init_data_pools_def blank_context_def n MAX_FRAMES_def del: upt_Suc)
qed

lemma ex_put_val:
  assumes s: "handle s = ex_a64" "act s = 1" "fbp regs_aarch64 (act_regs (acts s 1)) = 0x7010"
    and d: "handle d = ex_x86" "act d = 1" "fbp regs_x86_64 (act_regs (acts d 1)) = 0x8fe0"
  shows "put_val True m s (ex_slot 29 16) d (ex_slot 6 (- 8)) = Inr (write_bytes m 0x8fd8 (read_bytes m 0x7020 8), d)"
proof -
  have "reg_read64 regs_aarch64 (act_regs (acts s 1)) 29 = Inr 0x7010" "reg_read64 regs_x86_64 (act_regs (acts d 1)) 6 = Inr 0x8fe0"
    using s d by (simp_all add: a64.read64_fbp x86.read64_fbp)
  moreover have "h_regops ex_a64 = regs_aarch64" "h_regops ex_x86 = regs_x86_64" by (simp_all add: ex_a64_def ex_x86_def)
  ultimately show ?thesis
    using s d by (simp add: put_val_def get_src_loc_def get_dest_loc_def get_val_loc_def callee_addr_of_def ex_slot_def is_const_def
        VAL_SIZE_def ptr_add_def read_src_def read_loc_def write_loc_def)
qed

lemma ex_rewrite_frame:
  assumes s: "handle s = ex_a64" "act s = 1" "act_site (acts s 1) = ex_site 5 0x2010 32 2 0 1" "fbp regs_aarch64 (act_regs (acts s 1)) = 0x7010"
    and d: "handle d = ex_x86" "act d = 1" "act_site (acts d 1) = ex_site 5 0x2020 32 2 0 1" "fbp regs_x86_64 (act_regs (acts d 1)) = 0x8fe0"
  shows "rewrite_frame True m s d = Some (Inr (write_bytes m 0x8fd8 (read_bytes m 0x7020 8), d))"
proof -
  have v: "live_vals ex_a64 = [ex_slot 29 16, ex_slot 29 24]" "live_vals ex_x86 = [ex_slot 6 (- 8), ex_slot 6 (- 16)]"
    "live_vals_count ex_a64 = 2" "live_vals_count ex_x86 = 2"
    by (simp_all add: ex_a64_def ex_x86_def)
  have sl: "is_duplicate (ex_slot r off) = False" "is_alloca (ex_slot r off) = False" "is_ptr (ex_slot r off) = False" "VAL_SIZE (ex_slot r off) = 8" for r off
    by (simp_all add: ex_slot_def VAL_SIZE_def)
  have site: "cs_num_live (ex_site a b c e f g) = g" "cs_live_offset (ex_site a b c e f g) = 0" "cs_num_arch_live (ex_site a b c e f g) = 0" for a b c e f g
    by (simp_all add: ex_site_def EMPTY_CALL_SITE_def)
  have rv: "rewrite_val True m s (ex_slot 29 16) d (ex_slot 6 (- 8)) = Inr (write_bytes m 0x8fd8 (read_bytes m 0x7020 8), d, False)"
    using ex_put_val[OF s(1,2,4) d(1,2,4), of m] by (simp add: rewrite_val_def va_list_pair_def sl copy_or_fixup_def points_to_stack_def)
  have dup: "dup_loop True s (ex_slot 29 16) (live_vals ex_x86) 0 0 st = Inr (0, st)" for st :: "mem \<times> regset_x86_64 rewrite_context \<times> bool"
    by (subst dup_loop.simps) (simp add: live_at_def v sl)
  have skip: "skip_duplicates (live_vals ex_a64) 0 0 = Inr 0"
    by (subst skip_duplicates.simps) (simp add: live_at_def v sl)
  have "live_loop True s ex_x86 (ex_site 5 0x2020 32 2 0 1) 0 0 (m, d, False) = Inr (1, 1, write_bytes m 0x8fd8 (read_bytes m 0x7020 8), d, False)"
    using s dup skip by (subst live_loop.simps, subst live_loop.simps) (simp add: site live_at_def v sl rv Let_def)
  then show ?thesis using s d by (simp add: rewrite_frame_def Let_def site)
qed


lemma ex_entry:
  assumes d: "handle d = ex_x86" and pool: "length pool = 1024"
  shows "\<exists>m1 d1 d2. set_return_address_funcentry True m (ex_dest1 d pool) 0x2020 = Inr (m1, d1) \<and> pop_frame_funcentry True m1 d1 = Inr d2 \<and>
    handle d2 = ex_x86 \<and> act d2 = 1 \<and> act_site (acts d2 1) = ex_site 5 0x2020 32 2 0 1 \<and>
    act_site (acts d2 2) = ex_site UINT64_MAX 0x3020 16 0 0 0 \<and> act_cfa (acts d2 1) = 0x8ff0 \<and>
    fbp regs_x86_64 (act_regs (acts d2 1)) = 0x8fe0 \<and> callee_saved_pool d2 = pool \<and>
    act_callee_saved (acts d2 1) = \<lparr>bm_size = X86_64_NUM_REGS, bm_bits = Some (bitmap_size X86_64_NUM_REGS)\<rparr>"
proof -
  let ?d = "ex_dest1 d pool"
  have o: "h_regops ex_x86 = regs_x86_64" "h_props ex_x86 = properties_x86_64" "\<not> has_ra_reg regs_x86_64" "ra_offset properties_x86_64 = - 8"
    "num_regs regs_x86_64 = X86_64_NUM_REGS"
    by (simp_all add: ex_x86_def regs_x86_64_def properties_x86_64_def)
  have e: "handle ?d = ex_x86" "act ?d = 0" "act_cfa (acts ?d 0) = 0x8fd0" "act_site (acts ?d 1) = ex_site 5 0x2020 32 2 0 1"
    "act_site (acts ?d 2) = ex_site UINT64_MAX 0x3020 16 0 0 0" "callee_saved_pool ?d = pool"
    using d by (simp_all add: ex_dest1_def)
  have r: "set_return_address_funcentry True m ?d 0x2020 = Inr (store64 m 0x8fc8 0x2020, ?d)"
    using e o by (simp add: set_return_address_funcentry_def ptr_add_def)
  have pre: "REGOPS ?d = regs_x86_64" "PROPS ?d = properties_x86_64" "act ?d + 1 < MAX_FRAMES"
    "(if has_ra_reg regs_x86_64 then ra_reg regs_x86_64 (act_regs (ACT ?d))
      else Inr (load64 (store64 m 0x8fc8 0x2020) (sp regs_x86_64 (act_regs (ACT ?d))))) =
     Inr (load64 (store64 m 0x8fc8 0x2020) (sp regs_x86_64 (act_regs (ACT ?d))))"
    "0x8ff0 = act_cfa (ACT ?d) + ucast (cs_frame_size (act_site (NEXT_ACT ?d)))"
    "True \<longrightarrow> act_cfa (ACT ?d) \<noteq> 0 \<and> cs_addr (act_site (NEXT_ACT ?d)) \<noteq> 0 \<and> (0x8ff0 :: u64) \<noteq> 0 \<and> (0x8ff0 :: u64) \<noteq> 16"
    using e o by (simp_all add: MAX_FRAMES_def ex_site_sel)
  obtain d2 where p: "pop_frame_funcentry True (store64 m 0x8fc8 0x2020) ?d = Inr d2" "act d2 = act ?d + 1"
    "fbp regs_x86_64 (act_regs (ACT d2)) = 0x8ff0 - 16" "act_cfa (ACT d2) = 0x8ff0" "act_site (ACT d2) = act_site (NEXT_ACT ?d)"
    "\<forall>j. j \<noteq> act ?d \<longrightarrow> j \<noteq> act ?d + 1 \<longrightarrow> acts d2 j = acts ?d j" "handle d2 = handle ?d" "callee_saved_pool d2 = callee_saved_pool ?d"
    "act_callee_saved (ACT d2) = \<lparr>bm_size = num_regs regs_x86_64, bm_bits = Some ((act ?d + 1) * bitmap_size (num_regs regs_x86_64))\<rparr>"
    using x86p.pop_frame_funcentry_law[OF pre] by blast
  show ?thesis using r p e o by (intro exI[of _ "store64 m 0x8fc8 0x2020"] exI[of _ ?d] exI[of _ d2]) simp
qed

lemma ex_frame_step:
  assumes s: "handle s = ex_a64" "act s = 1" "act_site (acts s 1) = ex_site 5 0x2010 32 2 0 1" "fbp regs_aarch64 (act_regs (acts s 1)) = 0x7010"
    and d: "handle d = ex_x86" "act d = 1" "act_site (acts d 1) = ex_site 5 0x2020 32 2 0 1" "act_site (acts d 2) = ex_site UINT64_MAX 0x3020 16 0 0 0"
      "act_cfa (acts d 1) = 0x8ff0" "fbp regs_x86_64 (act_regs (acts d 1)) = 0x8fe0" "length (callee_saved_pool d) = 1024"
      "act_callee_saved (acts d 1) = \<lparr>bm_size = X86_64_NUM_REGS, bm_bits = Some (bitmap_size X86_64_NUM_REGS)\<rparr>"
  shows "\<exists>m' d'. frame_step True s m d = Some (Inr (m', d'))"
proof -
  have o: "h_regops ex_x86 = regs_x86_64" "h_props ex_x86 = properties_x86_64" "ra_offset properties_x86_64 = - 8"
    "savedfbp_offset properties_x86_64 = - 16" "num_regs regs_x86_64 = X86_64_NUM_REGS" "bitmap_words X86_64_NUM_REGS = 2"
    "unwind_locs ex_x86 = [\<lparr>ul_reg = 6, ul_offset = 0\<rparr>, \<lparr>ul_reg = 16, ul_offset = 8\<rparr>]"
    by (simp_all add: ex_x86_def regs_x86_64_def properties_x86_64_def X86_64_NUM_REGS_def bitmap_words_def STORAGE_TYPE_BITS_def)
  have u: "unwindable properties_x86_64 (num_regs regs_x86_64) d (ACT d)"
    using d by (auto simp: unwindable_def site_locs_def ex_a64_locs o bitmap_wf_def bitmap_size_def loc_reg_def
        properties_x86_64_def is_callee_saved_x86_64_def)
  let ?m = "write_bytes (store64 m 0x8fe8 0x3020) 0x8fd8 (read_bytes (store64 m 0x8fe8 0x3020) 0x7020 8)"
  obtain d' where "pop_frame True ?m d True = Inr d'"
    using x86p.pop_frame_bounds_law[OF _ _ u, of "0x9000" True ?m] d o by (auto simp: MAX_FRAMES_def ex_site_sel simp flip: numeral_2_eq_2)
  then show ?thesis
    using ex_rewrite_frame[OF s d(1-3,6)] d o
    by (simp add: frame_step_def set_return_address_def bindN_def get_savedfbp_loc_def ptr_add_def ex_site_sel flip: numeral_2_eq_2)
qed

text \<open>The whole example: the rewrite returns and its result is known up to the memory and registers.\<close>

lemma ex_rewrite_runs:
  "\<exists>src dest src1 pool m' out. init_src_context True (Some ex_fresh_a64) ex_a64 ex_regs 0x7040 = Inr src \<and>
     pc (h_regops ex_a64) (act_regs (acts src 0)) = 0x1010 \<and>
     init_dest_context True (Some ex_fresh_x86) ex_x86 zero_x86_64 0x9000 0x1000 = Inr dest \<and>
     unwind_and_size True ex_mem src dest = Inr (src1, ex_dest1 dest pool) \<and>
     ex_rewrite = Some (Inr (m', Some out, 0))"
proof -
  obtain src where 1: "init_src_context True (Some ex_fresh_a64) ex_a64 ex_regs 0x7040 = Inr src"
    "ex_at src 0 0 (ex_site 1 0x1010 16 2 0 0) 0x7000 0x7010" "pc regs_aarch64 (act_regs (acts src 0)) = 0x1010"
    using ex_init_src by blast
  obtain dest where 2: "init_dest_context True (Some ex_fresh_x86) ex_x86 zero_x86_64 0x9000 0x1000 = Inr dest" "length (callee_saved_pool dest) = 1024"
    using ex_init_dest by blast
  have d: "handle dest = ex_x86" "act dest = 0" "num_acts dest = 0" "stack_base dest = 0x9000" using init_dest_context_start[OF 2(1)] by auto
  obtain src1 pool where 3: "unwind_and_size True ex_mem src dest = Inr (src1, ex_dest1 dest pool)" "length pool = 1024"
    "act_site (acts src1 1) = ex_site 5 0x2010 32 2 0 1" "fbp regs_aarch64 (act_regs (acts src1 1)) = 0x7010"
    "handle src1 = ex_a64" "num_acts src1 = 3" "act src1 = 0"
    using ex_unwind[OF 1(2) d 2(2)] by blast
  obtain m1 d1 d2 where 4: "set_return_address_funcentry True ex_mem (ex_dest1 dest pool) 0x2020 = Inr (m1, d1)" "pop_frame_funcentry True m1 d1 = Inr d2"
    "handle d2 = ex_x86" "act d2 = 1" "act_site (acts d2 1) = ex_site 5 0x2020 32 2 0 1" "act_site (acts d2 2) = ex_site UINT64_MAX 0x3020 16 0 0 0"
    "act_cfa (acts d2 1) = 0x8ff0" "fbp regs_x86_64 (act_regs (acts d2 1)) = 0x8fe0" "callee_saved_pool d2 = pool"
    "act_callee_saved (acts d2 1) = \<lparr>bm_size = X86_64_NUM_REGS, bm_bits = Some (bitmap_size X86_64_NUM_REGS)\<rparr>"
    using ex_entry[OF d(1) 3(2)] by blast
  obtain m2 d3 where 5: "frame_step True (src1\<lparr>act := 1\<rparr>) m1 d2 = Some (Inr (m2, d3))"
    using ex_frame_step[of "src1\<lparr>act := 1\<rparr>" d2 m1] 3 4 by auto
  have fn: "get_function_address ex_a64 0x1010 = Inr 0x1000" by code_simp
  have ex: "cs_addr (act_site (NEXT_ACT (ex_dest1 dest pool))) = 0x2020" by (simp add: ex_dest1_def ex_site_sel)
  have loop: "frame_loop True src1 [1..<num_acts src1 - 1] m1 d2 = Some (Inr (m2, d3))"
    using 5 3(6) by (simp add: upt_rec bindN_def)
  have ha: "h_regops ex_a64 = regs_aarch64" "handle src = ex_a64" "act src = 0" using 1(2) by (simp_all add: ex_a64_def ex_at_def)
  have "\<exists>out. ex_rewrite = Some (Inr (m2, Some out, 0))"
    using 1(1,3) 2(1) 3(1) 4(1,2) ex fn ha loop by (simp add: ex_rewrite_def st_rewrite_stack_def rewrite_all_def rewrite_contexts_def bindN_def)
  with 1 2 3 ha show ?thesis by metis
qed

text \<open>The metadata of the example stays inside its frames.\<close>

lemma ex_framed: "\<forall>site\<in>set (sites_id ex_x86). framed_site 7 6 16 True ex_x86 site"
proof -
  have r: "unwind_range (ex_site 1 0x1020 16 2 0 0) = [0, 1]" "unwind_range (ex_site 5 0x2020 32 2 0 1) = [0, 1]"
     "unwind_range (ex_site UINT64_MAX 0x3020 16 0 0 0) = []"
    by (simp_all add: ex_a64_locs)
  have s: "cs_live_offset (ex_site a b c e f g) = 0" "cs_num_live (ex_site a b c e f g) = g" "cs_num_arch_live (ex_site a b c e f g) = 0" for a b c e f g
    by (simp_all add: ex_site_def EMPTY_CALL_SITE_def)
  have h: "sites_id ex_x86 = ex_sites_x86" "h_props ex_x86 = properties_x86_64" "live_vals ex_x86 = [ex_slot 6 (- 8), ex_slot 6 (- 16)]"
    "unwind_locs ex_x86 = [\<lparr>ul_reg = 6, ul_offset = 0\<rparr>, \<lparr>ul_reg = 16, ul_offset = 8\<rparr>]"
    by (simp_all add: ex_x86_def)
  have v: "framed_val 7 6 16 properties_x86_64 True 32 (ex_slot 6 (- 8))"
    by (simp add: framed_val_def framed_loc_def framed_size_def in_frame_def ex_slot_def VAL_SIZE_def)
  show ?thesis
    using v by (simp add: h ex_sites_x86_def framed_site_def framed_saves_def r ex_site_sel s loc_reg_def ex_slot_def)
qed

end
