(* ===== verification/Bomp_Sync.thy ===== *)
theory Bomp_Sync
  imports Prelude
begin

text \<open>
  The spin lock and the barrier of the OpenMP runtime, \<open>lib/libbomp/spin.h\<close>, as programs run
  by several threads. A thread's position in \<open>bomp_lock\<close>, \<open>bomp_unlock\<close> or
  \<open>bomp_barrier_wait\<close> is a program counter; one step of one thread is one access to shared
  memory, and a schedule is the list of the threads that take the steps, so that every
  interleaving of the accesses is a list. The count of spins that \<open>bomp_barrier_wait\<close> keeps for
  its statistics has no effect on the barrier and is left out. Both versions of the lock
  exclude each other's critical sections, and a barrier built for the team that uses it lets
  no thread go before all have arrived and never blocks a complete team.
\<close>

section \<open>Interleavings\<close>

definition run :: "(nat \<Rightarrow> 's \<Rightarrow> 's) \<Rightarrow> nat list \<Rightarrow> 's \<Rightarrow> 's" where
  "run step sched s = fold step sched s"

lemma run_simps [simp]:
  "run step [] s = s"
  "run step (i # is) s = run step is (step i s)"
  by (simp_all add: run_def)

lemma run_append: "run step (is @ js) s = run step js (run step is s)"
  by (simp add: run_def)

text \<open>What it takes for a fact to hold after every schedule.\<close>

locale interleaving =
  fixes step :: "nat \<Rightarrow> 's \<Rightarrow> 's" and init :: "'s \<Rightarrow> bool" and inv :: "'s \<Rightarrow> bool"
  assumes inv_init: "init s \<Longrightarrow> inv s"
    and inv_step: "inv s \<Longrightarrow> inv (step i s)"
begin

lemma inv_run: "init s \<Longrightarrow> inv (run step sched s)"
proof (induction sched arbitrary: s rule: rev_induct)
  case Nil
  then show ?case by (simp add: inv_init)
next
  case (snoc i sched)
  then show ?case by (simp add: run_append inv_step)
qed

end

text \<open>A lock: no two threads are in their critical sections at once.\<close>

locale mutual_exclusion = interleaving +
  fixes critical :: "nat \<Rightarrow> 's \<Rightarrow> bool"
  assumes inv_exclusive: "inv s \<Longrightarrow> critical i s \<Longrightarrow> critical j s \<Longrightarrow> i = j"
begin

lemma exclusive_run:
  "init s \<Longrightarrow> critical i (run step sched s) \<Longrightarrow> critical j (run step sched s) \<Longrightarrow> i = j"
  using inv_exclusive [OF inv_run] .

end

section \<open>Counting threads\<close>

definition cnt :: "('a \<Rightarrow> bool) \<Rightarrow> 'a list \<Rightarrow> nat" where
  "cnt P xs = length (filter P xs)"

lemma cnt_simps [simp]:
  "cnt P [] = 0" "cnt P (x # xs) = (if P x then 1 else 0) + cnt P xs"
  by (simp_all add: cnt_def)

lemma cnt_append: "cnt P (xs @ ys) = cnt P xs + cnt P ys"
  by (simp add: cnt_def)

lemma cnt_update:
  "i < length xs \<Longrightarrow>
   cnt P (xs[i := y]) + (if P (xs ! i) then 1 else 0) = cnt P xs + (if P y then 1 else 0)"
proof -
  assume i: "i < length xs"
  have "cnt P xs = cnt P (take i xs @ xs ! i # drop (Suc i) xs)"
    using id_take_nth_drop [OF i] by simp
  then show ?thesis by (simp add: upd_conv_take_nth_drop [OF i] cnt_append)
qed

lemma cnt_le_length: "cnt P xs \<le> length xs"
  by (simp add: cnt_def)

lemma cnt_all: "cnt P xs = length xs \<longleftrightarrow> (\<forall>x\<in>set xs. P x)"
  unfolding cnt_def by (metis filter_True length_filter_less less_irrefl)

lemma cnt_none: "cnt P xs = 0 \<longleftrightarrow> (\<forall>x\<in>set xs. \<not> P x)"
  by (simp add: cnt_def filter_empty_conv)

lemma cnt_replicate: "cnt P (replicate n x) = (if P x then n else 0)"
  by (induction n) auto

lemma cnt_one_unique:
  assumes "cnt P xs \<le> 1" "i < length xs" "j < length xs" "P (xs ! i)" "P (xs ! j)"
  shows "i = j"
proof (rule ccontr)
  assume ne: "i \<noteq> j"
  have "{i, j} \<subseteq> {k. k < length xs \<and> P (xs ! k)}" using assms by auto
  then have "card {i, j} \<le> cnt P xs"
    unfolding cnt_def length_filter_conv_card by (intro card_mono) auto
  with ne assms(1) show False by simp
qed

section \<open>The spin lock, x86-64\<close>

text \<open>
  \<open>X_cmp\<close> stands before the \<open>cmpq\<close> of the polling loop, \<open>X_bts\<close> before the \<open>lock btsq\<close>,
  \<open>X_crit\<close> is the code between \<open>bomp_lock\<close> and \<open>bomp_unlock\<close>.
\<close>

datatype xlock_pc = X_out | X_cmp | X_bts | X_crit

record xlock =
  xl_lock :: u64
  xl_pcs :: "xlock_pc list"

fun bomp_lock_x86_64 :: "u64 \<Rightarrow> xlock_pc \<Rightarrow> u64 \<times> xlock_pc" where
  "bomp_lock_x86_64 l X_out = (l, X_cmp)"
| "bomp_lock_x86_64 l X_cmp = (l, if l = 0 then X_bts else X_cmp)"
| "bomp_lock_x86_64 l X_bts = (set_bit 0 l, if bit l 0 then X_cmp else X_crit)"
| "bomp_lock_x86_64 l X_crit = (0, X_out)"

definition xlock_step :: "nat \<Rightarrow> xlock \<Rightarrow> xlock" where
  "xlock_step i s =
     (if i < length (xl_pcs s) then
        (let (l, pc) = bomp_lock_x86_64 (xl_lock s) (xl_pcs s ! i) in
         \<lparr>xl_lock = l, xl_pcs = (xl_pcs s)[i := pc]\<rparr>)
      else s)"

definition xlock_init :: "xlock \<Rightarrow> bool" where
  "xlock_init s \<longleftrightarrow> xl_lock s = 0 \<and> (\<forall>pc\<in>set (xl_pcs s). pc = X_out)"

definition xlock_inv :: "xlock \<Rightarrow> bool" where
  "xlock_inv s \<longleftrightarrow> (xl_lock s = 0 \<and> cnt (\<lambda>pc. pc = X_crit) (xl_pcs s) = 0) \<or>
     (xl_lock s = 1 \<and> cnt (\<lambda>pc. pc = X_crit) (xl_pcs s) = 1)"

definition xlock_critical :: "nat \<Rightarrow> xlock \<Rightarrow> bool" where
  "xlock_critical i s \<longleftrightarrow> i < length (xl_pcs s) \<and> xl_pcs s ! i = X_crit"

lemma xlock_inv_step: "xlock_inv s \<Longrightarrow> xlock_inv (xlock_step i s)"
proof (cases "i < length (xl_pcs s)")
  case True
  assume "xlock_inv s"
  moreover have "cnt (\<lambda>pc. pc = X_crit) (xl_pcs s) = 0 \<Longrightarrow> xl_pcs s ! i \<noteq> X_crit"
    using True by (auto simp: cnt_none)
  ultimately show ?thesis
    using True cnt_update [OF True, of "\<lambda>pc. pc = X_crit"]
    by (cases "xl_pcs s ! i")
      (auto simp: xlock_inv_def xlock_step_def set_bit_eq_or bit_1_iff)
qed (simp add: xlock_step_def)

interpretation x86_lock: mutual_exclusion xlock_step xlock_init xlock_inv xlock_critical
proof
  show "xlock_inv s" if "xlock_init s" for s
    using that by (auto simp: xlock_init_def xlock_inv_def cnt_none)
  show "xlock_inv (xlock_step i s)" if "xlock_inv s" for s i
    using that by (rule xlock_inv_step)
  show "i = j" if "xlock_inv s" "xlock_critical i s" "xlock_critical j s" for s i j
    using that cnt_one_unique [of "\<lambda>pc. pc = X_crit" "xl_pcs s" i j]
    by (auto simp: xlock_inv_def xlock_critical_def)
qed

section \<open>The spin lock, aarch64\<close>

text \<open>
  The exclusive monitor records which threads loaded the lock with \<open>ldaxr\<close> since it was last
  written; \<open>stxr\<close> stores only for such a thread, and every store to the lock clears the
  monitor. \<open>wfe\<close> may return at any time, so a waiting thread simply tries again. The
  instructions access the low 32 bits of the lock.
\<close>

datatype alock_pc = A_out | A_wfe | A_ldaxr | A_stxr | A_crit

record alock =
  al_lock :: u64
  al_threads :: "(alock_pc \<times> bool) list"

definition clear_monitor :: "(alock_pc \<times> bool) list \<Rightarrow> (alock_pc \<times> bool) list" where
  "clear_monitor ts = map (\<lambda>(pc, m). (pc, False)) ts"

definition low32 :: "u64 \<Rightarrow> u32" where
  "low32 l = ucast l"

definition set_low32 :: "u64 \<Rightarrow> u32 \<Rightarrow> u64" where
  "set_low32 l v = (l AND NOT (mask 32)) OR ucast v"

definition bomp_lock_aarch64 :: "nat \<Rightarrow> alock \<Rightarrow> alock" where
  "bomp_lock_aarch64 i s =
     (if i < length (al_threads s) then
        (let l = al_lock s; ts = al_threads s; (pc, m) = ts ! i in
         case pc of
           A_out \<Rightarrow> s\<lparr>al_threads := ts[i := (A_wfe, m)]\<rparr>
         | A_wfe \<Rightarrow> s\<lparr>al_threads := ts[i := (A_ldaxr, m)]\<rparr>
         | A_ldaxr \<Rightarrow> s\<lparr>al_threads := ts[i := (if low32 l \<noteq> 0 then A_wfe else A_stxr, True)]\<rparr>
         | A_stxr \<Rightarrow>
             (if m then \<lparr>al_lock = set_low32 l 1, al_threads = (clear_monitor ts)[i := (A_crit, False)]\<rparr>
              else s\<lparr>al_threads := ts[i := (A_ldaxr, False)]\<rparr>)
         | A_crit \<Rightarrow> \<lparr>al_lock = 0, al_threads = (clear_monitor ts)[i := (A_out, False)]\<rparr>)
      else s)"

definition alock_init :: "alock \<Rightarrow> bool" where
  "alock_init s \<longleftrightarrow> al_lock s = 0 \<and> (\<forall>t\<in>set (al_threads s). t = (A_out, False))"

definition alock_inv :: "alock \<Rightarrow> bool" where
  "alock_inv s \<longleftrightarrow>
     (al_lock s = 0 \<and> cnt (\<lambda>t. fst t = A_crit) (al_threads s) = 0 \<or>
      al_lock s = 1 \<and> cnt (\<lambda>t. fst t = A_crit) (al_threads s) = 1) \<and>
     (al_lock s = 1 \<longrightarrow> (\<forall>k<length (al_threads s). al_threads s ! k \<noteq> (A_stxr, True)))"

definition alock_critical :: "nat \<Rightarrow> alock \<Rightarrow> bool" where
  "alock_critical i s \<longleftrightarrow> i < length (al_threads s) \<and> fst (al_threads s ! i) = A_crit"

lemma clear_monitor_simps [simp]:
  "length (clear_monitor ts) = length ts"
  "i < length ts \<Longrightarrow> clear_monitor ts ! i = (fst (ts ! i), False)"
  "cnt (\<lambda>t. fst t = A_crit) (clear_monitor ts) = cnt (\<lambda>t. fst t = A_crit) ts"
  "t \<in> set (clear_monitor ts) \<Longrightarrow> \<not> snd t"
  by (auto simp: clear_monitor_def case_prod_beta) (induction ts, auto)

lemma low32_simps [simp]: "low32 0 = 0" "low32 1 = 1" "set_low32 0 1 = 1"
  by (simp_all add: low32_def set_low32_def)

lemma alock_inv_step: "alock_inv s \<Longrightarrow> alock_inv (bomp_lock_aarch64 i s)"
proof (cases "i < length (al_threads s)")
  case True
  assume inv: "alock_inv s"
  obtain pc m where t: "al_threads s ! i = (pc, m)" by fastforce
  have c: "cnt (\<lambda>t. fst t = A_crit) (al_threads s) = 0 \<Longrightarrow> pc \<noteq> A_crit"
    using True t nth_mem [OF True] by (force simp: cnt_none)
  note step = alock_inv_def bomp_lock_aarch64_def Let_def t nth_list_update
  note up = cnt_update [OF True, of "\<lambda>t. fst t = A_crit", unfolded t]
  have i': "i < length (clear_monitor (al_threads s))" using True by simp
  note upc = cnt_update [OF i', of "\<lambda>t. fst t = A_crit"]
  show ?thesis
  proof (cases pc)
    case A_out
    then show ?thesis using inv True up [of "(A_wfe, m)"] by (auto simp: step)
  next
    case A_wfe
    then show ?thesis using inv True up [of "(A_ldaxr, m)"] by (auto simp: step)
  next
    case A_ldaxr
    then show ?thesis
      using inv True up [of "(A_wfe, True)"] up [of "(A_stxr, True)"] by (auto simp: step)
  next
    case A_stxr
    then show ?thesis
      using inv True t up [of "(A_ldaxr, False)"] upc [of "(A_crit, False)"] by (auto simp: step)
  next
    case A_crit
    then show ?thesis using inv True t c upc [of "(A_out, False)"] by (auto simp: step)
  qed
qed (simp add: bomp_lock_aarch64_def)

interpretation aarch64_lock: mutual_exclusion bomp_lock_aarch64 alock_init alock_inv alock_critical
proof
  show "alock_inv s" if "alock_init s" for s
    using that by (auto simp: alock_init_def alock_inv_def cnt_none)
  show "alock_inv (bomp_lock_aarch64 i s)" if "alock_inv s" for s i
    using that by (rule alock_inv_step)
  show "i = j" if "alock_inv s" "alock_critical i s" "alock_critical j s" for s i j
    using that cnt_one_unique [of "\<lambda>t. fst t = A_crit" "al_threads s" i j]
    by (auto simp: alock_inv_def alock_critical_def)
qed

section \<open>The barrier\<close>

record bomp_barrier =
  bar_max :: u32
  bar_cycle :: u32
  bar_counter :: u32

definition bomp_barrier_init :: "int \<Rightarrow> bomp_barrier" where
  "bomp_barrier_init count = \<lparr>bar_max = of_int count, bar_cycle = 0, bar_counter = 0\<rparr>"

definition bomp_barrier_updateMax :: "bomp_barrier \<Rightarrow> int \<Rightarrow> bomp_barrier" where
  "bomp_barrier_updateMax b new_max = b\<lparr>bar_max := of_int new_max\<rparr>"

text \<open>
  Positions in \<open>bomp_barrier_wait\<close>: \<open>B_out\<close> outside, \<open>B_add c\<close> before the atomic increment
  with the cycle \<open>c\<close> just read, then either, in the last thread to arrive, before
  \<open>counter = 0\<close>, before the read and before the write of \<open>cycle = !cycle\<close>, or, in the others,
  in the loop that waits for the cycle to change.
\<close>

datatype barrier_pc = B_out | B_add u32 | B_reset | B_load | B_store u32 | B_spin u32

fun bomp_barrier_wait :: "bomp_barrier \<Rightarrow> barrier_pc \<Rightarrow> bomp_barrier \<times> barrier_pc" where
  "bomp_barrier_wait b B_out = (b, B_add (bar_cycle b))"
| "bomp_barrier_wait b (B_add c) =
     (b\<lparr>bar_counter := bar_counter b + 1\<rparr>,
      if bar_counter b = bar_max b - 1 then B_reset else B_spin c)"
| "bomp_barrier_wait b B_reset = (b\<lparr>bar_counter := 0\<rparr>, B_load)"
| "bomp_barrier_wait b B_load = (b, B_store (if bar_cycle b = 0 then 1 else 0))"
| "bomp_barrier_wait b (B_store v) = (b\<lparr>bar_cycle := v\<rparr>, B_out)"
| "bomp_barrier_wait b (B_spin c) = (b, if c = bar_cycle b then B_spin c else B_out)"

text \<open>
  A team of threads at one barrier. Each thread's position comes with the number of calls of
  \<open>bomp_barrier_wait\<close> it has returned from.
\<close>

record team =
  tm_barrier :: bomp_barrier
  tm_threads :: "(barrier_pc \<times> nat) list"

definition returns :: "barrier_pc \<Rightarrow> barrier_pc \<Rightarrow> bool" where
  "returns pc pc' \<longleftrightarrow> pc \<noteq> B_out \<and> pc' = B_out"

definition team_step :: "nat \<Rightarrow> team \<Rightarrow> team" where
  "team_step i s =
     (if i < length (tm_threads s) then
        (let (pc, d) = tm_threads s ! i; (b, pc') = bomp_barrier_wait (tm_barrier s) pc in
         \<lparr>tm_barrier = b,
          tm_threads = (tm_threads s)[i := (pc', if returns pc pc' then d + 1 else d)]\<rparr>)
      else s)"

definition team_init :: "nat \<Rightarrow> int \<Rightarrow> team" where
  "team_init n count = \<lparr>tm_barrier = bomp_barrier_init count, tm_threads = replicate n (B_out, 0)\<rparr>"

definition inside :: "barrier_pc \<times> nat \<Rightarrow> bool" where
  "inside t \<longleftrightarrow> fst t \<noteq> B_out"

text \<open>The number of barriers a thread has arrived at, counting from the atomic increment.\<close>

definition arrivals :: "barrier_pc \<times> nat \<Rightarrow> nat" where
  "arrivals t = (case fst t of B_out \<Rightarrow> snd t | B_add c \<Rightarrow> snd t | _ \<Rightarrow> Suc (snd t))"

section \<open>The barrier keeps a team together\<close>

definition parity :: "nat \<Rightarrow> u32" where
  "parity p = of_nat (p mod 2)"

fun thread_ok :: "nat \<Rightarrow> barrier_pc \<times> nat \<Rightarrow> bool" where
  "thread_ok p (B_add c, d) \<longleftrightarrow> d = p \<and> c = parity p"
| "thread_ok p (B_store v, d) \<longleftrightarrow> d = p \<and> v = parity (Suc p)"
| "thread_ok p (B_spin c, d) \<longleftrightarrow> c = parity d \<and> (d = p \<or> Suc d = p)"
| "thread_ok p (_, d) \<longleftrightarrow> d = p"

definition leader :: "barrier_pc \<times> nat \<Rightarrow> bool" where
  "leader t \<longleftrightarrow> (case fst t of B_reset \<Rightarrow> True | B_load \<Rightarrow> True | B_store _ \<Rightarrow> True | _ \<Rightarrow> False)"

definition arrived :: "nat \<Rightarrow> barrier_pc \<times> nat \<Rightarrow> bool" where
  "arrived p t \<longleftrightarrow> arrivals t = Suc p"

text \<open>
  The threads are in phase \<open>p\<close>, the number of completed cycles. Either the phase is still
  open, and the counter says how many threads have arrived; or all have arrived, and exactly
  one of them is closing the phase.
\<close>

definition in_phase :: "nat \<Rightarrow> team \<Rightarrow> bool" where
  "in_phase p s \<longleftrightarrow>
     (let b = tm_barrier s; ts = tm_threads s in
      ts \<noteq> [] \<and> length ts < 2 ^ 32 \<and> bar_max b = of_nat (length ts) \<and> bar_cycle b = parity p \<and>
      (\<forall>t\<in>set ts. thread_ok p t) \<and>
      (cnt leader ts = 0 \<and> unat (bar_counter b) = cnt (arrived p) ts \<and>
         cnt (arrived p) ts < length ts \<or>
       cnt leader ts = 1 \<and> cnt (arrived p) ts = length ts \<and>
         (\<forall>t\<in>set ts. fst t \<noteq> B_reset \<longrightarrow> leader t \<longrightarrow> bar_counter b = 0)))"

definition team_inv :: "team \<Rightarrow> bool" where
  "team_inv s \<longleftrightarrow> (\<exists>p. in_phase p s)"

definition team_ok :: "team \<Rightarrow> bool" where
  "team_ok s \<longleftrightarrow> (\<exists>n. 0 < n \<and> n < 2 ^ 32 \<and> s = team_init n (int n))"

lemma parity_neq [simp]: "parity (Suc p) \<noteq> parity p" "parity p \<noteq> parity (Suc p)"
  by (auto simp: parity_def mod_Suc)

lemma parity_flip: "(if parity p = 0 then 1 else 0) = parity (Suc p)"
  by (auto simp: parity_def mod_Suc)

lemma team_inv_init: "team_ok s \<Longrightarrow> team_inv s"
  unfolding team_inv_def
  by (rule exI [of _ 0])
    (auto simp: team_ok_def team_init_def in_phase_def bomp_barrier_init_def parity_def
      cnt_replicate leader_def arrived_def arrivals_def)

lemma ball_update:
  "i < length xs \<Longrightarrow> (\<forall>x\<in>set xs. P x) \<Longrightarrow> P y \<Longrightarrow> (\<forall>x\<in>set (xs[i := y]). P x)"
  using set_update_subset_insert [of xs i y] by blast

lemma in_phase_step_same:
  assumes inv: "in_phase p s" and i: "i < length (tm_threads s)" "tm_threads s ! i = t"
  assumes ok: "thread_ok p t'" and l: "leader t' = leader t" and a: "arrived p t' = arrived p t"
  assumes b: "bar_max b = bar_max (tm_barrier s)" "bar_cycle b = bar_cycle (tm_barrier s)"
  assumes c: "bar_counter b = bar_counter (tm_barrier s) \<or> leader t \<and> bar_counter b = 0"
  assumes n: "fst t' \<noteq> B_reset \<Longrightarrow> leader t' \<Longrightarrow> bar_counter b = 0"
  shows "in_phase p \<lparr>tm_barrier = b, tm_threads = (tm_threads s)[i := t']\<rparr>"
proof -
  let ?ts = "tm_threads s"
  have cl: "cnt leader (?ts[i := t']) = cnt leader ?ts"
    using cnt_update [OF i(1), of leader t'] i l by auto
  have ca: "cnt (arrived p) (?ts[i := t']) = cnt (arrived p) ?ts"
    using cnt_update [OF i(1), of "arrived p" t'] i a by auto
  have oks: "\<forall>t\<in>set (?ts[i := t']). thread_ok p t"
    using inv ok i by (intro ball_update) (auto simp: in_phase_def Let_def)
  have "leader t \<Longrightarrow> cnt leader ?ts \<noteq> 0" using i nth_mem [of i ?ts] by (auto simp: cnt_none)
  moreover have "\<forall>t\<in>set (?ts[i := t']). fst t \<noteq> B_reset \<longrightarrow> leader t \<longrightarrow> bar_counter b = 0"
    if "\<forall>t\<in>set ?ts. fst t \<noteq> B_reset \<longrightarrow> leader t \<longrightarrow> bar_counter (tm_barrier s) = 0"
    using that n c i by (intro ball_update) auto
  ultimately show ?thesis
    using inv b c cl ca oks by (auto simp: in_phase_def Let_def)
qed

lemma in_phase_arrive:
  assumes inv: "in_phase p s" and i: "i < length (tm_threads s)" "tm_threads s ! i = (B_add c, d)"
  shows "in_phase p (team_step i s)"
proof -
  let ?b = "tm_barrier s" and ?ts = "tm_threads s"
  have mem: "(B_add c, d) \<in> set ?ts" using i nth_mem by metis
  with inv have t: "d = p" "c = parity p" by (auto simp: in_phase_def Let_def)
  have "\<not> arrived p (B_add c, d)" using t by (simp add: arrived_def arrivals_def)
  with mem have "cnt (arrived p) ?ts \<noteq> length ?ts" by (auto simp: cnt_all)
  with inv have opn: "cnt leader ?ts = 0" "unat (bar_counter ?b) = cnt (arrived p) ?ts"
      "cnt (arrived p) ?ts < length ?ts" "bar_max ?b = of_nat (length ?ts)" "length ?ts < 2 ^ 32"
      "bar_cycle ?b = parity p" "\<forall>t\<in>set ?ts. thread_ok p t"
    by (auto simp: in_phase_def Let_def)
  let ?last = "bar_counter ?b = bar_max ?b - 1"
  let ?t = "(if ?last then B_reset else B_spin c, d)"
  have step: "team_step i s =
      \<lparr>tm_barrier = ?b\<lparr>bar_counter := bar_counter ?b + 1\<rparr>, tm_threads = ?ts[i := ?t]\<rparr>"
    using i by (simp add: team_step_def returns_def)
  have ca: "cnt (arrived p) (?ts[i := ?t]) = Suc (cnt (arrived p) ?ts)"
    using cnt_update [OF i(1), of "arrived p" ?t] i t by (simp add: arrived_def arrivals_def)
  have cl: "cnt leader (?ts[i := ?t]) = (if ?last then 1 else 0)"
    using cnt_update [OF i(1), of leader ?t] i opn(1) by (simp add: leader_def)
  have "bar_max ?b - 1 = of_nat (length ?ts - 1)" using opn(3,4) by (simp add: of_nat_diff)
  then have "unat (bar_max ?b - 1) = length ?ts - 1" using opn(5) by (simp only: unat_of_nat) simp
  then have last: "?last \<longleftrightarrow> cnt (arrived p) ?ts = length ?ts - 1"
    using opn(2) by (simp only: word_unat_eq_iff)
  have cw: "unat (bar_counter ?b + 1) = Suc (cnt (arrived p) ?ts)"
    using opn(2,3,5) by (simp add: unat_word_ariths)
  have "\<forall>t\<in>set (?ts[i := ?t]). thread_ok p t"
    using opn(7) i t by (intro ball_update) auto
  moreover have "\<forall>t\<in>set (?ts[i := ?t]). fst t \<noteq> B_reset \<longrightarrow> \<not> leader t"
    using opn(1) i by (intro ball_update) (auto simp: cnt_none leader_def)
  ultimately show ?thesis
    unfolding step using opn i ca cl last cw by (auto simp: in_phase_def Let_def)
qed

lemma released:
  "thread_ok p t \<Longrightarrow> arrived p t \<Longrightarrow> \<not> leader t \<Longrightarrow> thread_ok (Suc p) t \<and> \<not> arrived (Suc p) t"
  by (cases t, cases "fst t") (auto simp: arrived_def arrivals_def leader_def)

lemma in_phase_flip:
  assumes inv: "in_phase p s" and i: "i < length (tm_threads s)" "tm_threads s ! i = (B_store v, d)"
  shows "in_phase (Suc p) (team_step i s)"
proof -
  let ?b = "tm_barrier s" and ?ts = "tm_threads s" and ?t = "(B_out, Suc d)"
  have mem: "(B_store v, d) \<in> set ?ts" using i nth_mem by metis
  with inv have t: "d = p" "v = parity (Suc p)" by (auto simp: in_phase_def Let_def)
  have "leader (B_store v, d)" by (simp add: leader_def)
  with mem have "cnt leader ?ts \<noteq> 0" by (auto simp: cnt_none)
  with inv have closing: "cnt leader ?ts = 1" "\<forall>t\<in>set ?ts. arrived p t" "bar_counter ?b = 0"
      "\<forall>t\<in>set ?ts. thread_ok p t"
    using mem by (auto simp: in_phase_def Let_def cnt_all leader_def)
  have step: "team_step i s =
      \<lparr>tm_barrier = ?b\<lparr>bar_cycle := v\<rparr>, tm_threads = ?ts[i := ?t]\<rparr>"
    using i by (simp add: team_step_def returns_def)
  have cl: "cnt leader (?ts[i := ?t]) = 0"
    using cnt_update [OF i(1), of leader ?t] i closing(1) by (simp add: leader_def)
  have all: "thread_ok (Suc p) t \<and> \<not> arrived (Suc p) t" if "t \<in> set (?ts[i := ?t])" for t
  proof (cases "t = ?t")
    case True
    then show ?thesis using t by (simp add: arrived_def arrivals_def)
  next
    case False
    with that have "t \<in> set ?ts" using set_update_subset_insert [of ?ts i ?t] by auto
    moreover have "\<not> leader t" using that cl by (auto simp: cnt_none)
    ultimately show ?thesis using closing(2,4) released by blast
  qed
  then have "cnt (arrived (Suc p)) (?ts[i := ?t]) = 0" by (auto simp: cnt_none)
  then show ?thesis
    unfolding step using inv all cl closing(3) t by (auto simp: in_phase_def Let_def)
qed

lemma in_phase_step:
  assumes inv: "in_phase p s"
  shows "in_phase p (team_step i s) \<or> in_phase (Suc p) (team_step i s)"
proof (cases "i < length (tm_threads s)")
  case i: True
  obtain pc d where t: "tm_threads s ! i = (pc, d)" by fastforce
  have mem: "(pc, d) \<in> set (tm_threads s)" using i t nth_mem by metis
  with inv have ok: "thread_ok p (pc, d)" and cy: "bar_cycle (tm_barrier s) = parity p"
    by (auto simp: in_phase_def Let_def)
  note same = in_phase_step_same [OF inv i t]
  note step = team_step_def i t Let_def returns_def
  note props = leader_def arrived_def arrivals_def
  show ?thesis
  proof (cases pc)
    case B_out
    then have "in_phase p (team_step i s)"
      unfolding step using i ok cy by (auto simp: props t intro!: same)
    then show ?thesis ..
  next
    case (B_add c)
    then show ?thesis using in_phase_arrive [OF inv i] t by simp
  next
    case B_reset
    then have "in_phase p (team_step i s)"
      unfolding step using i ok cy by (auto simp: props t intro!: same)
    then show ?thesis ..
  next
    case B_load
    have "bar_counter (tm_barrier s) = 0"
      using inv mem B_load by (force simp: in_phase_def Let_def cnt_none leader_def)
    then have "in_phase p (team_step i s)"
      unfolding step using i ok cy B_load by (auto simp: props t parity_flip intro!: same)
    then show ?thesis ..
  next
    case (B_store v)
    then show ?thesis using in_phase_flip [OF inv i] t by simp
  next
    case (B_spin c)
    have "in_phase p (team_step i s)"
    proof (cases "c = bar_cycle (tm_barrier s)")
      case True
      then have "team_step i s = s"
        using B_spin t i by (simp add: step list_update_same_conv)
      then show ?thesis using inv by simp
    next
      case False
      then have "Suc d = p" using B_spin ok cy by auto
      then show ?thesis
        using same [of "(B_out, Suc d)" "tm_barrier s"] B_spin False i t
        by (simp add: step) (simp add: props)
    qed
    then show ?thesis ..
  qed
qed (simp add: team_step_def inv)

lemma team_inv_step: "team_inv s \<Longrightarrow> team_inv (team_step i s)"
  unfolding team_inv_def using in_phase_step by blast

interpretation barrier: interleaving team_step team_ok team_inv
  by unfold_locales (fact team_inv_init, fact team_inv_step)

lemma team_inv_arrivals:
  assumes "team_inv s" "t \<in> set (tm_threads s)" "u \<in> set (tm_threads s)"
  shows "snd t \<le> arrivals u"
proof -
  obtain p where p: "in_phase p s" using assms(1) by (auto simp: team_inv_def)
  have "snd t \<le> p" if "thread_ok p t" for t
    using that by (cases t, cases "fst t") auto
  moreover have "p \<le> arrivals u" if "thread_ok p u" for u
    using that by (cases u, cases "fst u") (auto simp: arrivals_def)
  ultimately show ?thesis
    using p assms(2,3) by (meson in_phase_def le_trans)
qed

text \<open>
  The work left in the calls of \<open>bomp_barrier_wait\<close> under way. Every step of a thread inside
  the barrier reduces it, except a turn of the waiting loop that finds the cycle unchanged.
\<close>

definition wait_work :: "barrier_pc \<times> nat \<Rightarrow> nat" where
  "wait_work t = (case fst t of B_out \<Rightarrow> 0 | B_spin c \<Rightarrow> 1 | B_store v \<Rightarrow> 2 | B_load \<Rightarrow> 3
     | B_reset \<Rightarrow> 4 | B_add c \<Rightarrow> 5)"

definition team_work :: "team \<Rightarrow> nat" where
  "team_work s = sum_list (map wait_work (tm_threads s))"

definition can_move :: "bomp_barrier \<Rightarrow> barrier_pc \<times> nat \<Rightarrow> bool" where
  "can_move b t \<longleftrightarrow> inside t \<and> (\<forall>c. fst t = B_spin c \<longrightarrow> c \<noteq> bar_cycle b)"

lemma sum_list_update_nat:
  "i < length xs \<Longrightarrow> sum_list (xs[i := y]) + xs ! i = sum_list xs + (y::nat)"
  by (simp add: sum_list_update) (metis add.commute le_add_diff_inverse2 elem_le_sum_list trans_le_add2)

lemma can_move_work:
  assumes "i < length (tm_threads s)" "can_move (tm_barrier s) (tm_threads s ! i)"
  shows "team_work (team_step i s) < team_work s"
proof -
  obtain pc d where t: "tm_threads s ! i = (pc, d)" by fastforce
  define t' where "t' = tm_threads (team_step i s) ! i"
  have ts: "tm_threads (team_step i s) = (tm_threads s)[i := t']"
    using assms by (auto simp: t'_def team_step_def Let_def case_prod_beta)
  have "wait_work t' < wait_work (pc, d)"
    using assms t unfolding t'_def
    by (cases pc) (auto simp: team_step_def wait_work_def can_move_def inside_def)
  then show ?thesis
    using sum_list_update_nat [of i "map wait_work (tm_threads s)" "wait_work t'"] assms(1) t
    by (simp add: team_work_def ts map_update)
qed

lemma team_inv_can_move:
  assumes inv: "team_inv s" and all: "\<forall>t\<in>set (tm_threads s). inside t"
  shows "\<exists>t\<in>set (tm_threads s). can_move (tm_barrier s) t"
proof (rule ccontr)
  assume "\<not> ?thesis"
  with all have stuck: "\<exists>c. fst t = B_spin c \<and> c = bar_cycle (tm_barrier s)"
    if "t \<in> set (tm_threads s)" for t
    using that by (auto simp: can_move_def)
  obtain p where p: "in_phase p s" using inv by (auto simp: team_inv_def)
  have "arrived p t \<and> \<not> leader t" if "t \<in> set (tm_threads s)" for t
  proof -
    have "thread_ok p t" "bar_cycle (tm_barrier s) = parity p"
      using p that by (auto simp: in_phase_def Let_def)
    with stuck [OF that] show ?thesis
      by (cases t) (auto simp: arrived_def arrivals_def leader_def)
  qed
  then have "cnt (arrived p) (tm_threads s) = length (tm_threads s)" "cnt leader (tm_threads s) = 0"
    by (auto simp: cnt_all cnt_none)
  then show False using p by (auto simp: in_phase_def Let_def)
qed

end
