(* ===== verification/Bomp_Pool.thy ===== *)
theory Bomp_Pool
  imports Bomp_Sync "HOL-Library.Multiset"
begin

text \<open>
  The thread pool of the OpenMP runtime, \<open>lib/libbomp/popcorn_threadpool.c\<close>. The first part
  is the pool as data: a ring buffer of tasks guarded by a mutex, with the operations that
  create it, add a task, take one and take the pool down; return codes of the \<open>pthread\<close> and
  allocation calls are arguments. The ring buffer implements a bounded first-in-first-out
  queue. The second part is the pool at work: a step relation in which the master adds tasks
  and destroys the pool while the workers take tasks, run them and leave. Every task that
  was accepted is run exactly once before \<open>threadpool_destroy\<close> returns, and it does return.
\<close>

section \<open>The pool\<close>

record ('f, 'a) threadpool_task =
  task_fn :: 'f
  task_args :: 'a

text \<open>
  A slot of the queue is \<open>None\<close> until it is first written (\<open>malloc\<close> leaves it undefined);
  \<open>tp_threads\<close> is the array of thread handles, with a flag for every entry that has been
  written by \<open>pthread_create\<close>; \<open>tp_locked\<close> says that the thread executing the operation
  holds the mutex.
\<close>

record ('f, 'a) threadpool =
  tp_threads :: "bool list"
  tp_queue :: "('f, 'a) threadpool_task option list"
  tp_thread_count :: int
  tp_queue_size :: int
  tp_head :: int
  tp_tail :: int
  tp_count :: int
  tp_shutdown :: int
  tp_started :: int
  tp_global_barrier :: bomp_barrier
  tp_locked :: bool

definition threadpool_invalid :: int where "threadpool_invalid = - 1"
definition threadpool_lock_failure :: int where "threadpool_lock_failure = - 2"
definition threadpool_queue_full :: int where "threadpool_queue_full = - 3"
definition threadpool_thread_failure :: int where "threadpool_thread_failure = - 4"
definition threadpool_shutdown :: int where "threadpool_shutdown = - 5"
definition graceful_shutdown :: int where "graceful_shutdown = 1"

lemmas threadpool_codes = threadpool_invalid_def threadpool_lock_failure_def
  threadpool_queue_full_def threadpool_thread_failure_def threadpool_shutdown_def
  graceful_shutdown_def

text \<open>The return codes of the calls an operation makes; \<open>0\<close> is success.\<close>

record pthread_env =
  mutex_lock_rc :: int
  mutex_unlock_rc :: int
  cond_broadcast_rc :: int
  mutex_init_rc :: int
  cond_init_rc :: int

definition pthread_ok :: pthread_env where
  "pthread_ok = \<lparr>mutex_lock_rc = 0, mutex_unlock_rc = 0, cond_broadcast_rc = 0,
     mutex_init_rc = 0, cond_init_rc = 0\<rparr>"

section \<open>Adding and taking tasks\<close>

definition queue_put :: "('f, 'a) threadpool \<Rightarrow> ('f, 'a) threadpool_task \<Rightarrow> ('f, 'a) threadpool" where
  "queue_put p t = p\<lparr>tp_queue := (tp_queue p)[nat (tp_tail p) := Some t],
     tp_count := tp_count p + 1, tp_tail := (tp_tail p + 1) mod tp_queue_size p\<rparr>"

definition threadpool_add ::
    "pthread_env \<Rightarrow> ('f, 'a) threadpool option \<Rightarrow> 'f option \<Rightarrow> 'a \<Rightarrow> int \<times> ('f, 'a) threadpool option" where
  "threadpool_add env pool fn args =
     (case (pool, fn) of
        (Some p, Some f) \<Rightarrow>
          (if mutex_lock_rc env \<noteq> 0 then (threadpool_lock_failure, pool)
           else
             (let (result, p') =
                (if tp_count p = tp_queue_size p then (threadpool_queue_full, p)
                 else if tp_shutdown p \<noteq> 0 then (threadpool_shutdown, p)
                 else (if cond_broadcast_rc env \<noteq> 0 then threadpool_lock_failure else 0,
                       queue_put p \<lparr>task_fn = f, task_args = args\<rparr>))
              in (if mutex_unlock_rc env \<noteq> 0 then threadpool_lock_failure else result, Some p')))
      | _ \<Rightarrow> (threadpool_invalid, pool))"

text \<open>
  One passage of \<open>threadpool_run\<close> through its critical section: the worker goes (back) to
  sleep on the condition variable, leaves the loop, or takes the task at the head.
\<close>

datatype 't run_action = Sleep | Leave | Take 't

definition threadpool_run ::
    "('f, 'a) threadpool \<Rightarrow> (('f, 'a) threadpool_task option run_action \<times> ('f, 'a) threadpool)" where
  "threadpool_run p =
     (if tp_count p = 0 \<and> tp_shutdown p = 0 then (Sleep, p)
      else if tp_shutdown p = graceful_shutdown \<and> tp_count p = 0 then
        (Leave, p\<lparr>tp_started := tp_started p - 1\<rparr>)
      else (Take (tp_queue p ! nat (tp_head p)),
            p\<lparr>tp_head := (tp_head p + 1) mod tp_queue_size p, tp_count := tp_count p - 1\<rparr>))"

definition threadpool_getNumThreads :: "('f, 'a) threadpool \<Rightarrow> int" where
  "threadpool_getNumThreads p = tp_thread_count p"

section \<open>Taking the pool down\<close>

text \<open>
  \<open>threadpool_free\<close> locks the mutex before it destroys it: \<open>None\<close> says that the call never
  returns because the caller already holds the lock. The flag is whether the pool is freed.
\<close>

definition threadpool_free :: "('f, 'a) threadpool option \<Rightarrow> (int \<times> bool) option" where
  "threadpool_free pool =
     (case pool of
        None \<Rightarrow> Some (- 1, False)
      | Some p \<Rightarrow>
          (if tp_started p > 0 then Some (- 1, False)
           else if tp_threads p \<noteq> [] \<and> tp_locked p then None
           else Some (0, True)))"

text \<open>
  \<open>threadpool_destroy\<close> up to the first join: the new pool and the result so far, or the final
  return code. A pool that is already shutting down skips the joins with the mutex still held.
\<close>

datatype ('f, 'a) destroy_begin =
    Destroy_return int
  | Destroy_join int "('f, 'a) threadpool"
  | Destroy_skip "('f, 'a) threadpool"

definition threadpool_destroy_begin ::
    "pthread_env \<Rightarrow> ('f, 'a) threadpool option \<Rightarrow> ('f, 'a) destroy_begin" where
  "threadpool_destroy_begin env pool =
     (case pool of
        None \<Rightarrow> Destroy_return threadpool_invalid
      | Some p \<Rightarrow>
          (if mutex_lock_rc env \<noteq> 0 then Destroy_return threadpool_lock_failure
           else if tp_shutdown p \<noteq> 0 then Destroy_skip (p\<lparr>tp_locked := True\<rparr>)
           else
             (let unlocked = (cond_broadcast_rc env = 0 \<and> mutex_unlock_rc env = 0) in
              Destroy_join (if unlocked then 0 else threadpool_lock_failure)
                (p\<lparr>tp_shutdown := 1, tp_locked := \<not> unlocked\<rparr>))))"

text \<open>
  The join loop reads \<open>threads[i]\<close> for every \<open>i\<close> below \<open>thread_count\<close>; \<open>join_rc i\<close> is what
  \<open>pthread_join\<close> returns for it.
\<close>

fun join_workers :: "(nat \<Rightarrow> int) \<Rightarrow> bool list \<Rightarrow> nat \<Rightarrow> nat \<Rightarrow> int \<Rightarrow> int res" where
  "join_workers join_rc threads i 0 result = Inr result"
| "join_workers join_rc threads i (Suc k) result =
     bindE (array_get threads i) (\<lambda>written.
       if \<not> written then Inl (UB Uninitialised)
       else join_workers join_rc threads (i + 1) k
              (if join_rc i \<noteq> 0 then threadpool_thread_failure else result))"

text \<open>The rest of \<open>threadpool_destroy\<close>, on the pool as the workers left it.\<close>

definition threadpool_destroy_end ::
    "(nat \<Rightarrow> int) \<Rightarrow> int \<Rightarrow> bool \<Rightarrow> ('f, 'a) threadpool \<Rightarrow> (int \<times> bool) option res" where
  "threadpool_destroy_end join_rc result joins p =
     bindE (if joins then join_workers join_rc (tp_threads p) 0 (nat (tp_thread_count p)) result
            else Inr result) (\<lambda>result.
     let p = p\<lparr>tp_thread_count := 0\<rparr> in
     Inr (if result = 0
          then map_option (\<lambda>(_, freed). (result, freed)) (threadpool_free (Some p))
          else Some (result, False)))"

section \<open>Creating the pool\<close>

text \<open>
  What the allocations and the creation of each worker return. The result is the pool and the
  new value of \<open>bomp_num_threads\<close>; when a worker cannot be created the pool built so far is
  handed to \<open>threadpool_destroy\<close> and the caller gets the null pointer.
\<close>

record create_env =
  pool_alloc :: bool
  threads_alloc :: bool
  queue_alloc :: bool
  create_pthread :: pthread_env
  create_worker_rc :: "nat \<Rightarrow> int"

definition create_ok :: create_env where
  "create_ok = \<lparr>pool_alloc = True, threads_alloc = True, queue_alloc = True,
     create_pthread = pthread_ok, create_worker_rc = (\<lambda>_. 0)\<rparr>"

definition threadpool_new :: "int \<Rightarrow> int \<Rightarrow> ('f, 'a) threadpool" where
  "threadpool_new num_threads queue_size =
     \<lparr>tp_threads = replicate (nat num_threads) False, tp_queue = replicate (nat queue_size) None,
      tp_thread_count = 0, tp_queue_size = queue_size, tp_head = 0, tp_tail = 0, tp_count = 0,
      tp_shutdown = 0, tp_started = 0, tp_global_barrier = bomp_barrier_init num_threads,
      tp_locked = False\<rparr>"

text \<open>The creation loop, for \<open>k\<close> workers from handle \<open>i\<close> on; \<open>None\<close> when one cannot be created.\<close>

fun start_workers ::
    "(nat \<Rightarrow> int) \<Rightarrow> nat \<Rightarrow> nat \<Rightarrow> ('f, 'a) threadpool \<Rightarrow> ('f, 'a) threadpool option" where
  "start_workers rc i 0 p = Some p"
| "start_workers rc i (Suc k) p =
     (if rc i \<noteq> 0 then None
      else start_workers rc (i + 1) k
             (p\<lparr>tp_threads := (tp_threads p)[i := True],
                tp_thread_count := tp_thread_count p + 1, tp_started := tp_started p + 1\<rparr>))"

definition threadpool_create ::
    "create_env \<Rightarrow> u32 \<Rightarrow> int \<Rightarrow> int \<Rightarrow> ('f, 'a) threadpool option \<times> u32" where
  "threadpool_create env bomp_num_threads num_threads queue_size =
     (if num_threads \<le> 0 \<or> queue_size \<le> 0 then (None, bomp_num_threads)
      else
        (let bomp_num_threads = of_int (num_threads + 1) in
         if \<not> pool_alloc env \<or> mutex_init_rc (create_pthread env) \<noteq> 0 \<or>
            cond_init_rc (create_pthread env) \<noteq> 0 \<or> \<not> threads_alloc env \<or> \<not> queue_alloc env
         then (None, bomp_num_threads)
         else (start_workers (create_worker_rc env) 0 (nat num_threads)
                 (threadpool_new num_threads queue_size), bomp_num_threads)))"

section \<open>A bounded first-in-first-out queue\<close>

text \<open>
  What the pool promises of its queue. A client that records what it put and what it got
  finds the items got, in order, followed by the items still queued.
\<close>

locale bounded_queue =
  fixes wf :: "'q \<Rightarrow> bool" and room :: "'q \<Rightarrow> bool" and items :: "'q \<Rightarrow> 'x list"
    and put :: "'q \<Rightarrow> 'x \<Rightarrow> 'q" and get :: "'q \<Rightarrow> 'x option \<times> 'q"
  assumes put_ok: "wf q \<Longrightarrow> room q \<Longrightarrow> wf (put q x) \<and> items (put q x) = items q @ [x]"
    and get_ok: "wf q \<Longrightarrow> items q \<noteq> [] \<Longrightarrow>
      wf (snd (get q)) \<and> (\<exists>x. fst (get q) = Some x \<and> items q = x # items (snd (get q)))"
    and get_room: "wf q \<Longrightarrow> items q \<noteq> [] \<Longrightarrow> room (snd (get q))"
begin

definition fifo :: "'x list \<Rightarrow> 'x list \<Rightarrow> 'q \<Rightarrow> bool" where
  "fifo added taken q \<longleftrightarrow> wf q \<and> added = taken @ items q"

lemma fifo_put: "fifo added taken q \<Longrightarrow> room q \<Longrightarrow> fifo (added @ [x]) taken (put q x)"
  using put_ok by (simp add: fifo_def)

lemma fifo_get:
  "fifo added taken q \<Longrightarrow> items q \<noteq> [] \<Longrightarrow>
   \<exists>x. fst (get q) = Some x \<and> fifo added (taken @ [x]) (snd (get q))"
  using get_ok [of q] by (auto simp: fifo_def)

lemma fifo_prefix: "fifo added taken q \<Longrightarrow> taken = take (length taken) added"
  by (simp add: fifo_def)

end

section \<open>The ring buffer is such a queue\<close>

definition ring_slot :: "('f, 'a) threadpool \<Rightarrow> nat \<Rightarrow> nat" where
  "ring_slot p k = nat ((tp_head p + int k) mod tp_queue_size p)"

definition ring_items :: "('f, 'a) threadpool \<Rightarrow> ('f, 'a) threadpool_task list" where
  "ring_items p = map (\<lambda>k. the (tp_queue p ! ring_slot p k)) [0..<nat (tp_count p)]"

definition ring_wf :: "('f, 'a) threadpool \<Rightarrow> bool" where
  "ring_wf p \<longleftrightarrow> 0 < tp_queue_size p \<and> length (tp_queue p) = nat (tp_queue_size p) \<and>
     0 \<le> tp_head p \<and> tp_head p < tp_queue_size p \<and> 0 \<le> tp_count p \<and> tp_count p \<le> tp_queue_size p \<and>
     tp_tail p = (tp_head p + tp_count p) mod tp_queue_size p \<and>
     (\<forall>k<nat (tp_count p). tp_queue p ! ring_slot p k \<noteq> None)"

definition ring_room :: "('f, 'a) threadpool \<Rightarrow> bool" where
  "ring_room p \<longleftrightarrow> tp_count p \<noteq> tp_queue_size p"

definition queue_get ::
    "('f, 'a) threadpool \<Rightarrow> ('f, 'a) threadpool_task option \<times> ('f, 'a) threadpool" where
  "queue_get p = (tp_queue p ! nat (tp_head p),
     p\<lparr>tp_head := (tp_head p + 1) mod tp_queue_size p, tp_count := tp_count p - 1\<rparr>)"

lemma ring_slot_less: "ring_wf p \<Longrightarrow> ring_slot p k < length (tp_queue p)"
  by (auto simp: ring_wf_def ring_slot_def nat_less_iff)

lemma ring_slot_distinct:
  assumes "ring_wf p" "k < l" "l < nat (tp_queue_size p)"
  shows "ring_slot p k \<noteq> ring_slot p l"
proof
  assume "ring_slot p k = ring_slot p l"
  then have "(tp_head p + int k) mod tp_queue_size p = (tp_head p + int l) mod tp_queue_size p"
    using assms(1) by (simp add: ring_slot_def ring_wf_def eq_nat_nat_iff)
  then have "tp_queue_size p dvd int l - int k"
    by (metis add_diff_cancel_left mod_eq_dvd_iff)
  with assms show False by (auto dest!: zdvd_imp_le)
qed

lemma ring_put:
  assumes wf: "ring_wf p" and room: "ring_room p"
  shows "ring_wf (queue_put p t) \<and> ring_items (queue_put p t) = ring_items p @ [t]"
proof -
  let ?n = "nat (tp_count p)"
  have n: "?n < nat (tp_queue_size p)" "int ?n = tp_count p"
    using wf room by (auto simp: ring_wf_def ring_room_def)
  have tail: "nat (tp_tail p) = ring_slot p ?n"
    using wf n by (simp add: ring_wf_def ring_slot_def)
  have slot: "ring_slot (queue_put p t) k = ring_slot p k" for k
    by (simp add: ring_slot_def queue_put_def)
  have old: "tp_queue (queue_put p t) ! ring_slot p k = tp_queue p ! ring_slot p k" if "k < ?n" for k
    using ring_slot_distinct [OF wf that n(1)] by (simp add: queue_put_def tail)
  have new: "tp_queue (queue_put p t) ! ring_slot p ?n = Some t"
    using ring_slot_less [OF wf] by (simp add: queue_put_def tail)
  have cnt: "nat (tp_count (queue_put p t)) = Suc ?n"
    using wf by (simp add: queue_put_def ring_wf_def nat_add_distrib)
  have "\<forall>k<Suc ?n. tp_queue (queue_put p t) ! ring_slot (queue_put p t) k \<noteq> None"
    using wf old new by (auto simp: slot less_Suc_eq ring_wf_def)
  moreover have "tp_tail (queue_put p t) =
      (tp_head (queue_put p t) + tp_count (queue_put p t)) mod tp_queue_size (queue_put p t)"
    using wf by (simp add: queue_put_def ring_wf_def mod_simps ac_simps)
  ultimately have "ring_wf (queue_put p t)"
    using wf room cnt by (simp add: ring_wf_def ring_room_def) (simp add: queue_put_def)
  moreover have "ring_items (queue_put p t) = ring_items p @ [t]"
    unfolding ring_items_def cnt by (simp add: slot old new)
  ultimately show ?thesis by simp
qed

lemma ring_get:
  assumes wf: "ring_wf p" and ne: "ring_items p \<noteq> []"
  shows "ring_wf (snd (queue_get p)) \<and>
    (\<exists>t. fst (queue_get p) = Some t \<and> ring_items p = t # ring_items (snd (queue_get p)))"
proof -
  let ?p = "snd (queue_get p)"
  obtain n where n: "nat (tp_count p) = Suc n"
    using ne by (cases "nat (tp_count p)") (auto simp: ring_items_def)
  have cnt: "nat (tp_count ?p) = n" "0 < tp_count p"
    using n by (auto simp: queue_get_def)
  have slot: "ring_slot ?p k = ring_slot p (Suc k)" for k
    by (simp add: ring_slot_def queue_get_def mod_simps ac_simps)
  have head: "nat (tp_head p) = ring_slot p 0" using wf by (simp add: ring_slot_def ring_wf_def)
  have some: "\<forall>k<Suc n. tp_queue p ! ring_slot p k \<noteq> None"
    using wf n by (simp add: ring_wf_def)
  have q: "tp_queue ?p = tp_queue p" by (simp add: queue_get_def)
  have "tp_tail ?p = (tp_head ?p + tp_count ?p) mod tp_queue_size ?p"
    using wf by (simp add: queue_get_def ring_wf_def mod_simps)
  moreover have "\<forall>k<nat (tp_count ?p). tp_queue ?p ! ring_slot ?p k \<noteq> None"
    using some by (simp add: cnt slot q)
  ultimately have "ring_wf ?p"
    using wf cnt(2) by (simp add: ring_wf_def) (simp add: queue_get_def)
  moreover have "ring_items p = the (tp_queue p ! ring_slot p 0) # ring_items ?p"
    unfolding ring_items_def n cnt(1) slot q
    by (simp add: upt_conv_Cons map_Suc_upt [symmetric] del: upt_Suc)
  ultimately show ?thesis
    using some by (auto simp: queue_get_def head)
qed

lemma ring_get_room: "ring_wf p \<Longrightarrow> ring_items p \<noteq> [] \<Longrightarrow> ring_room (snd (queue_get p))"
  by (auto simp: ring_room_def queue_get_def ring_wf_def)

interpretation pool_queue: bounded_queue ring_wf ring_room ring_items queue_put queue_get
  by unfold_locales (fact ring_put, fact ring_get, fact ring_get_room)

section \<open>The pool at work\<close>

text \<open>
  A worker is between two tasks (polling, asleep on the condition variable or waiting for the
  mutex), runs a task, or has left. The master adds tasks and at some point calls
  \<open>threadpool_destroy\<close>; its state says how far that call has come. The three lists record the
  tasks accepted, taken and finished. The \<open>pthread\<close> calls succeed, and a task that is run
  comes to an end.
\<close>

datatype 't worker = W_idle | W_busy 't | W_dead

datatype master = M_running | M_joining int | M_returned int bool

record ('f, 'a) system =
  sy_pool :: "('f, 'a) threadpool"
  sy_workers :: "('f, 'a) threadpool_task worker list"
  sy_master :: master
  sy_added :: "('f, 'a) threadpool_task list"
  sy_taken :: "('f, 'a) threadpool_task list"
  sy_finished :: "('f, 'a) threadpool_task list"

inductive pool_step :: "('f, 'a) system \<Rightarrow> ('f, 'a) system \<Rightarrow> bool" where
  step_add: "sy_master s = M_running \<Longrightarrow>
    threadpool_add pthread_ok (Some (sy_pool s)) (Some f) a = (0, Some p) \<Longrightarrow>
    pool_step s (s\<lparr>sy_pool := p, sy_added := sy_added s @ [\<lparr>task_fn = f, task_args = a\<rparr>]\<rparr>)"
| step_refuse: "sy_master s = M_running \<Longrightarrow>
    threadpool_add pthread_ok (Some (sy_pool s)) (Some f) a = (r, Some p) \<Longrightarrow> r \<noteq> 0 \<Longrightarrow>
    pool_step s (s\<lparr>sy_pool := p\<rparr>)"
| step_take: "i < length (sy_workers s) \<Longrightarrow> sy_workers s ! i = W_idle \<Longrightarrow>
    threadpool_run (sy_pool s) = (Take (Some t), p) \<Longrightarrow>
    pool_step s (s\<lparr>sy_pool := p, sy_workers := (sy_workers s)[i := W_busy t],
      sy_taken := sy_taken s @ [t]\<rparr>)"
| step_finish: "i < length (sy_workers s) \<Longrightarrow> sy_workers s ! i = W_busy t \<Longrightarrow>
    pool_step s (s\<lparr>sy_workers := (sy_workers s)[i := W_idle], sy_finished := sy_finished s @ [t]\<rparr>)"
| step_leave: "i < length (sy_workers s) \<Longrightarrow> sy_workers s ! i = W_idle \<Longrightarrow>
    threadpool_run (sy_pool s) = (Leave, p) \<Longrightarrow>
    pool_step s (s\<lparr>sy_pool := p, sy_workers := (sy_workers s)[i := W_dead]\<rparr>)"
| step_destroy: "sy_master s = M_running \<Longrightarrow>
    threadpool_destroy_begin pthread_ok (Some (sy_pool s)) = Destroy_join r p \<Longrightarrow>
    pool_step s (s\<lparr>sy_pool := p, sy_master := M_joining r\<rparr>)"
| step_return: "sy_master s = M_joining r \<Longrightarrow> \<forall>w\<in>set (sy_workers s). w = W_dead \<Longrightarrow>
    threadpool_destroy_end (\<lambda>_. 0) r True (sy_pool s) = Inr (Some (rc, freed)) \<Longrightarrow>
    pool_step s (s\<lparr>sy_master := M_returned rc freed\<rparr>)"

inductive_cases pool_stepE: "pool_step s s'"

definition pool_start :: "('f, 'a) threadpool \<Rightarrow> ('f, 'a) system" where
  "pool_start p = \<lparr>sy_pool = p, sy_workers = replicate (nat (tp_thread_count p)) W_idle,
     sy_master = M_running, sy_added = [], sy_taken = [], sy_finished = []\<rparr>"

inductive pool_reachable :: "('f, 'a) threadpool \<Rightarrow> ('f, 'a) system \<Rightarrow> bool" for p where
  reach_start: "pool_reachable p (pool_start p)"
| reach_step: "pool_reachable p s \<Longrightarrow> pool_step s s' \<Longrightarrow> pool_reachable p s'"

section \<open>What creation gives\<close>

lemma start_workers_ok:
  assumes "\<And>i. rc i = 0" "i + k \<le> length (tp_threads p)" "\<forall>j<i. tp_threads p ! j"
  shows "\<exists>q. start_workers rc i k p = Some q \<and> length (tp_threads q) = length (tp_threads p) \<and>
    (\<forall>j<i + k. tp_threads q ! j) \<and> tp_thread_count q = tp_thread_count p + int k \<and>
    tp_started q = tp_started p + int k \<and> tp_queue q = tp_queue p \<and> tp_queue_size q = tp_queue_size p \<and>
    tp_head q = tp_head p \<and> tp_tail q = tp_tail p \<and> tp_count q = tp_count p \<and>
    tp_shutdown q = tp_shutdown p \<and> tp_locked q = tp_locked p \<and>
    tp_global_barrier q = tp_global_barrier p"
  using assms
proof (induction k arbitrary: i p)
  case (Suc k)
  let ?p = "p\<lparr>tp_threads := (tp_threads p)[i := True],
    tp_thread_count := tp_thread_count p + 1, tp_started := tp_started p + 1\<rparr>"
  have "\<forall>j<i + 1. tp_threads ?p ! j" using Suc.prems by (auto simp: nth_list_update less_Suc_eq)
  with Suc.IH [of "i + 1" ?p] Suc.prems show ?case by (auto simp: algebra_simps)
qed simp

definition fresh_pool :: "nat \<Rightarrow> int \<Rightarrow> ('f, 'a) threadpool \<Rightarrow> bool" where
  "fresh_pool n q p \<longleftrightarrow> ring_wf p \<and> tp_queue_size p = q \<and> tp_count p = 0 \<and> tp_shutdown p = 0 \<and>
     tp_started p = int n \<and> tp_thread_count p = int n \<and> tp_threads p = replicate n True \<and>
     \<not> tp_locked p \<and> tp_global_barrier p = bomp_barrier_init (int n)"

lemma threadpool_create_fresh:
  assumes "0 < n" "0 < q"
  shows "\<exists>p. threadpool_create create_ok b (int n) q = (Some p, of_nat n + 1) \<and> fresh_pool n q p"
proof -
  obtain p :: "('a, 'b) threadpool" where
    p: "start_workers (\<lambda>_. 0) 0 n (threadpool_new (int n) q) = Some p"
      "length (tp_threads p) = n" "\<forall>j<n. tp_threads p ! j" "tp_thread_count p = int n"
      "tp_started p = int n" "tp_queue p = replicate (nat q) None" "tp_queue_size p = q"
      "tp_head p = 0" "tp_tail p = 0" "tp_count p = 0" "tp_shutdown p = 0" "\<not> tp_locked p"
      "tp_global_barrier p = bomp_barrier_init (int n)"
    using start_workers_ok [of "\<lambda>_. 0" 0 n "threadpool_new (int n) q"]
    by (auto simp: threadpool_new_def)
  have "tp_threads p = replicate n True" using p(2,3) by (intro nth_equalityI) auto
  then have "fresh_pool n q p" using p assms by (simp add: fresh_pool_def ring_wf_def)
  then show ?thesis
    using p(1) assms by (auto simp: threadpool_create_def create_ok_def pthread_ok_def)
qed

lemma threadpool_create_freshD:
  fixes p :: "('f, 'a) threadpool"
  assumes "threadpool_create create_ok b (int n) q = (Some p, m)" "0 < n" "0 < q"
  shows "fresh_pool n q p"
proof -
  obtain p' :: "('f, 'a) threadpool" where
    "threadpool_create create_ok b (int n) q = (Some p', of_nat n + 1)" "fresh_pool n q p'"
    using threadpool_create_fresh [OF assms(2,3), of b] by auto
  with assms(1) show ?thesis by simp
qed

section \<open>Invariant of the pool at work\<close>

fun task_of :: "'t worker \<Rightarrow> 't multiset" where
  "task_of (W_busy t) = {#t#}"
| "task_of _ = {#}"

definition running :: "'t worker list \<Rightarrow> 't multiset" where
  "running ws = sum_list (map task_of ws)"

lemma running_update:
  "i < length ws \<Longrightarrow> running (ws[i := w]) + task_of (ws ! i) = running ws + task_of w"
proof -
  assume i: "i < length ws"
  have "running ws = running (take i ws @ ws ! i # drop (Suc i) ws)"
    using id_take_nth_drop [OF i] by simp
  then show ?thesis by (simp add: upd_conv_take_nth_drop [OF i] running_def)
qed

lemma running_none: "\<forall>w\<in>set ws. task_of w = {#} \<Longrightarrow> running ws = {#}"
  unfolding running_def by (induction ws) auto

definition alive :: "'t worker \<Rightarrow> bool" where
  "alive w \<longleftrightarrow> w \<noteq> W_dead"

definition system_inv :: "nat \<Rightarrow> ('f, 'a) system \<Rightarrow> bool" where
  "system_inv n s \<longleftrightarrow>
     (let p = sy_pool s; ws = sy_workers s in
      pool_queue.fifo (sy_added s) (sy_taken s) p \<and>
      mset (sy_taken s) = mset (sy_finished s) + running ws \<and>
      0 < n \<and> length ws = n \<and> tp_threads p = replicate n True \<and> \<not> tp_locked p \<and>
      tp_thread_count p = int n \<and> tp_started p = int (cnt alive ws) \<and>
      tp_shutdown p = (if sy_master s = M_running then 0 else 1) \<and>
      ((\<exists>w\<in>set ws. w = W_dead) \<longrightarrow> tp_shutdown p = 1 \<and> tp_count p = 0) \<and>
      (\<forall>r. sy_master s = M_joining r \<longrightarrow> r = 0) \<and>
      (\<forall>rc freed. sy_master s = M_returned rc freed \<longrightarrow>
         (\<forall>w\<in>set ws. w = W_dead) \<and> rc = 0 \<and> freed))"

lemma system_inv_start:
  assumes "fresh_pool n q p" "0 < n"
  shows "system_inv n (pool_start p)"
  using assms
  by (auto simp: system_inv_def pool_start_def fresh_pool_def pool_queue.fifo_def ring_items_def
    cnt_replicate alive_def running_none)

text \<open>The branches of the operations as they occur in a step.\<close>

lemma threadpool_add_0:
  "threadpool_add pthread_ok (Some p) (Some f) a = (0, Some q) \<longleftrightarrow>
   tp_count p \<noteq> tp_queue_size p \<and> tp_shutdown p = 0 \<and> q = queue_put p \<lparr>task_fn = f, task_args = a\<rparr>"
  by (auto simp: threadpool_add_def pthread_ok_def threadpool_codes)

lemma threadpool_add_refused:
  "threadpool_add pthread_ok (Some p) (Some f) a = (r, Some q) \<Longrightarrow> r \<noteq> 0 \<Longrightarrow> q = p"
  by (auto simp: threadpool_add_def pthread_ok_def threadpool_codes split: if_splits)

lemma threadpool_run_Take:
  "threadpool_run p = (Take t, q) \<longleftrightarrow>
   \<not> (tp_count p = 0 \<and> (tp_shutdown p = 0 \<or> tp_shutdown p = 1)) \<and> queue_get p = (t, q)"
  by (auto simp: threadpool_run_def queue_get_def threadpool_codes)

lemma threadpool_run_Leave:
  "threadpool_run p = (Leave, q) \<longleftrightarrow>
   tp_count p = 0 \<and> tp_shutdown p = 1 \<and> q = p\<lparr>tp_started := tp_started p - 1\<rparr>"
  by (auto simp: threadpool_run_def threadpool_codes)

lemma queue_op_fields [simp]:
  "tp_threads (queue_put p t) = tp_threads p" "tp_locked (queue_put p t) = tp_locked p"
  "tp_thread_count (queue_put p t) = tp_thread_count p" "tp_started (queue_put p t) = tp_started p"
  "tp_shutdown (queue_put p t) = tp_shutdown p"
  by (simp_all add: queue_put_def)

lemma queue_get_fields:
  "queue_get q = (t, p) \<Longrightarrow>
   tp_threads p = tp_threads q \<and> tp_locked p = tp_locked q \<and> tp_thread_count p = tp_thread_count q \<and>
   tp_started p = tp_started q \<and> tp_shutdown p = tp_shutdown q"
  by (auto simp: queue_get_def)

lemma ring_items_length: "ring_wf p \<Longrightarrow> int (length (ring_items p)) = tp_count p"
  by (simp add: ring_items_def ring_wf_def)

lemma fifo_cong:
  assumes "tp_queue q = tp_queue p" "tp_queue_size q = tp_queue_size p" "tp_head q = tp_head p"
    "tp_tail q = tp_tail p" "tp_count q = tp_count p"
  shows "pool_queue.fifo added taken q \<longleftrightarrow> pool_queue.fifo added taken p"
  using assms by (simp add: pool_queue.fifo_def ring_wf_def ring_items_def ring_slot_def)

lemma join_workers_ok:
  "i + k \<le> n \<Longrightarrow> join_workers (\<lambda>_. 0) (replicate n True) i k r = Inr r"
  by (induction k arbitrary: i) auto

lemma destroy_end_ok:
  assumes "tp_threads p = replicate n True" "tp_thread_count p = int n"
  shows "threadpool_destroy_end (\<lambda>_. 0) 0 True p =
    Inr (map_option (\<lambda>(_, freed). (0, freed)) (threadpool_free (Some p)))"
  using assms by (simp add: threadpool_destroy_end_def join_workers_ok threadpool_free_def)

lemma system_inv_items:
  "system_inv n s \<Longrightarrow> tp_count (sy_pool s) \<noteq> 0 \<Longrightarrow> ring_items (sy_pool s) \<noteq> []"
  using ring_items_length [of "sy_pool s"]
  by (auto simp: system_inv_def Let_def pool_queue.fifo_def)

lemma system_inv_take:
  assumes inv: "system_inv n s" and i: "i < length (sy_workers s)" "sy_workers s ! i = W_idle"
  assumes r: "threadpool_run (sy_pool s) = (Take (Some t), p)"
  shows "system_inv n (s\<lparr>sy_pool := p, sy_workers := (sy_workers s)[i := W_busy t],
    sy_taken := sy_taken s @ [t]\<rparr>)"
proof -
  have c: "queue_get (sy_pool s) = (Some t, p)" "tp_count (sy_pool s) \<noteq> 0"
    using inv r by (auto simp: threadpool_run_Take system_inv_def Let_def split: if_splits)
  note queue_get_fields [OF c(1)]
  moreover have "pool_queue.fifo (sy_added s) (sy_taken s @ [t]) p"
    using inv pool_queue.fifo_get [of "sy_added s" "sy_taken s" "sy_pool s"] c
      system_inv_items [OF inv c(2)]
    by (auto simp: system_inv_def Let_def)
  moreover have "running ((sy_workers s)[i := W_busy t]) = running (sy_workers s) + {#t#}"
    using running_update [OF i(1), of "W_busy t"] i by simp
  moreover have "cnt alive ((sy_workers s)[i := W_busy t]) = cnt alive (sy_workers s)"
    using cnt_update [OF i(1), of alive "W_busy t"] i by (simp add: alive_def)
  ultimately show ?thesis
    using inv c i nth_mem [OF i(1)]
    by (auto simp: system_inv_def Let_def dest!: set_update_subset_insert [THEN subsetD])
qed

lemma system_inv_finish:
  assumes inv: "system_inv n s" and i: "i < length (sy_workers s)" "sy_workers s ! i = W_busy t"
  shows "system_inv n (s\<lparr>sy_workers := (sy_workers s)[i := W_idle],
    sy_finished := sy_finished s @ [t]\<rparr>)"
proof -
  have "running (sy_workers s) = running ((sy_workers s)[i := W_idle]) + {#t#}"
    using running_update [OF i(1), of W_idle] i by simp
  moreover have "cnt alive ((sy_workers s)[i := W_idle]) = cnt alive (sy_workers s)"
    using cnt_update [OF i(1), of alive W_idle] i by (simp add: alive_def)
  ultimately show ?thesis
    using inv i nth_mem [OF i(1)]
    by (auto simp: system_inv_def Let_def dest!: set_update_subset_insert [THEN subsetD])
qed

lemma system_inv_leave:
  assumes inv: "system_inv n s" and i: "i < length (sy_workers s)" "sy_workers s ! i = W_idle"
  assumes r: "threadpool_run (sy_pool s) = (Leave, p)"
  shows "system_inv n (s\<lparr>sy_pool := p, sy_workers := (sy_workers s)[i := W_dead]\<rparr>)"
proof -
  have "tp_count (sy_pool s) = 0" "tp_shutdown (sy_pool s) = 1"
    "p = (sy_pool s)\<lparr>tp_started := tp_started (sy_pool s) - 1\<rparr>"
    using r by (auto simp: threadpool_run_Leave)
  moreover have "running ((sy_workers s)[i := W_dead]) = running (sy_workers s)"
    using running_update [OF i(1), of W_dead] i by simp
  moreover have "cnt alive (sy_workers s) = Suc (cnt alive ((sy_workers s)[i := W_dead]))"
    using cnt_update [OF i(1), of alive W_dead] i by (simp add: alive_def)
  ultimately show ?thesis
    using inv i nth_mem [OF i(1)] fifo_cong [of p "sy_pool s"]
    by (auto simp: system_inv_def Let_def dest!: set_update_subset_insert [THEN subsetD])
qed

lemma system_inv_destroy_end:
  assumes inv: "system_inv n s" and j: "sy_master s = M_joining r"
    and dead: "\<forall>w\<in>set (sy_workers s). w = W_dead"
  shows "r = 0 \<and> threadpool_destroy_end (\<lambda>_. 0) r True (sy_pool s) = Inr (Some (0, True))"
proof -
  have "r = 0" using inv j by (auto simp: system_inv_def Let_def)
  moreover have "cnt alive (sy_workers s) = 0" using dead by (simp add: cnt_none alive_def)
  ultimately show ?thesis
    using inv destroy_end_ok [of "sy_pool s" n]
    by (auto simp: system_inv_def Let_def threadpool_free_def)
qed

lemma system_inv_step:
  assumes "pool_step s s'" "system_inv n s"
  shows "system_inv n s'"
  using assms
proof (induction rule: pool_step.induct)
  case (step_add s f a p)
  then show ?case
    using pool_queue.fifo_put [of "sy_added s" "sy_taken s" "sy_pool s"]
    by (auto simp: system_inv_def Let_def threadpool_add_0 ring_room_def)
next
  case (step_refuse s f a r p)
  then show ?case using threadpool_add_refused [OF step_refuse.hyps(2)] by auto
next
  case (step_destroy s r p)
  then have "p = (sy_pool s)\<lparr>tp_shutdown := 1, tp_locked := False\<rparr>" "r = 0"
    by (auto simp: system_inv_def Let_def threadpool_destroy_begin_def pthread_ok_def)
  then show ?case
    using step_destroy.prems fifo_cong [of p "sy_pool s"] by (auto simp: system_inv_def Let_def)
next
  case (step_return s r rc freed)
  then show ?case
    using system_inv_destroy_end [OF step_return.prems step_return.hyps(1,2)]
    by (auto simp: system_inv_def Let_def)
qed (auto intro: system_inv_take system_inv_finish system_inv_leave)

lemma system_inv_reachable:
  assumes "pool_reachable p s" "fresh_pool n q p" "0 < n"
  shows "system_inv n s"
  using assms
  by (induction rule: pool_reachable.induct) (auto intro: system_inv_start system_inv_step)

lemma system_inv_returned:
  assumes "system_inv n s" "sy_master s = M_returned rc freed"
  shows "rc = 0 \<and> freed \<and> sy_taken s = sy_added s \<and> mset (sy_finished s) = mset (sy_added s)"
proof -
  have dead: "\<forall>w\<in>set (sy_workers s). w = W_dead" and "0 < n" "length (sy_workers s) = n"
    using assms by (auto simp: system_inv_def Let_def)
  then have "\<exists>w\<in>set (sy_workers s). w = W_dead" by (cases "sy_workers s") auto
  then have "tp_count (sy_pool s) = 0" using assms by (simp add: system_inv_def Let_def)
  moreover have "running (sy_workers s) = {#}" using dead by (intro running_none) auto
  ultimately show ?thesis
    using assms by (auto simp: system_inv_def Let_def pool_queue.fifo_def ring_items_def)
qed

text \<open>
  The work left until the pool is gone: three units for a queued task, two for a task under
  way and one for an idle worker, and one for the return of \<open>threadpool_destroy\<close>.
\<close>

fun worker_work :: "'t worker \<Rightarrow> nat" where
  "worker_work W_idle = 1"
| "worker_work (W_busy t) = 2"
| "worker_work W_dead = 0"

definition drain_work :: "('f, 'a) system \<Rightarrow> nat" where
  "drain_work s = 3 * nat (tp_count (sy_pool s)) + sum_list (map worker_work (sy_workers s)) +
     (case sy_master s of M_returned rc freed \<Rightarrow> 0 | _ \<Rightarrow> 1)"

lemma worker_work_update:
  "i < length ws \<Longrightarrow> sum_list (map worker_work (ws[i := w])) + worker_work (ws ! i) =
   sum_list (map worker_work ws) + worker_work w"
  using sum_list_update_nat [of i "map worker_work ws" "worker_work w"] by (simp add: map_update)

lemma drain_work_step:
  assumes "pool_step s s'" "system_inv n s" "sy_master s \<noteq> M_running"
  shows "drain_work s' < drain_work s"
  using assms
proof (induction rule: pool_step.induct)
  case (step_take i s t p)
  then have "tp_count (sy_pool s) \<noteq> 0" "tp_count p = tp_count (sy_pool s) - 1"
    by (auto simp: threadpool_run_Take system_inv_def Let_def queue_get_def split: if_splits)
  moreover have "0 \<le> tp_count (sy_pool s)"
    using step_take.prems by (auto simp: system_inv_def Let_def pool_queue.fifo_def ring_wf_def)
  ultimately show ?case
    using worker_work_update [OF step_take.hyps(1), of "W_busy t"] step_take.hyps(2)
    by (simp add: drain_work_def)
next
  case (step_finish i s t)
  then show ?case
    using worker_work_update [OF step_finish.hyps(1), of W_idle] by (simp add: drain_work_def)
next
  case (step_leave i s p)
  then show ?case
    using worker_work_update [OF step_leave.hyps(1), of W_dead]
    by (simp add: drain_work_def threadpool_run_Leave)
qed (auto simp: drain_work_def)

lemma joining_progress:
  assumes inv: "system_inv n s" and j: "sy_master s = M_joining r"
  shows "\<exists>s'. pool_step s s'"
proof (cases "\<forall>w\<in>set (sy_workers s). w = W_dead")
  case True
  with system_inv_destroy_end [OF inv j] j show ?thesis by (blast intro: step_return)
next
  case False
  then obtain i where i: "i < length (sy_workers s)" "sy_workers s ! i \<noteq> W_dead"
    by (auto simp: in_set_conv_nth)
  have sh: "tp_shutdown (sy_pool s) = 1" using inv j by (simp add: system_inv_def Let_def)
  show ?thesis
  proof (cases "sy_workers s ! i")
    case W_idle
    show ?thesis
    proof (cases "tp_count (sy_pool s) = 0")
      case True
      then have "threadpool_run (sy_pool s) =
          (Leave, (sy_pool s)\<lparr>tp_started := tp_started (sy_pool s) - 1\<rparr>)"
        using sh by (simp add: threadpool_run_Leave)
      with i W_idle show ?thesis by (blast intro: step_leave)
    next
      case False
      obtain t where "fst (queue_get (sy_pool s)) = Some t"
        using inv pool_queue.fifo_get [of "sy_added s" "sy_taken s" "sy_pool s"]
          system_inv_items [OF inv False]
        by (auto simp: system_inv_def Let_def)
      then have "threadpool_run (sy_pool s) = (Take (Some t), snd (queue_get (sy_pool s)))"
        using False by (cases "queue_get (sy_pool s)") (simp add: threadpool_run_Take)
      with i W_idle show ?thesis by (blast intro: step_take)
    qed
  next
    case (W_busy t)
    with i show ?thesis by (blast intro: step_finish)
  qed (use i in simp)
qed

section \<open>Destroying a pool that is already shutting down\<close>

text \<open>
  A second \<open>threadpool_destroy\<close> takes the mutex, finds the shutdown flag set and leaves the
  block without releasing it: if the workers are gone, \<open>threadpool_free\<close> then waits for the
  mutex its own thread holds; if they are not, the mutex stays locked and they never go.
\<close>

lemma destroy_again:
  assumes "tp_shutdown p \<noteq> 0" "tp_threads p \<noteq> []" "mutex_lock_rc env = 0"
  shows "\<exists>p'. threadpool_destroy_begin env (Some p) = Destroy_skip p' \<and> tp_locked p' \<and>
    threadpool_destroy_end join_rc 0 False p' =
      Inr (if tp_started p > 0 then Some (0, False) else None)"
  using assms by (simp add: threadpool_destroy_begin_def threadpool_destroy_end_def threadpool_free_def)

end
