(* ===== verification/Bomp_Loop.thy ===== *)
theory Bomp_Loop
  imports Prelude "HOL-Library.Signed_Division"
begin

text \<open>
  The work-sharing side of the OpenMP runtime, \<open>lib/libbomp/kmp.c\<close>: the macro
  \<open>__kmpc_for_static_init\<close>, from which the entry points for \<open>int32_t\<close>, \<open>uint32_t\<close>, \<open>int64_t\<close>
  and \<open>uint64_t\<close> loops are generated. Every operand of the macro is converted to the loop's
  \<open>TYPE\<close> (the usual arithmetic conversions of \<open>int\<close> with each of the four types give that
  type), so the model computes in \<open>TYPE\<close>: unsigned results wrap, a signed result out of range
  and a division by zero are undefined. The theory proves that a statically scheduled loop
  is cut into consecutive pieces, one per thread in thread order, that together are the
  loop; that a chunked schedule deals the iterations out in turn; and which thread is told
  that it has the last iteration.
\<close>

section \<open>Loop types\<close>

datatype kmp_type = kmp_4 | kmp_4u | kmp_8 | kmp_8u

primrec kmp_width :: "kmp_type \<Rightarrow> nat" where
  "kmp_width kmp_4 = 32"
| "kmp_width kmp_4u = 32"
| "kmp_width kmp_8 = 64"
| "kmp_width kmp_8u = 64"

primrec kmp_signed :: "kmp_type \<Rightarrow> bool" where
  "kmp_signed kmp_4 = True"
| "kmp_signed kmp_4u = False"
| "kmp_signed kmp_8 = True"
| "kmp_signed kmp_8u = False"

definition fits :: "kmp_type \<Rightarrow> int \<Rightarrow> bool" where
  "fits ty x \<longleftrightarrow>
     (if kmp_signed ty then - (2 ^ (kmp_width ty - 1)) \<le> x \<and> x < 2 ^ (kmp_width ty - 1)
      else 0 \<le> x \<and> x < 2 ^ kmp_width ty)"

text \<open>The value of an arithmetic operation of \<open>TYPE\<close> whose mathematical result is \<open>x\<close>.\<close>

definition arith :: "kmp_type \<Rightarrow> int \<Rightarrow> int res" where
  "arith ty x =
     (if kmp_signed ty then (if fits ty x then Inr x else Inl (UB Signed_overflow))
      else Inr (x mod 2 ^ kmp_width ty))"

definition c_div :: "kmp_type \<Rightarrow> int \<Rightarrow> int \<Rightarrow> int res" where
  "c_div ty a b = (if b = 0 then Inl (UB Divide_by_zero) else arith ty (a sdiv b))"

definition c_mod :: "kmp_type \<Rightarrow> int \<Rightarrow> int \<Rightarrow> int res" where
  "c_mod ty a b = (if b = 0 then Inl (UB Divide_by_zero) else arith ty (a smod b))"

text \<open>Conversion of an \<open>int\<close> operand (\<open>gtid\<close>, \<open>nthreads\<close>, a literal) to \<open>TYPE\<close>.\<close>

definition conv :: "kmp_type \<Rightarrow> int \<Rightarrow> int" where
  "conv ty x = (if kmp_signed ty then x else x mod 2 ^ kmp_width ty)"

section \<open>The scheduler\<close>

definition kmp_sch_static_chunked :: int where
  "kmp_sch_static_chunked = 33"

definition kmp_sch_static :: int where
  "kmp_sch_static = 34"

text \<open>
  What the caller passes by pointer: the last-iteration flag (\<open>None\<close> for a null pointer), the
  bounds and the stride.
\<close>

record loop_bounds =
  plastiter :: "int option"
  plower :: int
  pupper :: int
  pstride :: int

definition kmpc_total_trips :: "kmp_type \<Rightarrow> int \<Rightarrow> int \<Rightarrow> int \<Rightarrow> int res" where
  "kmpc_total_trips ty lower upper incr =
     (if incr = conv ty 1 then bindE (arith ty (upper - lower)) (\<lambda>d. arith ty (d + 1))
      else if incr = conv ty (- 1) then bindE (arith ty (lower - upper)) (\<lambda>d. arith ty (d + 1))
      else if incr > conv ty 1 then
        bindE (arith ty (upper - lower)) (\<lambda>d. bindE (c_div ty d incr) (\<lambda>q. arith ty (q + 1)))
      else
        bindE (arith ty (lower - upper)) (\<lambda>d. bindE (arith ty (- incr)) (\<lambda>m.
        bindE (c_div ty d m) (\<lambda>q. arith ty (q + 1)))))"

definition set_lastiter :: "bool \<Rightarrow> loop_bounds \<Rightarrow> loop_bounds" where
  "set_lastiter b s = s\<lparr>plastiter := map_option (\<lambda>_. if b then 1 else 0) (plastiter s)\<rparr>"

definition sched_static_few :: "kmp_type \<Rightarrow> int \<Rightarrow> int \<Rightarrow> int \<Rightarrow> loop_bounds \<Rightarrow> loop_bounds res" where
  "sched_static_few ty gtid total_trips incr s =
     bindE (if conv ty gtid < total_trips then
              bindE (arith ty (conv ty gtid * incr)) (\<lambda>o'.
              bindE (arith ty (plower s + o')) (\<lambda>l. Inr (s\<lparr>plower := l, pupper := l\<rparr>)))
            else bindE (arith ty (pupper s + incr)) (\<lambda>l. Inr (s\<lparr>plower := l\<rparr>))) (\<lambda>s.
     bindE (if plastiter s = None then Inr 0 else arith ty (total_trips - 1)) (\<lambda>last.
     Inr (set_lastiter (conv ty gtid = last) s)))"

definition sched_static_blocks ::
    "kmp_type \<Rightarrow> int \<Rightarrow> int \<Rightarrow> int \<Rightarrow> int \<Rightarrow> loop_bounds \<Rightarrow> loop_bounds res" where
  "sched_static_blocks ty nthreads gtid total_trips incr s =
     (let g = conv ty gtid in
      bindE (c_div ty total_trips (conv ty nthreads)) (\<lambda>chunk.
      bindE (c_mod ty total_trips (conv ty nthreads)) (\<lambda>extras.
      bindE (arith ty (g * chunk)) (\<lambda>a.
      bindE (arith ty (a + (if g < extras then g else extras))) (\<lambda>b.
      bindE (arith ty (incr * b)) (\<lambda>c.
      bindE (arith ty (plower s + c)) (\<lambda>l.
      bindE (arith ty (chunk * incr)) (\<lambda>d.
      bindE (arith ty (l + d)) (\<lambda>e.
      bindE (arith ty (e - (if g < extras then 0 else incr))) (\<lambda>u.
      Inr (set_lastiter (gtid = nthreads - 1) (s\<lparr>plower := l, pupper := u\<rparr>))))))))))))"

definition sched_static_chunked ::
    "kmp_type \<Rightarrow> int \<Rightarrow> int \<Rightarrow> int \<Rightarrow> int \<Rightarrow> int \<Rightarrow> loop_bounds \<Rightarrow> loop_bounds res" where
  "sched_static_chunked ty nthreads gtid total_trips incr chunk0 s =
     (let g = conv ty gtid; n = conv ty nthreads;
          chunk = (if chunk0 < conv ty 1 then conv ty 1 else chunk0) in
      bindE (arith ty (chunk * incr)) (\<lambda>span.
      bindE (arith ty (span * n)) (\<lambda>stride.
      bindE (arith ty (span * g)) (\<lambda>o'.
      bindE (arith ty (plower s + o')) (\<lambda>l.
      bindE (arith ty (l + span)) (\<lambda>e.
      bindE (arith ty (e - incr)) (\<lambda>u.
      let s = s\<lparr>pstride := stride, plower := l, pupper := u\<rparr> in
      if plastiter s = None then Inr s
      else bindE (arith ty (total_trips - 1)) (\<lambda>t1.
           bindE (c_div ty t1 chunk) (\<lambda>q.
           bindE (c_mod ty q n) (\<lambda>r. Inr (set_lastiter (g = r) s)))))))))))"

definition kmpc_for_static_init ::
    "kmp_type \<Rightarrow> int \<Rightarrow> int \<Rightarrow> int \<Rightarrow> int \<Rightarrow> int \<Rightarrow> loop_bounds \<Rightarrow> loop_bounds res" where
  "kmpc_for_static_init ty nthreads gtid schedtype incr chunk s =
     bindE (kmpc_total_trips ty (plower s) (pupper s) incr) (\<lambda>total_trips.
     if schedtype = kmp_sch_static then
       (if total_trips < conv ty nthreads then sched_static_few ty gtid total_trips incr s
        else sched_static_blocks ty nthreads gtid total_trips incr s)
     else if schedtype = kmp_sch_static_chunked then
       sched_static_chunked ty nthreads gtid total_trips incr chunk s
     else Inl ASSERT_fail)"

section \<open>The loop the bounds describe\<close>

text \<open>
  The iterations of \<open>for (i = lower; i <= upper; i += incr)\<close> (\<open>>=\<close> for a negative increment),
  the loop the compiler emits around the bounds the runtime returns.
\<close>

function loop_iters :: "int \<Rightarrow> int \<Rightarrow> int \<Rightarrow> int list" where
  "loop_iters lower upper incr =
     (if 0 < incr \<and> lower \<le> upper \<or> incr < 0 \<and> upper \<le> lower
      then lower # loop_iters (lower + incr) upper incr else [])"
  by pat_completeness auto
termination
  by (relation "measure (\<lambda>(l, u, i). nat (if 0 < i then u - l + 1 else l - u + 1))") auto

declare loop_iters.simps [simp del]

section \<open>Arithmetic of the loop types\<close>

lemma arith_fits: "fits ty x \<Longrightarrow> arith ty x = Inr x"
  by (cases "kmp_signed ty") (simp_all add: arith_def fits_def mod_pos_pos_trivial)

lemma conv_fits: "fits ty x \<Longrightarrow> conv ty x = x"
  by (simp add: conv_def fits_def mod_pos_pos_trivial)

lemma fits_between: "fits ty a \<Longrightarrow> fits ty b \<Longrightarrow> a \<le> x \<Longrightarrow> x \<le> b \<Longrightarrow> fits ty x"
  by (cases "kmp_signed ty") (auto simp: fits_def)

lemma fits_int32: "0 \<le> x \<Longrightarrow> x < 2 ^ 31 \<Longrightarrow> fits ty x"
  by (cases ty) (auto simp: fits_def)

lemma fits_0 [simp]: "fits ty 0"
  by (rule fits_int32) auto

lemma fits_1 [simp]: "fits ty 1"
  by (rule fits_int32) auto

lemma fits_abs: "fits ty b \<Longrightarrow> 0 \<le> x \<Longrightarrow> x \<le> b \<Longrightarrow> fits ty x"
  using fits_between fits_0 by blast

lemma fits_uminus: "kmp_signed ty \<Longrightarrow> 0 \<le> x \<Longrightarrow> fits ty x \<Longrightarrow> fits ty (- x)"
  by (auto simp: fits_def)

lemma sdiv_pos: "0 \<le> a \<Longrightarrow> 0 < b \<Longrightarrow> a sdiv b = a div (b::int)"
  by (auto simp: signed_divide_int_def sgn_if)

lemma smod_pos: "0 \<le> a \<Longrightarrow> 0 < b \<Longrightarrow> a smod b = a mod (b::int)"
  by (cases "a = 0") (auto simp: signed_modulo_int_def sgn_if)

lemma c_div_pos: "0 \<le> a \<Longrightarrow> 0 < b \<Longrightarrow> fits ty a \<Longrightarrow> c_div ty a b = Inr (a div b)"
proof -
  assume a: "0 \<le> a" "0 < b" "fits ty a"
  then have "fits ty (a div b)"
    by (intro fits_abs [OF a(3)]) (use zdiv_mono2 [of a 1 b] in \<open>auto simp: div_int_pos_iff\<close>)
  with a show ?thesis by (simp add: c_div_def sdiv_pos arith_fits)
qed

lemma c_mod_pos: "0 \<le> a \<Longrightarrow> 0 < b \<Longrightarrow> fits ty a \<Longrightarrow> c_mod ty a b = Inr (a mod b)"
proof -
  assume a: "0 \<le> a" "0 < b" "fits ty a"
  then have "fits ty (a mod b)"
    by (intro fits_abs [OF a(3)]) (auto simp: zmod_le_nonneg_dividend)
  with a show ?thesis by (simp add: c_mod_def smod_pos arith_fits)
qed

section \<open>Loops in range\<close>

text \<open>
  The loops the entry points are called for: at least one iteration, a team of \<open>1\<close> to
  \<open>INT_MAX\<close> threads, an ascending loop for an unsigned type, and bounds that leave room for
  the one step past the end that the macro computes.
\<close>

definition loop_ok :: "kmp_type \<Rightarrow> int \<Rightarrow> int \<Rightarrow> int \<Rightarrow> int \<Rightarrow> bool" where
  "loop_ok ty n lower upper incr \<longleftrightarrow>
     0 < n \<and> n < 2 ^ 31 \<and> (kmp_signed ty \<or> 0 < incr) \<and> incr \<noteq> 0 \<and>
     fits ty lower \<and> fits ty upper \<and> fits ty (upper + incr) \<and>
     (if 0 < incr then lower \<le> upper \<and> fits ty (upper - lower + incr)
      else upper \<le> lower \<and> fits ty (lower - upper - incr))"

definition trips :: "int \<Rightarrow> int \<Rightarrow> int \<Rightarrow> int" where
  "trips lower upper incr = \<bar>upper - lower\<bar> div \<bar>incr\<bar> + 1"

lemma loop_ok_fits_distance: "loop_ok ty n lower upper incr \<Longrightarrow> fits ty (\<bar>upper - lower\<bar> + \<bar>incr\<bar>)"
  by (auto simp: loop_ok_def split: if_splits)

lemma loop_ok_n: "loop_ok ty n lower upper incr \<Longrightarrow> 0 < n \<and> fits ty n \<and> conv ty n = n"
  by (simp add: loop_ok_def fits_int32 conv_fits)

lemma loop_ok_gtid:
  "loop_ok ty n lower upper incr \<Longrightarrow> 0 \<le> gtid \<Longrightarrow> gtid < n \<Longrightarrow> fits ty gtid \<and> conv ty gtid = gtid"
  by (simp add: loop_ok_def fits_int32 conv_fits)

lemma loop_ok_step_abs:
  assumes "loop_ok ty n lower upper incr"
  assumes "0 \<le> k" "k \<le> trips lower upper incr"
  shows "\<bar>incr\<bar> * k \<le> \<bar>upper - lower\<bar> + \<bar>incr\<bar>"
proof -
  have "\<bar>incr\<bar> * k \<le> \<bar>incr\<bar> * trips lower upper incr"
    using assms by (intro mult_left_mono) auto
  also have "\<dots> = \<bar>incr\<bar> * (\<bar>upper - lower\<bar> div \<bar>incr\<bar>) + \<bar>incr\<bar>"
    by (simp add: trips_def distrib_left)
  also have "\<dots> \<le> \<bar>upper - lower\<bar> + \<bar>incr\<bar>"
    using assms(1) by (simp add: loop_ok_def minus_mod_eq_mult_div [symmetric])
  finally show ?thesis .
qed

lemma trips_pos: "0 < trips lower upper incr"
  by (cases "incr = 0") (auto simp: trips_def pos_imp_zdiv_nonneg_iff add_nonneg_pos)

lemma loop_ok_trips:
  assumes "loop_ok ty n lower upper incr"
  assumes "0 \<le> k" "k \<le> trips lower upper incr"
  shows "fits ty k"
proof (rule fits_abs [OF loop_ok_fits_distance [OF assms(1)] assms(2)])
  have "k \<le> \<bar>incr\<bar> * k"
    using assms by (auto simp: loop_ok_def mult_le_cancel_right1)
  with loop_ok_step_abs [OF assms] show "k \<le> \<bar>upper - lower\<bar> + \<bar>incr\<bar>" by simp
qed

lemma loop_ok_step:
  assumes "loop_ok ty n lower upper incr"
  assumes "0 \<le> k" "k \<le> trips lower upper incr"
  shows "fits ty (incr * k)" and "fits ty (lower + incr * k)"
proof -
  note b = loop_ok_step_abs [OF assms]
  note d = loop_ok_fits_distance [OF assms(1)]
  have "fits ty (incr * k) \<and> fits ty (lower + incr * k)"
  proof (cases "0 < incr")
    case True
    then show ?thesis
      using assms b fits_abs [OF d, of "incr * k"]
        fits_between [of ty lower "upper + incr" "lower + incr * k"]
      by (simp add: loop_ok_def)
  next
    case False
    moreover have "kmp_signed ty" using False assms(1) by (simp add: loop_ok_def)
    moreover have "fits ty (- (\<bar>upper - lower\<bar> + \<bar>incr\<bar>))"
      using d \<open>kmp_signed ty\<close> by (intro fits_uminus) auto
    ultimately show ?thesis
      using assms b fits_between [of ty "upper + incr" lower "lower + incr * k"]
        fits_between [of ty "- (\<bar>upper - lower\<bar> + \<bar>incr\<bar>)" 0 "incr * k"]
      by (simp add: loop_ok_def mult_nonpos_nonneg)
  qed
  then show "fits ty (incr * k)" and "fits ty (lower + incr * k)" by auto
qed

lemma kmpc_total_trips_ok:
  assumes "loop_ok ty n lower upper incr"
  shows "kmpc_total_trips ty lower upper incr = Inr (trips lower upper incr)"
proof -
  have d: "fits ty \<bar>upper - lower\<bar>" and i: "fits ty \<bar>incr\<bar>"
    using loop_ok_fits_distance [OF assms] by (auto intro: fits_abs)
  have t: "fits ty (trips lower upper incr)"
    using loop_ok_trips [OF assms] trips_pos [of lower upper incr] by simp
  note ar = arith_fits [OF d] arith_fits [OF i] arith_fits [OF t] conv_fits [OF fits_1]
    c_div_pos [OF _ _ d]
  consider "0 < incr" "lower \<le> upper" | "incr < 0" "upper \<le> lower" "kmp_signed ty"
    using assms by (auto simp: loop_ok_def split: if_splits)
  then show ?thesis
  proof cases
    case 1
    moreover have "incr \<noteq> conv ty (- 1) \<or> incr = 1 \<or> upper = lower"
      using assms i 1 by (cases ty) (auto simp: loop_ok_def conv_def fits_def)
    ultimately show ?thesis
      using ar by (auto simp: kmpc_total_trips_def trips_def)
  next
    case 2
    then have "conv ty (- 1) = - 1" by (simp add: conv_def)
    with 2 show ?thesis
      using ar by (auto simp: kmpc_total_trips_def trips_def abs_minus_commute)
  qed
qed

section \<open>Iterations of a piece\<close>

lemma loop_iters_map:
  assumes "incr \<noteq> 0" "0 \<le> r" "r < \<bar>incr\<bar>"
  shows "loop_iters lower (lower + incr * (int m - 1) + sgn incr * r) incr =
    map (\<lambda>k. lower + incr * int k) [0..<m]"
proof (induction m arbitrary: lower)
  case 0
  then show ?case using assms by (auto simp: loop_iters.simps sgn_if)
next
  case (Suc m)
  let ?u = "lower + incr * int m + sgn incr * r"
  have "0 < incr \<and> lower \<le> ?u \<or> incr < 0 \<and> ?u \<le> lower"
    using assms mult_nonpos_nonneg [of incr "int m"] by (auto simp: sgn_if)
  then have "loop_iters lower ?u incr = lower # loop_iters (lower + incr) ?u incr"
    by (subst loop_iters.simps) auto
  also have "?u = lower + incr + incr * (int m - 1) + sgn incr * r"
    by (simp add: algebra_simps)
  also have "loop_iters (lower + incr) \<dots> incr = map (\<lambda>k. lower + incr + incr * int k) [0..<m]"
    by (rule Suc.IH)
  finally show ?case
    by (simp add: upt_conv_Cons map_Suc_upt [symmetric] algebra_simps del: upt_Suc)
qed

lemma loop_iters_trips:
  assumes "loop_ok ty n lower upper incr"
  shows "loop_iters lower upper incr =
    map (\<lambda>k. lower + incr * int k) [0..<nat (trips lower upper incr)]"
proof -
  let ?r = "\<bar>upper - lower\<bar> mod \<bar>incr\<bar>"
  have u: "upper = lower + incr * (int (nat (trips lower upper incr)) - 1) + sgn incr * ?r"
  proof -
    have "\<bar>upper - lower\<bar> = \<bar>incr\<bar> * (trips lower upper incr - 1) + ?r"
      by (simp add: trips_def)
    then show ?thesis
      using assms trips_pos [of lower upper incr] by (auto simp: loop_ok_def split: if_splits)
  qed
  have "incr \<noteq> 0" using assms by (simp add: loop_ok_def)
  then show ?thesis
    by (subst u) (rule loop_iters_map, auto)
qed

section \<open>The static schedule\<close>

text \<open>The number of iterations the threads before \<open>t\<close> receive.\<close>

definition block_start :: "nat \<Rightarrow> nat \<Rightarrow> nat \<Rightarrow> nat" where
  "block_start n tot t = t * (tot div n) + min t (tot mod n)"

lemma block_start_all: "0 < n \<Longrightarrow> block_start n tot n = tot"
  using mod_less_divisor [of n tot] by (simp add: block_start_def min_def del: mod_less_divisor)

lemma block_start_Suc:
  "block_start n tot (Suc t) =
     block_start n tot t + tot div n + (if t < tot mod n then 1 else 0)"
  by (auto simp: block_start_def min_def)

lemma concat_blocks:
  "concat (map (\<lambda>t. map f [block_start n tot t..<block_start n tot (Suc t)]) [0..<m]) =
   map f [0..<block_start n tot m]"
proof (induction m)
  case 0
  then show ?case by (simp add: block_start_def)
next
  case (Suc m)
  have "block_start n tot m \<le> block_start n tot (Suc m)" by (simp add: block_start_Suc)
  then have "[0..<block_start n tot (Suc m)] =
      [0..<block_start n tot m] @ [block_start n tot m..<block_start n tot (Suc m)]"
    by (metis upt_add_eq_append le0 le_add_diff_inverse)
  with Suc show ?case by simp
qed

lemma block_start_mono: "t \<le> t' \<Longrightarrow> block_start n tot t \<le> block_start n tot t'"
  unfolding block_start_def by (intro add_mono mult_right_mono) (auto simp: min_def)

lemma block_start_le: "t \<le> n \<Longrightarrow> 0 < n \<Longrightarrow> block_start n tot t \<le> tot"
  using block_start_mono [of t n n tot] by (simp add: block_start_all)

lemma int_block_start:
  "int (block_start n tot t) = int t * (int tot div int n) + min (int t) (int tot mod int n)"
  by (simp add: block_start_def zdiv_int zmod_int of_nat_min)

lemma sched_static_blocks_ok:
  assumes ok: "loop_ok ty (int n) lower upper incr" and t: "t < n"
  assumes tot: "trips lower upper incr = int tot"
  assumes s: "plower s = lower"
  assumes big: "n \<le> tot"
  shows "sched_static_blocks ty (int n) (int t) (int tot) incr s =
    Inr (set_lastiter (int t = int n - 1)
      (s\<lparr>plower := lower + incr * int (block_start n tot t),
         pupper := lower + incr * (int (block_start n tot (Suc t)) - 1)\<rparr>))"
proof -
  let ?c = "int tot div int n" and ?e = "int tot mod int n"
  have n: "0 < n" "conv ty (int n) = int n" using loop_ok_n [OF ok] by auto
  have g: "conv ty (int t) = int t" "fits ty (int t)" using loop_ok_gtid [OF ok] t by auto
  have le: "block_start n tot t \<le> tot" "block_start n tot (Suc t) \<le> tot"
    using block_start_le [of t n tot] block_start_le [of "Suc t" n tot] t by auto
  have bs: "int t * ?c + (if int t < ?e then int t else ?e) = int (block_start n tot t)"
    by (simp add: int_block_start min_def)
  have bs': "int (block_start n tot t) + ?c + (if int t < ?e then 1 else 0) =
      int (block_start n tot (Suc t))"
    by (simp add: block_start_Suc zdiv_int zmod_int) (metis of_nat_less_iff zmod_int)
  have e: "0 \<le> ?e" "0 \<le> ?c" using n by (auto simp: zdiv_int [symmetric])
  have sum: "int (block_start n tot t) + ?c \<le> int tot"
    using bs' le by (simp split: if_splits)
  have "0 < tot div n" using big n by (simp add: div_greater_zero_iff)
  then have pos: "1 \<le> int (block_start n tot (Suc t))" by (simp add: block_start_Suc)
  have lim: "int t * ?c \<le> int tot" "?c \<le> int tot" using bs sum e le by (auto split: if_splits)
  note fit = arith_fits [OF loop_ok_trips [OF ok, unfolded tot]]
    arith_fits [OF loop_ok_step(1) [OF ok, unfolded tot]]
    arith_fits [OF loop_ok_step(2) [OF ok, unfolded tot]]
  have l: "lower + incr * int (block_start n tot t) + ?c * incr =
      lower + incr * (int (block_start n tot t) + ?c)"
    by (simp add: algebra_simps)
  have u: "lower + incr * (int (block_start n tot t) + ?c) - (if int t < ?e then 0 else incr) =
      lower + incr * (int (block_start n tot (Suc t)) - 1)"
    unfolding bs' [symmetric] by (simp add: algebra_simps)
  have "arith ty (?c * incr) = Inr (?c * incr)"
    using fit(2) [of ?c] e lim by (simp add: mult.commute)
  moreover have "fits ty (int tot)" using loop_ok_trips [OF ok, of "int tot"] tot by simp
  ultimately show ?thesis
    unfolding sched_static_blocks_def Let_def n g s
    using n e lim le sum pos fit(1) [of "int t * ?c"] fit(1) [of "int (block_start n tot t)"]
      fit(2) [of "int (block_start n tot t)"] fit(3) [of "int (block_start n tot t)"]
      fit(3) [of "int (block_start n tot t) + ?c"]
      fit(3) [of "int (block_start n tot (Suc t)) - 1"]
    by (simp only: c_div_pos c_mod_pos of_nat_0_le_iff of_nat_0_less_iff of_nat_le_iff bindE_Inr
      bs l u mult_nonneg_nonneg add_nonneg_nonneg diff_ge_0_iff_ge)
qed

lemma sched_static_few_ok:
  assumes ok: "loop_ok ty (int n) lower upper incr" and t: "t < n"
  assumes tot: "trips lower upper incr = int tot"
  assumes s: "plower s = lower" "pupper s = upper"
  assumes small: "tot < n"
  shows "sched_static_few ty (int t) (int tot) incr s =
    Inr (set_lastiter (Suc t = tot)
      (if t < tot then s\<lparr>plower := lower + incr * int t, pupper := lower + incr * int t\<rparr>
       else s\<lparr>plower := upper + incr\<rparr>))"
proof -
  have g: "conv ty (int t) = int t" using loop_ok_gtid [OF ok] t by auto
  have u: "arith ty (upper + incr) = Inr (upper + incr)"
    using ok by (intro arith_fits) (simp add: loop_ok_def)
  have "0 < tot" using tot trips_pos [of lower upper incr] by simp
  then have l: "arith ty (int tot - 1) = Inr (int tot - 1)"
    using loop_ok_trips [OF ok, of "int tot - 1"] tot by (intro arith_fits) auto
  have "t < tot \<Longrightarrow> arith ty (incr * int t) = Inr (incr * int t) \<and>
      arith ty (lower + incr * int t) = Inr (lower + incr * int t)"
    using loop_ok_step [OF ok, of "int t"] tot by (simp add: arith_fits)
  moreover have "int t = int tot - 1 \<longleftrightarrow> Suc t = tot" using \<open>0 < tot\<close> by auto
  ultimately show ?thesis
    using g u l s
    by (auto simp: sched_static_few_def mult.commute [of _ incr] set_lastiter_def)
qed

text \<open>The piece of the loop a thread receives, whichever branch of the macro computed it.\<close>

lemma set_lastiter_bounds [simp]:
  "plower (set_lastiter b s) = plower s" "pupper (set_lastiter b s) = pupper s"
  "pstride (set_lastiter b s) = pstride s"
  by (simp_all add: set_lastiter_def)

lemma loop_iters_one: "incr \<noteq> 0 \<Longrightarrow> loop_iters l l incr = [l]"
  using loop_iters_map [of incr 0 l 1] by simp

lemma loop_iters_none: "incr \<noteq> 0 \<Longrightarrow> loop_iters (u + incr) u incr = []"
  by (subst loop_iters.simps) auto

lemma loop_iters_block:
  assumes "incr \<noteq> 0" "a \<le> b"
  shows "loop_iters (l + incr * int a) (l + incr * (int b - 1)) incr =
    map (\<lambda>k. l + incr * int k) [a..<b]"
proof -
  have "l + incr * (int b - 1) = (l + incr * int a) + incr * (int (b - a) - 1) + sgn incr * 0"
    using assms by (simp add: of_nat_diff algebra_simps)
  then have "loop_iters (l + incr * int a) (l + incr * (int b - 1)) incr =
      map (\<lambda>k. (l + incr * int a) + incr * int k) [0..<b - a]"
    using assms by (simp only:) (rule loop_iters_map, auto)
  also have "\<dots> = map (\<lambda>k. l + incr * int k) [a..<b]"
    using assms by (intro nth_equalityI) (auto simp: algebra_simps)
  finally show ?thesis .
qed

lemma kmpc_static_piece:
  assumes ok: "loop_ok ty (int n) (plower s) (pupper s) incr" and t: "t < n"
  assumes tot: "trips (plower s) (pupper s) incr = int tot"
  obtains s' where "kmpc_for_static_init ty (int n) (int t) kmp_sch_static incr chunk s = Inr s'"
    and "loop_iters (plower s') (pupper s') incr =
      map (\<lambda>k. plower s + incr * int k) [block_start n tot t..<block_start n tot (Suc t)]"
    and "plastiter s' =
      map_option (\<lambda>_. if Suc t = min n tot then 1 else 0) (plastiter s)"
proof -
  have i: "incr \<noteq> 0" using ok by (simp add: loop_ok_def)
  note init = kmpc_for_static_init_def kmpc_total_trips_ok [OF ok] tot
    conjunct2 [OF conjunct2 [OF loop_ok_n [OF ok]]]
  show thesis
  proof (cases "tot < n")
    case True
    then have bs: "block_start n tot t = min t tot" "block_start n tot (Suc t) = min (Suc t) tot"
      by (simp_all add: block_start_def)
    let ?s = "if t < tot then s\<lparr>plower := plower s + incr * int t, pupper := plower s + incr * int t\<rparr>
       else s\<lparr>plower := pupper s + incr\<rparr>"
    have eq: "kmpc_for_static_init ty (int n) (int t) kmp_sch_static incr chunk s =
        Inr (set_lastiter (Suc t = tot) ?s)"
      using True sched_static_few_ok [OF ok t tot refl refl True] by (simp add: init)
    show ?thesis
      by (rule that [OF eq])
        (use True i in \<open>auto simp: bs loop_iters_one loop_iters_none set_lastiter_def\<close>)
  next
    case False
    let ?s = "s\<lparr>plower := plower s + incr * int (block_start n tot t),
      pupper := plower s + incr * (int (block_start n tot (Suc t)) - 1)\<rparr>"
    have eq: "kmpc_for_static_init ty (int n) (int t) kmp_sch_static incr chunk s =
        Inr (set_lastiter (int t = int n - 1) ?s)"
      using False sched_static_blocks_ok [OF ok t tot refl] by (simp add: init)
    have "int t = int n - 1 \<longleftrightarrow> Suc t = n" by auto
    then show ?thesis
      by (intro that [OF eq])
        (use False i block_start_mono [of t "Suc t" n tot] in
          \<open>auto simp: loop_iters_block set_lastiter_def\<close>)
  qed
qed

text \<open>The thread whose piece holds the last iteration is the one that is told so.\<close>

lemma block_last:
  assumes "t < n" "0 < tot"
  shows "block_start n tot t \<le> tot - 1 \<and> tot - 1 < block_start n tot (Suc t) \<longleftrightarrow>
    Suc t = min n tot"
proof (cases "tot < n")
  case True
  then show ?thesis using assms by (auto simp: block_start_def)
next
  case False
  then have d: "0 < tot div n" using assms by (simp add: div_greater_zero_iff)
  have n: "block_start n tot n = tot" using assms by (intro block_start_all) simp
  have lt: "block_start n tot (Suc t) < tot" if "Suc t < n"
    using d n block_start_mono [of "Suc (Suc t)" n n tot] that by (simp add: block_start_Suc)
  have "block_start n tot t < block_start n tot (Suc t)" using d by (simp add: block_start_Suc)
  moreover have "Suc t < n \<or> Suc t = n" using assms by auto
  ultimately show ?thesis
    using False lt n assms by (auto simp: min_def)
qed

section \<open>The chunked schedule\<close>

text \<open>
  The loop nest the compiler emits for a chunked schedule: run the piece between the bounds,
  clipped to the last iteration of the whole loop, then move both bounds by the stride.
\<close>

function chunk_loop :: "int \<Rightarrow> int \<Rightarrow> int \<Rightarrow> int \<Rightarrow> int \<Rightarrow> int list" where
  "chunk_loop lower upper stride incr final =
     (if 0 < incr \<and> 0 < stride \<and> lower \<le> final then
        loop_iters lower (min upper final) incr @
        chunk_loop (lower + stride) (upper + stride) stride incr final
      else if incr < 0 \<and> stride < 0 \<and> final \<le> lower then
        loop_iters lower (max upper final) incr @
        chunk_loop (lower + stride) (upper + stride) stride incr final
      else [])"
  by pat_completeness auto
termination
  by (relation "measure (\<lambda>(l, u, st, i, la). nat (if 0 < st then la - l + 1 else l - la + 1))") auto

declare chunk_loop.simps [simp del]

definition chunk_ok :: "kmp_type \<Rightarrow> int \<Rightarrow> int \<Rightarrow> int \<Rightarrow> int \<Rightarrow> int \<Rightarrow> bool" where
  "chunk_ok ty n lower upper incr chunk \<longleftrightarrow>
     loop_ok ty n lower upper incr \<and> 0 < chunk \<and>
     fits ty (\<bar>incr\<bar> * (chunk * n)) \<and> fits ty (lower + incr * (chunk * n))"

lemma chunk_ok_step:
  assumes "chunk_ok ty n lower upper incr chunk"
  assumes "0 \<le> k" "k \<le> chunk * n"
  shows "fits ty (incr * k)" and "fits ty (lower + incr * k)"
proof -
  let ?b = "\<bar>incr\<bar> * (chunk * n)"
  have k: "\<bar>incr\<bar> * k \<le> ?b" using assms by (intro mult_left_mono) auto
  have b: "fits ty ?b" and f: "fits ty lower" "fits ty (lower + incr * (chunk * n))"
    using assms(1) by (auto simp: chunk_ok_def loop_ok_def)
  have "fits ty (incr * k) \<and> fits ty (lower + incr * k)"
  proof (cases "0 < incr")
    case True
    then show ?thesis
      using assms(2) k fits_abs [OF b, of "incr * k"] fits_between [OF f, of "lower + incr * k"]
      by simp
  next
    case False
    with assms(1) have "kmp_signed ty" by (simp add: chunk_ok_def loop_ok_def)
    with b have "fits ty (- ?b)"
      using assms(1) by (intro fits_uminus) (auto simp: chunk_ok_def loop_ok_def)
    with False show ?thesis
      using assms(2) k fits_between [of ty "- ?b" 0 "incr * k"]
        fits_between [OF f(2,1), of "lower + incr * k"] mult_nonpos_nonneg [of incr k]
      by simp
  qed
  then show "fits ty (incr * k)" and "fits ty (lower + incr * k)" by auto
qed

lemma sched_static_chunked_ok:
  assumes ok: "chunk_ok ty (int n) lower upper incr (int c)" and t: "t < n"
  assumes tot: "trips lower upper incr = int tot"
  assumes s: "plower s = lower"
  shows "sched_static_chunked ty (int n) (int t) (int tot) incr (int c) s =
    Inr (set_lastiter (t = (tot - 1) div c mod n)
      (s\<lparr>plower := lower + incr * int (c * t), pupper := lower + incr * (int (c * Suc t) - 1),
         pstride := incr * int (c * n)\<rparr>))"
proof -
  have lok: "loop_ok ty (int n) lower upper incr" and c: "0 < c"
    using ok by (auto simp: chunk_ok_def)
  have n: "0 < n" "conv ty (int n) = int n" using loop_ok_n [OF lok] by auto
  have g: "conv ty (int t) = int t" using loop_ok_gtid [OF lok] t by auto
  have tot0: "0 < tot" using tot trips_pos [of lower upper incr] by simp
  note fit = arith_fits [OF chunk_ok_step(1) [OF ok]] arith_fits [OF chunk_ok_step(2) [OF ok]]
  have le: "c \<le> c * n" "c * t \<le> c * n" "c * Suc t \<le> c * n" using n t c by (auto simp del: mult_Suc_right)
  have eqs: "int c * incr = incr * int c" "incr * int c * int n = incr * (int c * int n)"
      "incr * int c * int t = incr * (int c * int t)"
      "lower + incr * (int c * int t) + incr * int c = lower + incr * int (c * Suc t)"
      "lower + incr * int (c * Suc t) - incr = lower + incr * (int (c * Suc t) - 1)"
    by (simp_all add: algebra_simps)
  have last: "arith ty (int tot - 1) = Inr (int (tot - 1))"
    "c_div ty (int (tot - 1)) (int c) = Inr (int ((tot - 1) div c))"
    "c_mod ty (int ((tot - 1) div c)) (int n) = Inr (int ((tot - 1) div c mod n))"
  proof -
    have f: "fits ty (int m)" if "m \<le> tot" for m
      using that loop_ok_trips [OF lok, unfolded tot] by simp
    have "(tot - 1) div c \<le> tot" by (rule le_trans [OF div_le_dividend]) simp
    then show "c_mod ty (int ((tot - 1) div c)) (int n) = Inr (int ((tot - 1) div c mod n))"
      unfolding zmod_int using n by (intro c_mod_pos f) auto
    show "c_div ty (int (tot - 1)) (int c) = Inr (int ((tot - 1) div c))"
      unfolding zdiv_int using c by (intro c_div_pos f) auto
    show "arith ty (int tot - 1) = Inr (int (tot - 1))"
      using arith_fits [OF f [of "tot - 1"]] tot0 by (simp add: of_nat_diff)
  qed
  have "int (c * Suc t) \<le> int (c * n)" using le(3) by (simp only: of_nat_le_iff)
  then have le': "0 < int c + int c * int t" "int c + int c * int t - 1 \<le> int c * int n"
    using c by (auto simp: add_pos_nonneg)
  have ar: "arith ty (incr * int c) = Inr (incr * int c)"
    "arith ty (incr * (int c * int n)) = Inr (incr * (int c * int n))"
    "arith ty (incr * (int c * int t)) = Inr (incr * (int c * int t))"
    "arith ty (lower + incr * (int c * int t)) = Inr (lower + incr * (int c * int t))"
    "arith ty (lower + incr * int (c * Suc t)) = Inr (lower + incr * int (c * Suc t))"
    "arith ty (lower + incr * (int (c * Suc t) - 1)) = Inr (lower + incr * (int (c * Suc t) - 1))"
    using fit(1) [of "int c"] fit(1) [of "int c * int n"] fit(1) [of "int c * int t"]
      fit(2) [of "int c * int t"] fit(2) [of "int (c * Suc t)"] fit(2) [of "int (c * Suc t) - 1"]
      le le' c by (simp_all add: of_nat_mult [symmetric] del: of_nat_mult)
  have "\<not> int c < conv ty 1" using c by (simp add: conv_fits)
  then show ?thesis
    unfolding sched_static_chunked_def Let_def n g s
    by (simp only: if_False eqs ar bindE_Inr last) (simp add: set_lastiter_def)
qed

text \<open>One chunk of the loop nest, clipped or whole.\<close>

lemma filter_chunk:
  assumes "0 < c" "0 < n" "q mod n = t"
  shows "filter (\<lambda>k. k div c mod n = t) [c * q..<tot] =
    [c * q..<min (c * Suc q) tot] @ filter (\<lambda>k. k div c mod n = t) [c * (q + n)..<tot]"
proof (cases "c * q \<le> tot")
  case True
  let ?P = "\<lambda>k. k div c mod n = t" and ?a = "min (c * Suc q) tot" and ?b = "min (c * (q + n)) tot"
  have "c * Suc q \<le> c * (q + n)" using assms by (intro mult_le_mono) auto
  then have le: "c * q \<le> ?a" "?a \<le> ?b" "?b \<le> tot" using True by (auto simp: min_def)
  then have "[c * q..<tot] = [c * q..<?a] @ [?a..<?b] @ [?b..<tot]"
    by (metis upt_add_eq_append le_add_diff_inverse le_trans)
  moreover have "filter ?P [c * q..<?a] = [c * q..<?a]"
  proof (rule filter_True, safe)
    fix k assume "k \<in> set [c * q..<?a]"
    then have "k div c = q" by (intro div_nat_eqI) auto
    then show "k div c mod n = t" using assms by simp
  qed
  moreover have "filter ?P [?a..<?b] = []"
  proof (rule filter_False, intro ballI notI)
    fix k assume k: "k \<in> set [?a..<?b]" and e: "k div c mod n = t"
    have "Suc q \<le> k div c" "k div c < q + n"
      using k assms by (auto simp: less_eq_div_iff_mult_less_eq div_less_iff_less_mult min_def
        algebra_simps split: if_splits)
    moreover have "n dvd k div c - q"
      using e assms \<open>Suc q \<le> k div c\<close> by (simp add: mod_eq_dvd_iff_nat [symmetric])
    ultimately show False by (auto dest: dvd_imp_le)
  qed
  moreover have "[?b..<tot] = [c * (q + n)..<tot]" by (auto simp: min_def)
  ultimately show ?thesis by simp
next
  case False
  then have "tot \<le> c * (q + n)" by (simp add: distrib_left)
  then show ?thesis using False by (auto simp: min_def)
qed

text \<open>
  The final bound of a loop of \<open>tot\<close> iterations need not be hit exactly: it exceeds the last
  iteration by some \<open>r\<close> less than the increment.
\<close>

definition final_bound :: "int \<Rightarrow> int \<Rightarrow> nat \<Rightarrow> int \<Rightarrow> int" where
  "final_bound l incr tot r = l + incr * (int tot - 1) + sgn incr * r"

lemma final_bound_reached:
  assumes "incr \<noteq> 0" "0 \<le> r" "r < \<bar>incr\<bar>"
  shows "0 < incr \<Longrightarrow> l + incr * int a \<le> final_bound l incr tot r \<longleftrightarrow> a < tot"
    and "incr < 0 \<Longrightarrow> final_bound l incr tot r \<le> l + incr * int a \<longleftrightarrow> a < tot"
proof -
  have *: "\<bar>incr\<bar> * int a \<le> \<bar>incr\<bar> * (int tot - 1) + r \<longleftrightarrow> a < tot"
  proof
    assume "\<bar>incr\<bar> * int a \<le> \<bar>incr\<bar> * (int tot - 1) + r"
    moreover have "\<bar>incr\<bar> * (int tot - 1) = \<bar>incr\<bar> * int tot - \<bar>incr\<bar>" by (simp add: algebra_simps)
    ultimately have "\<bar>incr\<bar> * int a < \<bar>incr\<bar> * int tot" using assms by linarith
    then show "a < tot" using assms by simp
  next
    assume "a < tot"
    then have "\<bar>incr\<bar> * int a \<le> \<bar>incr\<bar> * (int tot - 1)" by (intro mult_left_mono) auto
    then show "\<bar>incr\<bar> * int a \<le> \<bar>incr\<bar> * (int tot - 1) + r" using assms by linarith
  qed
  show "0 < incr \<Longrightarrow> l + incr * int a \<le> final_bound l incr tot r \<longleftrightarrow> a < tot"
    using * by (simp add: final_bound_def)
  show "incr < 0 \<Longrightarrow> final_bound l incr tot r \<le> l + incr * int a \<longleftrightarrow> a < tot"
    using * by (auto simp: final_bound_def)
qed

lemma loop_iters_clip:
  assumes "incr \<noteq> 0" "0 \<le> r" "r < \<bar>incr\<bar>" "a < b" "a < tot"
  assumes "u = l + incr * (int b - 1)"
  shows "loop_iters (l + incr * int a)
      (if 0 < incr then min u (final_bound l incr tot r) else max u (final_bound l incr tot r)) incr =
    map (\<lambda>k. l + incr * int k) [a..<min b tot]"
proof (cases "b \<le> tot")
  case True
  have "int b - 1 = int (b - 1)" "b - 1 < tot" using assms True by auto
  then have "(if 0 < incr then min u (final_bound l incr tot r)
      else max u (final_bound l incr tot r)) = u"
    using final_bound_reached [OF assms(1-3), where l = l and a = "b - 1" and tot = tot] assms by (cases "0 < incr") (auto simp: min_def max_def)
  then show ?thesis using assms True loop_iters_block [of incr a b l] by simp
next
  case False
  have "int b - 1 = int (b - 1)" "\<not> b - 1 < tot" using assms False by auto
  then have "(if 0 < incr then min u (final_bound l incr tot r)
      else max u (final_bound l incr tot r)) = final_bound l incr tot r"
    using final_bound_reached [OF assms(1-3), where l = l and a = "b - 1" and tot = tot] assms by (cases "0 < incr") (auto simp: min_def max_def)
  also have "final_bound l incr tot r =
      (l + incr * int a) + incr * (int (tot - a) - 1) + sgn incr * r"
    using assms by (simp add: final_bound_def of_nat_diff algebra_simps)
  finally have "loop_iters (l + incr * int a) (if 0 < incr then min u (final_bound l incr tot r)
      else max u (final_bound l incr tot r)) incr =
      map (\<lambda>k. (l + incr * int a) + incr * int k) [0..<tot - a]"
    using loop_iters_map [OF assms(1-3)] by (simp only:)
  also have "\<dots> = map (\<lambda>k. l + incr * int k) [a..<tot]"
    using assms by (intro nth_equalityI) (auto simp: algebra_simps)
  finally show ?thesis using False by simp
qed

lemma chunk_loop_filter:
  assumes "incr \<noteq> 0" "0 \<le> r" "r < \<bar>incr\<bar>" "0 < c" "0 < n"
  shows "q mod n = t \<Longrightarrow>
    chunk_loop (l + incr * int (c * q)) (l + incr * (int (c * Suc q) - 1)) (incr * int (c * n)) incr
      (final_bound l incr tot r) =
    map (\<lambda>k. l + incr * int k) (filter (\<lambda>k. k div c mod n = t) [c * q..<tot])"
proof (induction "tot - c * q" arbitrary: q rule: less_induct)
  case less
  let ?f = "final_bound l incr tot r" and ?l = "\<lambda>q. l + incr * int (c * q)"
    and ?u = "\<lambda>q. l + incr * (int (c * Suc q) - 1)"
  note reached = final_bound_reached [OF assms(1-3), where l = l and a = "c * q" and tot = tot]
  show ?case
  proof (cases "c * q < tot")
    case False
    then have "\<not> (0 < incr \<and> ?l q \<le> ?f)" "\<not> (incr < 0 \<and> ?f \<le> ?l q)" using reached by auto
    then have "chunk_loop (?l q) (?u q) (incr * int (c * n)) incr ?f = []"
      by (subst chunk_loop.simps) (auto simp del: of_nat_mult mult_Suc_right)
    then show ?thesis using False by simp
  next
    case True
    have st: "0 < incr \<Longrightarrow> 0 < incr * int (c * n)" "incr < 0 \<Longrightarrow> incr * int (c * n) < 0"
      using assms by (auto simp: mult_neg_pos)
    have q': "c * q + c * n = c * (q + n)" by (simp add: distrib_left)
    have add: "?l q + incr * int (c * n) = ?l (q + n)" "?u q + incr * int (c * n) = ?u (q + n)"
      by (simp_all add: algebra_simps)
    have "chunk_loop (?l q) (?u q) (incr * int (c * n)) incr ?f =
        loop_iters (?l q) (if 0 < incr then min (?u q) ?f else max (?u q) ?f) incr @
        chunk_loop (?l (q + n)) (?u (q + n)) (incr * int (c * n)) incr ?f"
      unfolding add [symmetric] using reached True st assms(1)
      by (subst chunk_loop.simps) (cases "0 < incr", auto simp del: of_nat_mult mult_Suc_right)
    also have "chunk_loop (?l (q + n)) (?u (q + n)) (incr * int (c * n)) incr ?f =
        map (\<lambda>k. l + incr * int k) (filter (\<lambda>k. k div c mod n = t) [c * (q + n)..<tot])"
      using less.prems True assms nat_0_less_mult_iff [of c n]
      by (intro less.hyps) (auto simp: q' [symmetric] intro!: diff_less_mono2)
    also have "loop_iters (?l q) (if 0 < incr then min (?u q) ?f else max (?u q) ?f) incr =
        map (\<lambda>k. l + incr * int k) [c * q..<min (c * Suc q) tot]"
      using assms True by (intro loop_iters_clip) auto
    finally show ?thesis
      by (simp only: filter_chunk [OF assms(4,5) less.prems] map_append)
  qed
qed

lemma filter_upt_from:
  assumes "\<And>k. k < a \<Longrightarrow> \<not> P k"
  shows "filter P [0..<b] = filter P [a..<b]"
proof (cases "a \<le> b")
  case True
  then have "[0..<b] = [0..<a] @ [a..<b]" by (metis upt_add_eq_append le0 le_add_diff_inverse)
  then show ?thesis using assms by (simp add: filter_empty_conv)
next
  case False
  then show ?thesis using assms by (auto simp: filter_empty_conv)
qed

lemma final_bound_trips:
  assumes "loop_ok ty n lower upper incr" "trips lower upper incr = int tot"
  shows "upper = final_bound lower incr tot (\<bar>upper - lower\<bar> mod \<bar>incr\<bar>)"
proof -
  have "\<bar>upper - lower\<bar> = \<bar>incr\<bar> * (trips lower upper incr - 1) + \<bar>upper - lower\<bar> mod \<bar>incr\<bar>"
    by (simp add: trips_def)
  then show ?thesis
    using assms by (auto simp: loop_ok_def final_bound_def split: if_splits)
qed

lemma kmpc_chunked_piece:
  assumes ok: "chunk_ok ty (int n) (plower s) (pupper s) incr (int c)" and t: "t < n"
  assumes tot: "trips (plower s) (pupper s) incr = int tot"
  obtains s' where
      "kmpc_for_static_init ty (int n) (int t) kmp_sch_static_chunked incr (int c) s = Inr s'"
    and "chunk_loop (plower s') (pupper s') (pstride s') incr (pupper s) =
      map (\<lambda>k. plower s + incr * int k) (filter (\<lambda>k. k div c mod n = t) [0..<tot])"
    and "plastiter s' =
      map_option (\<lambda>_. if (tot - 1) div c mod n = t then 1 else 0) (plastiter s)"
proof -
  have lok: "loop_ok ty (int n) (plower s) (pupper s) incr" and c: "0 < c"
    using ok by (auto simp: chunk_ok_def)
  then have i: "incr \<noteq> 0" "0 < n" by (auto simp: loop_ok_def)
  let ?s = "s\<lparr>plower := plower s + incr * int (c * t),
    pupper := plower s + incr * (int (c * Suc t) - 1), pstride := incr * int (c * n)\<rparr>"
  have eq: "kmpc_for_static_init ty (int n) (int t) kmp_sch_static_chunked incr (int c) s =
      Inr (set_lastiter (t = (tot - 1) div c mod n) ?s)"
    using sched_static_chunked_ok [OF ok t tot refl] kmpc_total_trips_ok [OF lok] tot
    by (simp add: kmpc_for_static_init_def kmp_sch_static_def kmp_sch_static_chunked_def)
  have "k div c mod n \<noteq> t" if "k < c * t" for k
  proof -
    have "k div c < t" using that c by (simp add: div_less_iff_less_mult mult.commute)
    then show ?thesis using t by simp
  qed
  then have skip: "filter (\<lambda>k. k div c mod n = t) [0..<tot] =
      filter (\<lambda>k. k div c mod n = t) [c * t..<tot]"
    by (rule filter_upt_from)
  show thesis
  proof (rule that [OF eq])
    let ?r = "\<bar>pupper s - plower s\<bar> mod \<bar>incr\<bar>"
    show "chunk_loop (plower (set_lastiter (t = (tot - 1) div c mod n) ?s))
        (pupper (set_lastiter (t = (tot - 1) div c mod n) ?s))
        (pstride (set_lastiter (t = (tot - 1) div c mod n) ?s)) incr (pupper s) =
      map (\<lambda>k. plower s + incr * int k) (filter (\<lambda>k. k div c mod n = t) [0..<tot])"
      unfolding skip using chunk_loop_filter [OF i(1) _ _ c i(2), of ?r t t "plower s" tot] t i
        final_bound_trips [OF lok tot]
      by (simp del: of_nat_mult mult_Suc_right)
  qed (auto simp: set_lastiter_def)
qed

text \<open>
  An empty loop is not recognised when the increment is larger than the distance by which
  the bounds are crossed: the truncating division makes it one iteration long.
\<close>

lemma static_init_empty_loop:
  "loop_iters 1 0 5 = [] \<and>
   kmpc_for_static_init kmp_4 2 0 kmp_sch_static 5 0
     \<lparr>plastiter = None, plower = 1, pupper = 0, pstride = 1\<rparr> =
   Inr \<lparr>plastiter = None, plower = 1, pupper = 1, pstride = 1\<rparr>"
  by (simp add: loop_iters.simps kmpc_for_static_init_def kmpc_total_trips_def sched_static_few_def
    arith_def conv_def fits_def c_div_def signed_divide_int_def set_lastiter_def)

section \<open>Thread identity and dynamic schedules\<close>

definition kmpc_master :: "int \<Rightarrow> int" where
  "kmpc_master global_tid = (if global_tid = 0 then 1 else 0)"

text \<open>The entry points for dynamically scheduled loops assert that they are not reached.\<close>

definition kmpc_dispatch_init_4 :: "unit res" where
  "kmpc_dispatch_init_4 = Inl ASSERT_fail"

definition kmpc_dispatch_next_4 :: "int res" where
  "kmpc_dispatch_next_4 = Inl ASSERT_fail"

definition kmpc_dispatch_fini_4 :: "unit res" where
  "kmpc_dispatch_fini_4 = Inl ASSERT_fail"

end
