(* ===== verification/Cpuinfo.thy ===== *)
theory Cpuinfo
  imports Main "HOL-Library.Sublist"
begin

text \<open>
  The reading of \<open>/proc/cpuinfo\<close> that the migration library and the OpenMP runtime share: the
  lines, as \<open>fgets\<close> returns them, that contain the vendor string of an x86 processor.
\<close>

definition strstr :: "string \<Rightarrow> string \<Rightarrow> bool" where
  "strstr s t \<longleftrightarrow> sublist t s"

definition x86_lines :: "string list \<Rightarrow> nat" where
  "x86_lines ls = length (filter (\<lambda>l. strstr l ''GenuineIntel'' \<or> strstr l ''AuthenticAMD'') ls)"

lemma x86_lines_append [simp]: "x86_lines (ls @ ks) = x86_lines ls + x86_lines ks"
  by (simp add: x86_lines_def)

lemma x86_lines_none:
  "\<forall>l\<in>set ls. \<not> strstr l ''GenuineIntel'' \<and> \<not> strstr l ''AuthenticAMD'' \<Longrightarrow> x86_lines ls = 0"
  by (simp add: x86_lines_def)

end
