(* ===== verification/Bomp_Runtime.thy ===== *)
theory Bomp_Runtime
  imports Bomp_Pool Bomp_Loop Cpuinfo
begin

text \<open>
  The OpenMP runtime around the pool: the globals and the query and control functions of
  \<open>lib/libbomp/omp.c\<close>, the parallel regions of \<open>parallel.c\<close> and \<open>processing.c\<close>, the start-up
  of \<open>linux_backend.c\<close> and the private copies of \<open>kmp.c\<close>. The theory shows what a parallel
  region hands to the pool and restores, when the barrier fits the team that uses it, and
  the configurations in which the runtime goes wrong.
\<close>

section \<open>Globals\<close>

text \<open>
  The work descriptor that \<open>bomp_start_processing\<close> prepares for a thread; its barrier field is
  always the pool's global barrier. The pool's tasks are calls of \<open>bomp_thread_fn\<close> on one.
\<close>

record ('f, 'a) bomp_work =
  work_fn :: 'f
  work_data :: 'a
  work_thread_id :: nat

datatype entry = Bomp_thread_fn

type_synonym ('f, 'a) bomp_pool = "(entry, ('f, 'a) bomp_work) threadpool"

record ('f, 'a) omp_state =
  om_num_threads :: u32
  om_dynamic :: bool
  om_nested_behaviour :: bool
  om_thread_numbers :: u32
  om_nested :: int
  om_pool :: "('f, 'a) bomp_pool option"
  om_tls_array :: "('f, 'a) bomp_work option list option"

definition omp_initial :: "('f, 'a) omp_state" where
  "omp_initial = \<lparr>om_num_threads = 1, om_dynamic = False, om_nested_behaviour = False,
     om_thread_numbers = 1, om_nested = 0, om_pool = None, om_tls_array = None\<rparr>"

section \<open>Queries and settings\<close>

definition omp_get_num_threads :: "('f, 'a) omp_state \<Rightarrow> int" where
  "omp_get_num_threads g = sint (om_num_threads g)"

definition omp_get_max_threads :: "('f, 'a) omp_state \<Rightarrow> int" where
  "omp_get_max_threads g = sint (om_num_threads g)"

text \<open>\<open>tls\<close> is what the calling thread's \<open>backend_get_tls\<close> returns.\<close>

definition omp_get_thread_num :: "('f, 'a) omp_state \<Rightarrow> ('f, 'a) bomp_work option \<Rightarrow> nat res" where
  "omp_get_thread_num g tls =
     (if om_thread_numbers g = 1 then Inr 0
      else (case tls of None \<Rightarrow> Inl (UB Null_deref) | Some w \<Rightarrow> Inr (work_thread_id w)))"

definition omp_in_parallel :: "('f, 'a) omp_state \<Rightarrow> int" where
  "omp_in_parallel g = (if om_thread_numbers g = 1 then 0 else sint (om_thread_numbers g))"

definition omp_set_dynamic :: "int \<Rightarrow> ('f, 'a) omp_state \<Rightarrow> ('f, 'a) omp_state" where
  "omp_set_dynamic dynamic_threads g = g\<lparr>om_dynamic := dynamic_threads \<noteq> 0\<rparr>"

definition omp_get_dynamic :: "('f, 'a) omp_state \<Rightarrow> int" where
  "omp_get_dynamic g = (if om_dynamic g then 1 else 0)"

definition omp_set_nested :: "int \<Rightarrow> ('f, 'a) omp_state \<Rightarrow> ('f, 'a) omp_state" where
  "omp_set_nested nested g =
     (if nested = 0 then g\<lparr>om_nested_behaviour := False\<rparr> else g\<lparr>om_dynamic := True\<rparr>)"

definition omp_get_nested :: "('f, 'a) omp_state \<Rightarrow> int" where
  "omp_get_nested g = (if om_dynamic g then 1 else 0)"

text \<open>
  \<open>omp_set_num_threads\<close>; \<open>rc i\<close> is what \<open>pthread_create\<close> returns for handle \<open>i\<close>. When a
  worker cannot be created the pool is handed to \<open>threadpool_destroy\<close> and the function
  returns with the counters of the workers created so far, here as \<open>None\<close>.
\<close>

definition resize_threads :: "int \<Rightarrow> ('f, 'a) bomp_pool \<Rightarrow> ('f, 'a) bomp_pool" where
  "resize_threads n p = p\<lparr>tp_threads := take (nat n) (tp_threads p) @
     replicate (nat n - length (tp_threads p)) False\<rparr>"

definition set_team_size :: "int \<Rightarrow> ('f, 'a) bomp_pool \<Rightarrow> ('f, 'a) omp_state \<Rightarrow> ('f, 'a) omp_state" where
  "set_team_size n p g =
     g\<lparr>om_num_threads := of_int n,
       om_pool := Some (p\<lparr>tp_global_barrier := bomp_barrier_updateMax (tp_global_barrier p) n\<rparr>)\<rparr>"

definition omp_set_num_threads ::
    "(nat \<Rightarrow> int) \<Rightarrow> int \<Rightarrow> ('f, 'a) omp_state \<Rightarrow> ('f, 'a) omp_state option res" where
  "omp_set_num_threads rc num_threads g =
     (let now = omp_get_num_threads g in
      if now < num_threads then
        (case om_pool g of
           None \<Rightarrow> Inl (UB Null_deref)
         | Some p \<Rightarrow>
             if now < 1 then Inl (UB Out_of_bounds)
             else Inr (map_option (\<lambda>p'. set_team_size num_threads p' g)
                    (start_workers rc (nat (now - 1)) (nat (num_threads - now))
                      (resize_threads num_threads p))))
      else if num_threads = 1 \<or> num_threads < now then
        (case om_pool g of
           None \<Rightarrow> Inl (UB Null_deref)
         | Some p \<Rightarrow> Inr (Some (set_team_size num_threads p g)))
      else Inr (Some g))"

section \<open>Parallel regions\<close>

text \<open>
  \<open>bomp_set_tls\<close>: the thread's entry of the array of descriptors is filled in. The
  thread-specific pointer it also sets is the \<open>tls\<close> argument of the queries above.
\<close>

definition bomp_set_tls :: "('f, 'a) bomp_work \<Rightarrow> ('f, 'a) omp_state \<Rightarrow> ('f, 'a) omp_state res" where
  "bomp_set_tls w g =
     (case om_tls_array g of
        None \<Rightarrow> Inl (UB Null_deref)
      | Some arr \<Rightarrow>
          if work_thread_id w < length arr
          then Inr (g\<lparr>om_tls_array := Some (arr[work_thread_id w := Some w])\<rparr>)
          else Inl (UB Out_of_bounds))"

definition thread_work :: "'f \<Rightarrow> 'a \<Rightarrow> nat \<Rightarrow> ('f, 'a) bomp_work" where
  "thread_work fn data i = \<lparr>work_fn = fn, work_data = data, work_thread_id = i\<rparr>"

text \<open>The loop that adds the workers' tasks; the result of \<open>threadpool_add\<close> is ignored.\<close>

fun add_tasks :: "'f \<Rightarrow> 'a \<Rightarrow> nat \<Rightarrow> nat \<Rightarrow> ('f, 'a) bomp_pool option \<Rightarrow> ('f, 'a) bomp_pool option" where
  "add_tasks fn data i 0 pool = pool"
| "add_tasks fn data i (Suc k) pool =
     add_tasks fn data (i + 1) k
       (snd (threadpool_add pthread_ok pool (Some Bomp_thread_fn) (thread_work fn data i)))"

definition bomp_start_processing ::
    "'f \<Rightarrow> 'a \<Rightarrow> u32 \<Rightarrow> ('f, 'a) omp_state \<Rightarrow> ('f, 'a) omp_state res" where
  "bomp_start_processing fn data nthreads g =
     (let n = unat nthreads;
          g = g\<lparr>om_thread_numbers := nthreads, om_tls_array := Some (replicate n None)\<rparr> in
      if n = 0 then Inl (UB Out_of_bounds)
      else if om_pool g = None then Inl (UB Null_deref)
      else bindE (bomp_set_tls (thread_work fn data 0) g) (\<lambda>g.
           Inr (g\<lparr>om_pool := add_tasks fn data 1 (n - 1) (om_pool g)\<rparr>)))"

definition region_threads :: "u32 \<Rightarrow> ('f, 'a) omp_state \<Rightarrow> u32" where
  "region_threads nthreads g =
     (if nthreads = 0 \<or> om_dynamic g \<and> om_num_threads g < nthreads
      then om_num_threads g else nthreads)"

definition GOMP_parallel_start ::
    "'f \<Rightarrow> 'a \<Rightarrow> u32 \<Rightarrow> ('f, 'a) omp_state \<Rightarrow> ('f, 'a) omp_state res" where
  "GOMP_parallel_start fn data nthreads g =
     bindE (if omp_in_parallel g = 0 then
              bomp_start_processing fn data (region_threads nthreads g) g
            else Inr g) (\<lambda>g. Inr (g\<lparr>om_nested := om_nested g + 1\<rparr>))"

text \<open>
  What \<open>bomp_end_processing\<close> does once the barrier of thread \<open>0\<close>'s descriptor, at which it
  first waits, has let the master go.
\<close>

definition bomp_end_processing :: "('f, 'a) omp_state \<Rightarrow> ('f, 'a) omp_state res" where
  "bomp_end_processing g =
     (case om_tls_array g of
        None \<Rightarrow> Inl (UB Null_deref)
      | Some arr \<Rightarrow>
          bindE (array_get arr 0) (\<lambda>w.
          if w = None then Inl (UB Null_deref)
          else Inr (g\<lparr>om_tls_array := None, om_thread_numbers := 1\<rparr>)))"

definition GOMP_parallel_end :: "('f, 'a) omp_state \<Rightarrow> ('f, 'a) omp_state res" where
  "GOMP_parallel_end g =
     bindE (if om_nested g = 1 then bomp_end_processing g else Inr g) (\<lambda>g.
     Inr (g\<lparr>om_nested := om_nested g - 1\<rparr>))"

definition GOMP_single_start :: "('f, 'a) bomp_work option \<Rightarrow> bool" where
  "GOMP_single_start tls = (case tls of None \<Rightarrow> True | Some w \<Rightarrow> work_thread_id w = 0)"

section \<open>Start-up\<close>

text \<open>
  \<open>backend_init\<close>: \<open>cpuinfo\<close> is the sequence of lines \<open>fgets\<close> returns for \<open>/proc/cpuinfo\<close>, or
  \<open>None\<close> when the file cannot be opened.
\<close>

definition count_cores :: "string list option \<Rightarrow> int" where
  "count_cores cpuinfo =
     (case cpuinfo of
        None \<Rightarrow> 1
      | Some ls \<Rightarrow> int (x86_lines ls))"

definition backend_init ::
    "create_env \<Rightarrow> string list option \<Rightarrow> ('f, 'a) omp_state \<Rightarrow> ('f, 'a) omp_state" where
  "backend_init env cpuinfo g =
     (let (pool, n) = threadpool_create env (om_num_threads g) (count_cores cpuinfo - 1) 1024 in
      g\<lparr>om_pool := pool, om_num_threads := n\<rparr>)"

section \<open>A parallel region\<close>

definition region_task ::
    "'f \<Rightarrow> 'a \<Rightarrow> nat \<Rightarrow> (entry, ('f, 'a) bomp_work) threadpool_task" where
  "region_task fn data i = \<lparr>task_fn = Bomp_thread_fn, task_args = thread_work fn data i\<rparr>"

lemma queue_put_global_barrier [simp]:
  "tp_global_barrier (queue_put p t) = tp_global_barrier p"
  "tp_queue_size (queue_put p t) = tp_queue_size p" "tp_count (queue_put p t) = tp_count p + 1"
  by (simp_all add: queue_put_def)

lemma add_tasks_ok:
  assumes "ring_wf p" "tp_shutdown p = 0" "tp_count p + int k \<le> tp_queue_size p"
  shows "\<exists>p'. add_tasks fn data i k (Some p) = Some p' \<and> ring_wf p' \<and>
    ring_items p' = ring_items p @ map (region_task fn data) [i..<i + k] \<and>
    tp_shutdown p' = 0 \<and> tp_global_barrier p' = tp_global_barrier p"
  using assms
proof (induction k arbitrary: i p)
  case (Suc k)
  let ?p = "queue_put p (region_task fn data i)"
  have room: "tp_count p \<noteq> tp_queue_size p" using Suc.prems by simp
  have put: "ring_wf ?p" "ring_items ?p = ring_items p @ [region_task fn data i]"
    using ring_put [of p "region_task fn data i"] Suc.prems(1) room by (auto simp: ring_room_def)
  have "threadpool_add pthread_ok (Some p) (Some Bomp_thread_fn) (thread_work fn data i) = (0, Some ?p)"
    using room Suc.prems by (simp add: threadpool_add_0 region_task_def)
  moreover obtain p' where "add_tasks fn data (i + 1) k (Some ?p) = Some p'" "ring_wf p'"
      "ring_items p' = ring_items ?p @ map (region_task fn data) [i + 1..<i + 1 + k]"
      "tp_shutdown p' = 0" "tp_global_barrier p' = tp_global_barrier ?p"
    using Suc.IH [of ?p "i + 1"] put Suc.prems by auto
  ultimately show ?case
    using put(2) by (simp add: upt_conv_Cons del: upt_Suc)
qed simp

lemma bomp_start_processing_ok:
  assumes "om_pool g = Some p" "ring_wf p" "tp_shutdown p = 0" "n \<noteq> 0"
    "tp_count p + int (unat n) \<le> tp_queue_size p + 1"
  shows "\<exists>p'. bomp_start_processing fn data n g =
      Inr (g\<lparr>om_thread_numbers := n, om_pool := Some p',
        om_tls_array := Some ((replicate (unat n) None)[0 := Some (thread_work fn data 0)])\<rparr>) \<and>
    ring_wf p' \<and> ring_items p' = ring_items p @ map (region_task fn data) [1..<unat n] \<and>
    tp_global_barrier p' = tp_global_barrier p"
proof -
  have n: "0 < unat n" using assms(4) by (simp add: unat_gt_0)
  then obtain p' where "add_tasks fn data 1 (unat n - 1) (Some p) = Some p'" "ring_wf p'"
      "ring_items p' = ring_items p @ map (region_task fn data) [1..<unat n]"
      "tp_global_barrier p' = tp_global_barrier p"
    using add_tasks_ok [OF assms(2,3), of "unat n - 1" fn data 1] assms(5) by auto
  with n assms(1) show ?thesis
    by (intro exI [of _ p']) (simp add: bomp_start_processing_def bomp_set_tls_def thread_work_def)
qed

lemma parallel_region:
  assumes "om_thread_numbers g = 1" "om_nested g = 0" "om_pool g = Some p" "ring_wf p"
    "tp_shutdown p = 0" "om_num_threads g \<noteq> 0"
    "n = region_threads nthreads g" "tp_count p + int (unat n) \<le> tp_queue_size p + 1"
  shows "\<exists>g' p'. GOMP_parallel_start fn data nthreads g = Inr g' \<and> om_pool g' = Some p' \<and>
    ring_items p' = ring_items p @ map (region_task fn data) [1..<unat n] \<and>
    om_thread_numbers g' = n \<and> om_num_threads g' = om_num_threads g \<and>
    tp_global_barrier p' = tp_global_barrier p \<and>
    GOMP_parallel_end g' = Inr (g\<lparr>om_pool := Some p', om_tls_array := None\<rparr>)"
proof -
  have "n \<noteq> 0" using assms(6,7) by (auto simp: region_threads_def)
  then obtain p' where p': "bomp_start_processing fn data n g =
      Inr (g\<lparr>om_thread_numbers := n, om_pool := Some p',
        om_tls_array := Some ((replicate (unat n) None)[0 := Some (thread_work fn data 0)])\<rparr>)"
      "ring_items p' = ring_items p @ map (region_task fn data) [1..<unat n]"
      "tp_global_barrier p' = tp_global_barrier p"
    using bomp_start_processing_ok [OF assms(3-5)] assms(8) by blast
  have "0 < unat n" using \<open>n \<noteq> 0\<close> by (simp add: unat_gt_0)
  then show ?thesis
    using p' assms(1,2,7)
    by (auto simp: GOMP_parallel_start_def omp_in_parallel_def GOMP_parallel_end_def
      bomp_end_processing_def)
qed

section \<open>The size of the team and of its barrier\<close>

lemma set_team_size_simps [simp]:
  "om_num_threads (set_team_size n p g) = of_int n"
  "om_pool (set_team_size n p g) =
     Some (p\<lparr>tp_global_barrier := (tp_global_barrier p)\<lparr>bar_max := of_int n\<rparr>\<rparr>)"
  by (simp_all add: set_team_size_def bomp_barrier_updateMax_def)

lemma start_workers_total:
  "(\<And>i. rc i = 0) \<Longrightarrow> \<exists>q. start_workers rc i k p = Some q \<and>
   tp_global_barrier q = tp_global_barrier p \<and> tp_thread_count q = tp_thread_count p + int k \<and>
   length (tp_threads q) = length (tp_threads p)"
proof (induction k arbitrary: i p)
  case (Suc k)
  then show ?case by (fastforce simp: algebra_simps)
qed simp

lemma omp_set_num_threads_team:
  assumes "om_pool g = Some p" "1 \<le> omp_get_num_threads g" "1 \<le> n" "n < 2 ^ 31"
    "n \<noteq> omp_get_num_threads g"
  shows "\<exists>g' p'. omp_set_num_threads (\<lambda>_. 0) n g = Inr (Some g') \<and> om_pool g' = Some p' \<and>
    omp_get_num_threads g' = n \<and>
    tp_global_barrier p' = (tp_global_barrier p)\<lparr>bar_max := of_int n\<rparr>"
proof -
  have n: "sint (of_int n :: u32) = n"
    using assms(3,4) by (simp add: sint_sbintrunc' signed_take_bit_int_eq_self)
  have "tp_global_barrier (resize_threads n p) = tp_global_barrier p"
    by (simp add: resize_threads_def)
  then show ?thesis
    using assms n start_workers_total [of "\<lambda>_. 0" "nat (omp_get_num_threads g - 1)"
      "nat (n - omp_get_num_threads g)" "resize_threads n p"]
    by (auto simp: omp_set_num_threads_def Let_def omp_get_num_threads_def)
qed

text \<open>A negative number of threads is not refused: the test for it comes after the one for a smaller team.\<close>

lemma omp_set_num_threads_negative:
  assumes "om_pool g = Some p" "0 \<le> omp_get_num_threads g" "n < 0"
  shows "omp_set_num_threads rc n g = Inr (Some (set_team_size n p g))"
  using assms by (simp add: omp_set_num_threads_def Let_def)

text \<open>
  Shrinking the team and growing it again starts new workers for handles in use: the count of
  workers then exceeds the array of handles, and \<open>threadpool_destroy\<close> reads past its end.
\<close>

lemma shrink_and_grow:
  assumes "om_pool g = Some p" "omp_get_num_threads g = int c" "0 < m" "m < c" "c < 2 ^ 31"
    "tp_thread_count p = int c - 1"
  shows "\<exists>g1 g2 q. omp_set_num_threads (\<lambda>_. 0) (int m) g = Inr (Some g1) \<and>
    omp_set_num_threads (\<lambda>_. 0) (int c) g1 = Inr (Some g2) \<and> om_pool g2 = Some q \<and>
    tp_thread_count q = 2 * int c - 1 - int m \<and> length (tp_threads q) = c"
proof -
  let ?b = "(tp_global_barrier p)\<lparr>bar_max := of_int (int m)\<rparr>"
  let ?p = "p\<lparr>tp_global_barrier := ?b\<rparr>"
  have m: "sint (of_int (int m) :: u32) = int m"
    using assms by (simp only: sint_sbintrunc') (simp add: signed_take_bit_int_eq_self)
  obtain g1 where g1: "omp_set_num_threads (\<lambda>_. 0) (int m) g = Inr (Some g1)"
      "om_pool g1 = Some ?p" "omp_get_num_threads g1 = int m"
    using assms m by (auto simp: omp_set_num_threads_def omp_get_num_threads_def)
  obtain q where q: "start_workers (\<lambda>_. 0) (nat (int m - 1)) (nat (int c - int m))
      (resize_threads (int c) ?p) = Some q"
      "tp_thread_count q = tp_thread_count ?p + (int c - int m)" "length (tp_threads q) = c"
    using start_workers_total [of "\<lambda>_. 0" "nat (int m - 1)" "nat (int c - int m)"
      "resize_threads (int c) ?p"] assms
    by (auto simp: resize_threads_def min_def)
  have "omp_set_num_threads (\<lambda>_. 0) (int c) g1 = Inr (Some (set_team_size (int c) q g1))"
    using g1 q(1) assms by (simp add: omp_set_num_threads_def)
  with g1 q assms show ?thesis by auto
qed

lemma join_workers_overrun:
  "i \<le> length ts \<Longrightarrow> i + k > length ts \<Longrightarrow> \<forall>t\<in>set ts. t \<Longrightarrow> join_workers rc ts i k r = Inl (UB Out_of_bounds)"
proof (induction k arbitrary: i r)
  case (Suc k)
  then show ?case by (cases "i < length ts") (auto simp: array_get_def)
qed simp

section \<open>The barrier the pool is created with\<close>

text \<open>
  After start-up on \<open>c\<close> cores the team has \<open>c\<close> threads, the master and \<open>c - 1\<close> workers, but
  the barrier is initialised for the workers alone.
\<close>

lemma backend_init_sizes:
  fixes g :: "('f, 'a) omp_state"
  assumes "count_cores cpuinfo = int c" "2 \<le> c" "c < 2 ^ 31"
  shows "\<exists>p. om_pool (backend_init create_ok cpuinfo g) = Some p \<and>
    tp_global_barrier p = bomp_barrier_init (int c - 1) \<and> fresh_pool (c - 1) 1024 p \<and>
    omp_get_num_threads (backend_init create_ok cpuinfo g) = int c"
proof -
  have c: "int c - 1 = int (c - 1)" "0 < c - 1" using assms(2) by auto
  obtain p :: "('f, 'a) bomp_pool" where p: "threadpool_create create_ok (om_num_threads g) (int (c - 1)) 1024 =
      (Some p, of_nat (c - 1) + 1)" "fresh_pool (c - 1) 1024 p"
    using threadpool_create_fresh [OF c(2), of 1024] by auto
  have "of_nat (c - 1) + 1 = (of_int (int c) :: u32)" using c(2) by (simp add: of_nat_diff)
  then have eq: "threadpool_create create_ok (om_num_threads g) (count_cores cpuinfo - 1) 1024 =
      (Some p, of_int (int c))"
    using p(1) by (simp only: assms(1) c(1))
  have "sint (of_int (int c) :: u32) = int c"
    using assms(3) by (simp only: sint_sbintrunc') (simp add: signed_take_bit_int_eq_self)
  moreover have "tp_global_barrier p = bomp_barrier_init (int c - 1)"
    using p(2) c(1) by (simp only: fresh_pool_def)
  ultimately show ?thesis
    using p(2) unfolding backend_init_def eq Let_def prod.case omp_get_num_threads_def
    by (intro exI [of _ p]) simp
qed

text \<open>With the barrier one short, the first threads to arrive leave without the last.\<close>

definition early_schedule :: "nat \<Rightarrow> nat list" where
  "early_schedule n = concat (map (\<lambda>i. [i, i]) [0..<n]) @ replicate 5 n"

lemma team_step_at:
  "team_step (length xs) \<lparr>tm_barrier = b, tm_threads = xs @ (pc, d) # ys\<rparr> =
   (let (b', pc') = bomp_barrier_wait b pc in
    \<lparr>tm_barrier = b', tm_threads = xs @ (pc', if returns pc pc' then d + 1 else d) # ys\<rparr>)"
  by (simp add: team_step_def Let_def split: prod.split)

lemma early_arrivals:
  assumes "k \<le> n" "n < 2 ^ 32 - 1"
  shows "run team_step (concat (map (\<lambda>i. [i, i]) [0..<k])) (team_init (n + 2) (int n + 1)) =
    \<lparr>tm_barrier = \<lparr>bar_max = of_nat n + 1, bar_cycle = 0, bar_counter = of_nat k\<rparr>,
     tm_threads = replicate k (B_spin 0, 0) @ replicate (n + 2 - k) (B_out, 0)\<rparr>"
  using assms
proof (induction k)
  case 0
  then show ?case by (simp add: team_init_def bomp_barrier_init_def)
next
  case (Suc k)
  have split: "replicate (n + 2 - k) (B_out, 0::nat) = (B_out, 0) # replicate (n + 1 - k) (B_out, 0)"
  proof -
    have "n + 2 - k = Suc (n + 1 - k)" using Suc.prems(1) by simp
    then show ?thesis by (simp only: replicate_Suc)
  qed
  have ne: "of_nat k \<noteq> (of_nat n :: u32)"
  proof -
    have "unat (of_nat k :: u32) = k" "unat (of_nat n :: u32) = n"
      using Suc.prems by (simp_all add: unat_of_nat)
    moreover have "k \<noteq> n" using Suc.prems by simp
    ultimately show ?thesis by metis
  qed
  let ?xs = "replicate k (B_spin 0, 0 :: nat)" and ?ys = "replicate (n + 1 - k) (B_out, 0 :: nat)"
  let ?b = "\<lparr>bar_max = of_nat n + 1, bar_cycle = 0, bar_counter = of_nat k\<rparr> :: bomp_barrier"
  have "team_step k (team_step k \<lparr>tm_barrier = ?b, tm_threads = ?xs @ (B_out, 0) # ?ys\<rparr>) =
      \<lparr>tm_barrier = ?b\<lparr>bar_counter := of_nat k + 1\<rparr>, tm_threads = ?xs @ (B_spin 0, 0) # ?ys\<rparr>"
    using ne team_step_at [of ?xs] by (simp add: returns_def)
  then show ?case
    using Suc split by (simp add: run_append replicate_app_Cons_same add.commute)
qed

lemma early_release:
  assumes "n < 2 ^ 32 - 1"
  shows "tm_threads (run team_step (early_schedule n) (team_init (n + 2) (int n + 1))) =
    replicate n (B_spin 0, 0) @ [(B_out, 1), (B_out, 0)]"
proof -
  let ?xs = "replicate n (B_spin 0, 0 :: nat)" and ?ys = "[(B_out, 0 :: nat)]"
  have st: "run team_step (concat (map (\<lambda>i. [i, i]) [0..<n])) (team_init (n + 2) (int n + 1)) =
      \<lparr>tm_barrier = \<lparr>bar_max = of_nat n + 1, bar_cycle = 0, bar_counter = of_nat n\<rparr>,
       tm_threads = ?xs @ (B_out, 0) # ?ys\<rparr>"
    using early_arrivals [of n n] assms by (simp add: numeral_2_eq_2)
  have five: "replicate 5 n = [n, n, n, n, n]" by (simp add: eval_nat_numeral)
  show ?thesis
    unfolding early_schedule_def run_append st five
    using team_step_at [of ?xs _ _ _ ?ys] by (simp add: returns_def)
qed

section \<open>Start-up on other machines\<close>

text \<open>
  Cores are counted by the vendor strings of x86 processors. Where none is found there is no
  pool, and the first parallel region follows the null pointer.
\<close>

lemma backend_init_no_pool:
  assumes "count_cores cpuinfo \<le> 1"
  shows "backend_init env cpuinfo g = g\<lparr>om_pool := None\<rparr>"
  using assms by (simp add: backend_init_def threadpool_create_def)

lemma parallel_start_without_pool:
  assumes "om_pool g = None" "om_thread_numbers g = 1" "region_threads nthreads g \<noteq> 0"
  shows "GOMP_parallel_start fn data nthreads g = Inl (UB Null_deref)"
  using assms
  by (simp add: GOMP_parallel_start_def omp_in_parallel_def bomp_start_processing_def unat_eq_zero)

section \<open>Calls of the compiler's interface\<close>

text \<open>
  How \<open>__kmpc_fork_call\<close> passes the shared variables: several as an array, one as itself.
  Reading a variable argument that was not passed is undefined.
\<close>

datatype 'a shared_data = Shared_array "'a list" | Shared_one 'a

definition kmpc_fork_args :: "nat \<Rightarrow> 'a list \<Rightarrow> 'a shared_data res" where
  "kmpc_fork_args argc varargs =
     (if argc > 1 then
        (if argc \<le> length varargs then Inr (Shared_array (take argc varargs))
         else Inl (UB Out_of_bounds))
      else bindE (array_get varargs 0) (\<lambda>a. Inr (Shared_one a)))"

text \<open>
  \<open>__kmpc_fork_call\<close>: the globals after the region, with the master's own run of the task
  between its start and its end; the task is an argument.
\<close>

definition kmpc_fork_call ::
    "nat \<Rightarrow> 'f \<Rightarrow> 'a list \<Rightarrow>
     ('f \<Rightarrow> 'a shared_data \<Rightarrow> ('f, 'a shared_data) omp_state \<Rightarrow> ('f, 'a shared_data) omp_state res) \<Rightarrow>
     ('f, 'a shared_data) omp_state \<Rightarrow> ('f, 'a shared_data) omp_state res" where
  "kmpc_fork_call argc microtask varargs run_task g =
     bindE (kmpc_fork_args argc varargs) (\<lambda>shared.
     bindE (GOMP_parallel_start microtask shared (om_num_threads g) g) (\<lambda>g.
     bindE (run_task microtask shared g) (\<lambda>g. GOMP_parallel_end g)))"

text \<open>
  \<open>__kmpc_threadprivate_cached\<close>: the per-variable cache has one pointer per thread; a block is
  allocated and filled from the original on a thread's first access.
\<close>

definition KMP_MAX_THREADS :: nat where
  "KMP_MAX_THREADS = 128"

record 'd priv_heap =
  ph_blocks :: "nat \<rightharpoonup> 'd"
  ph_next :: nat

type_synonym cache = "nat option list option"

definition kmpc_threadprivate_cached ::
    "nat \<Rightarrow> 'd \<Rightarrow> cache \<Rightarrow> 'd priv_heap \<Rightarrow> (nat \<times> cache \<times> 'd priv_heap) res" where
  "kmpc_threadprivate_cached global_tid data cache h =
     (let arr = (case cache of None \<Rightarrow> replicate KMP_MAX_THREADS None | Some arr \<Rightarrow> arr) in
      bindE (array_get arr global_tid) (\<lambda>ret.
      case ret of
        Some a \<Rightarrow> Inr (a, Some arr, h)
      | None \<Rightarrow>
          Inr (ph_next h, Some (arr[global_tid := Some (ph_next h)]),
               h\<lparr>ph_blocks := (ph_blocks h)(ph_next h \<mapsto> data), ph_next := Suc (ph_next h)\<rparr>)))"

definition cache_ok :: "cache \<Rightarrow> 'd priv_heap \<Rightarrow> bool" where
  "cache_ok cache h \<longleftrightarrow>
     (\<forall>arr. cache = Some arr \<longrightarrow> length arr = KMP_MAX_THREADS \<and>
        (\<forall>i<length arr. \<forall>a. arr ! i = Some a \<longrightarrow> a < ph_next h \<and> ph_blocks h a \<noteq> None) \<and>
        (\<forall>i<length arr. \<forall>j<length arr. arr ! i \<noteq> None \<longrightarrow> arr ! i = arr ! j \<longrightarrow> i = j))"

lemma threadprivate_first_access:
  assumes "cache_ok cache h" "tid < KMP_MAX_THREADS"
    "cache = None \<or> the cache ! tid = None"
  shows "\<exists>c' h'. kmpc_threadprivate_cached tid data cache h = Inr (ph_next h, c', h') \<and>
    cache_ok c' h' \<and> ph_blocks h' = (ph_blocks h)(ph_next h \<mapsto> data) \<and>
    kmpc_threadprivate_cached tid data' c' h' = Inr (ph_next h, c', h')"
proof -
  define arr where "arr = (case cache of None \<Rightarrow> replicate KMP_MAX_THREADS None | Some arr \<Rightarrow> arr)"
  have arr: "length arr = KMP_MAX_THREADS" "arr ! tid = None"
    "\<forall>i<length arr. \<forall>a. arr ! i = Some a \<longrightarrow> a < ph_next h \<and> ph_blocks h a \<noteq> None"
    "\<forall>i<length arr. \<forall>j<length arr. arr ! i \<noteq> None \<longrightarrow> arr ! i = arr ! j \<longrightarrow> i = j"
    using assms by (auto simp: arr_def cache_ok_def split: option.splits)
  let ?c = "Some (arr[tid := Some (ph_next h)])"
  let ?h = "h\<lparr>ph_blocks := (ph_blocks h)(ph_next h \<mapsto> data), ph_next := Suc (ph_next h)\<rparr>"
  have "kmpc_threadprivate_cached tid data cache h = Inr (ph_next h, ?c, ?h)"
    using arr(1,2) assms(2)
    by (simp add: kmpc_threadprivate_cached_def arr_def [symmetric])
  moreover have "\<And>j. j < KMP_MAX_THREADS \<Longrightarrow> Some (ph_next h) \<noteq> arr ! j"
    using arr(1,3) by (metis less_irrefl)
  then have "cache_ok ?c ?h"
    using arr assms(2) by (auto simp: cache_ok_def nth_list_update less_Suc_eq split: if_splits)
  moreover have "kmpc_threadprivate_cached tid data' ?c ?h = Inr (ph_next h, ?c, ?h)"
    using arr(1) assms(2) by (simp add: kmpc_threadprivate_cached_def)
  ultimately show ?thesis by auto
qed

section \<open>Constructor and destructor\<close>

text \<open>
  \<open>threadpool_destroy\<close> as one call: \<open>workers\<close> is what the workers do to the pool while the caller
  joins them. The flag is whether the pool was freed, \<open>None\<close> that the call does not return.
\<close>

definition threadpool_destroy ::
    "pthread_env \<Rightarrow> (nat \<Rightarrow> int) \<Rightarrow> (('f, 'a) threadpool \<Rightarrow> ('f, 'a) threadpool) \<Rightarrow> ('f, 'a) threadpool option \<Rightarrow>
     (int \<times> bool) option res" where
  "threadpool_destroy env join_rc workers pool =
     (case threadpool_destroy_begin env pool of
        Destroy_return r \<Rightarrow> Inr (Some (r, False))
      | Destroy_skip p \<Rightarrow> threadpool_destroy_end join_rc 0 False p
      | Destroy_join r p \<Rightarrow> threadpool_destroy_end join_rc r True (workers p))"

definition backend_exit ::
    "pthread_env \<Rightarrow> (nat \<Rightarrow> int) \<Rightarrow> (('f, 'a) bomp_pool \<Rightarrow> ('f, 'a) bomp_pool) \<Rightarrow> ('f, 'a) omp_state \<Rightarrow>
     (int \<times> bool) option res" where
  "backend_exit env join_rc workers g = threadpool_destroy env join_rc workers (om_pool g)"

text \<open>\<open>parallel_init\<close> initialises two locks whose initialiser does nothing.\<close>

definition bomp_custom_init ::
    "create_env \<Rightarrow> string list option \<Rightarrow> ('f, 'a) omp_state \<Rightarrow> ('f, 'a) omp_state" where
  "bomp_custom_init env cpuinfo g = backend_init env cpuinfo g"

definition bomp_custom_exit ::
    "pthread_env \<Rightarrow> (nat \<Rightarrow> int) \<Rightarrow> (('f, 'a) bomp_pool \<Rightarrow> ('f, 'a) bomp_pool) \<Rightarrow> ('f, 'a) omp_state \<Rightarrow>
     (int \<times> bool) option res" where
  "bomp_custom_exit env join_rc workers g = backend_exit env join_rc workers g"

definition omp_get_num_procs :: int where
  "omp_get_num_procs = 1"

text \<open>
  A pool of \<open>c - 1\<close> workers that have all ended is joined and freed when the program exits; on
  a machine without a pool the destructor reports an invalid one.
\<close>

lemma custom_init_exit:
  fixes g :: "('f, 'a) omp_state"
  assumes "count_cores cpuinfo = int c" "2 \<le> c" "c < 2 ^ 31"
  shows "bomp_custom_exit pthread_ok (\<lambda>_. 0) (\<lambda>p. p\<lparr>tp_started := 0\<rparr>) (bomp_custom_init create_ok cpuinfo g) =
    Inr (Some (0, True))"
proof -
  obtain p where p: "om_pool (backend_init create_ok cpuinfo g) = Some p" "fresh_pool (c - 1) 1024 p"
    using backend_init_sizes[OF assms] by blast
  then show ?thesis
    by (simp add: bomp_custom_exit_def bomp_custom_init_def backend_exit_def threadpool_destroy_def threadpool_destroy_begin_def
        fresh_pool_def pthread_ok_def threadpool_destroy_end_def join_workers_ok threadpool_free_def)
qed

lemma custom_exit_no_pool:
  assumes "count_cores cpuinfo \<le> 1"
  shows "bomp_custom_exit penv join_rc workers (bomp_custom_init env cpuinfo g) = Inr (Some (threadpool_invalid, False))"
  using assms
  by (simp add: bomp_custom_exit_def bomp_custom_init_def backend_exit_def threadpool_destroy_def threadpool_destroy_begin_def
      backend_init_no_pool)

end
