(* ===== verification/Bomp_Team.thy ===== *)
theory Bomp_Team
  imports Bomp_Runtime
begin

text \<open>
  The synchronisation calls the compiler places in a parallel region: the entry points of
  \<open>lib/libbomp/parallel.c\<close> and \<open>kmp.c\<close> for critical sections, atomic updates, ordered
  sections, barriers and reductions, and \<open>bomp_thread_fn\<close> of \<open>processing.c\<close>, which a worker runs.
  A call is the list of the synchronisation operations it performs; a team of threads runs
  its code by interleaved steps on two spin locks and a barrier, each step one access
  to shared memory. The theory shows that a reduction is exact: no contribution is lost and no
  thread leaves the reduction before all have contributed, with the lock of either architecture.
\<close>

section \<open>Operations\<close>

datatype lock_name = Critical_lock | Atomic_lock

text \<open>
  \<open>Op_load\<close> and \<open>Op_store v\<close> are the program's own code: a thread reads the shared variable into
  a register and writes the register combined with its value \<open>v\<close>.
\<close>

datatype 'v sync_op = Op_lock lock_name | Op_unlock lock_name | Op_barrier | Op_load | Op_store 'v

definition GOMP_critical_start :: "'v sync_op list" where
  "GOMP_critical_start = [Op_lock Critical_lock]"

definition GOMP_critical_end :: "'v sync_op list" where
  "GOMP_critical_end = [Op_unlock Critical_lock]"

definition GOMP_atomic_start :: "'v sync_op list" where
  "GOMP_atomic_start = [Op_lock Atomic_lock]"

definition GOMP_atomic_end :: "'v sync_op list" where
  "GOMP_atomic_end = [Op_unlock Atomic_lock]"

definition GOMP_ordered_start :: "'v sync_op list" where
  "GOMP_ordered_start = []"

definition GOMP_ordered_end :: "'v sync_op list" where
  "GOMP_ordered_end = []"

text \<open>The barrier of a thread's descriptor is always the pool's; \<open>assert\<close> stops a thread without one.\<close>

definition GOMP_barrier :: "('f, 'a) bomp_work option \<Rightarrow> 'v sync_op list res" where
  "GOMP_barrier tls = (case tls of None \<Rightarrow> Inl ASSERT_fail | Some w \<Rightarrow> Inr [Op_barrier])"

section \<open>The compiler's interface\<close>

definition kmp_wrapper_fn ::
    "('f, 'a) omp_state \<Rightarrow> ('f, 'a) bomp_work option \<Rightarrow> (nat \<Rightarrow> nat \<Rightarrow> 'd \<Rightarrow> 'r) \<Rightarrow> 'd \<Rightarrow> 'r res" where
  "kmp_wrapper_fn g tls task data = bindE (omp_get_thread_num g tls) (\<lambda>tid. Inr (task tid tid data))"

definition kmpc_for_static_fini :: "'v sync_op list" where
  "kmpc_for_static_fini = []"

definition kmpc_ordered :: "'v sync_op list" where
  "kmpc_ordered = GOMP_ordered_start"

definition kmpc_end_ordered :: "'v sync_op list" where
  "kmpc_end_ordered = GOMP_ordered_end"

definition kmpc_critical :: "'v sync_op list" where
  "kmpc_critical = GOMP_critical_start"

definition kmpc_end_critical :: "'v sync_op list" where
  "kmpc_end_critical = GOMP_critical_end"

definition kmpc_end_master :: "'v sync_op list" where
  "kmpc_end_master = []"

definition kmpc_cancel_barrier :: "('f, 'a) bomp_work option \<Rightarrow> (int \<times> 'v sync_op list) res" where
  "kmpc_cancel_barrier tls = bindE (GOMP_barrier tls) (\<lambda>ops. Inr (0, ops))"

definition kmpc_barrier :: "('f, 'a) bomp_work option \<Rightarrow> 'v sync_op list res" where
  "kmpc_barrier tls = GOMP_barrier tls"

definition kmpc_reduce :: "int \<times> 'v sync_op list" where
  "kmpc_reduce = (1, GOMP_critical_start)"

definition kmpc_end_reduce :: "('f, 'a) bomp_work option \<Rightarrow> 'v sync_op list res" where
  "kmpc_end_reduce tls = bindE (GOMP_barrier tls) (\<lambda>ops. Inr (GOMP_critical_end @ ops))"

definition kmpc_reduce_nowait :: "int \<times> 'v sync_op list" where
  "kmpc_reduce_nowait = (1, GOMP_critical_start)"

definition kmpc_end_reduce_nowait :: "'v sync_op list" where
  "kmpc_end_reduce_nowait = GOMP_critical_end"

definition kmpc_global_thread_num :: "('f, 'a) omp_state \<Rightarrow> ('f, 'a) bomp_work option \<Rightarrow> nat res" where
  "kmpc_global_thread_num g tls = omp_get_thread_num g tls"

text \<open>A thread of the region: its descriptor is published, its function run, then it waits for the team.\<close>

definition bomp_thread_fn ::
    "('f \<Rightarrow> 'a \<Rightarrow> ('f, 'a) bomp_work option \<Rightarrow> 'v sync_op list res) \<Rightarrow> ('f, 'a) bomp_work \<Rightarrow>
     ('f, 'a) omp_state \<Rightarrow> (('f, 'a) omp_state \<times> 'v sync_op list) res" where
  "bomp_thread_fn fn w g =
     bindE (bomp_set_tls w g) (\<lambda>g.
     bindE (fn (work_fn w) (work_data w) (Some w)) (\<lambda>ops. Inr (g, ops @ [Op_barrier])))"

text \<open>
  The statistics \<open>bomp_barrier_wait\<close> keeps of long waits: an array of 64 counters, indexed by the
  thread's number.
\<close>

definition note_stuck :: "nat \<Rightarrow> nat \<Rightarrow> u64 list \<Rightarrow> u64 list res" where
  "note_stuck tid waitcnt stuck =
     (if 10000000 < waitcnt then bindE (array_get stuck tid) (\<lambda>k. Inr (stuck[tid := k + 1])) else Inr stuck)"

section \<open>Leaving the team\<close>

text \<open>\<open>omp_kill_thread\<close> ends the calling thread, here \<open>False\<close>, when its number is not below the new size.\<close>

definition omp_kill_thread :: "('f, 'a) omp_state \<Rightarrow> ('f, 'a) bomp_work option \<Rightarrow> int \<Rightarrow> bool res" where
  "omp_kill_thread g tls new_num = bindE (omp_get_thread_num g tls) (\<lambda>me. Inr (int me < new_num))"

section \<open>A team at work\<close>

text \<open>
  The lock machine is a parameter: \<open>lstep i\<close> is a step of thread \<open>i\<close> inside \<open>bomp_lock\<close> or
  \<open>bomp_unlock\<close>, \<open>held i\<close> tells whether \<open>bomp_lock\<close> has returned.
\<close>

record ('l, 'v) omp_team =
  ot_critical :: 'l
  ot_atomic :: 'l
  ot_team :: team
  ot_shared :: 'v
  ot_code :: "'v sync_op list list"
  ot_regs :: "'v list"

definition ot_lock :: "lock_name \<Rightarrow> ('l, 'v) omp_team \<Rightarrow> 'l" where
  "ot_lock n s = (case n of Critical_lock \<Rightarrow> ot_critical s | Atomic_lock \<Rightarrow> ot_atomic s)"

definition set_ot_lock :: "lock_name \<Rightarrow> 'l \<Rightarrow> ('l, 'v) omp_team \<Rightarrow> ('l, 'v) omp_team" where
  "set_ot_lock n l s = (case n of Critical_lock \<Rightarrow> s\<lparr>ot_critical := l\<rparr> | Atomic_lock \<Rightarrow> s\<lparr>ot_atomic := l\<rparr>)"

definition next_op :: "nat \<Rightarrow> 'v sync_op list \<Rightarrow> ('l, 'v) omp_team \<Rightarrow> ('l, 'v) omp_team" where
  "next_op i rest s = s\<lparr>ot_code := (ot_code s)[i := rest]\<rparr>"

definition omp_step ::
    "(nat \<Rightarrow> 'l \<Rightarrow> 'l) \<Rightarrow> (nat \<Rightarrow> 'l \<Rightarrow> bool) \<Rightarrow> ('v \<Rightarrow> 'v \<Rightarrow> 'v) \<Rightarrow> nat \<Rightarrow> ('l, 'v) omp_team \<Rightarrow> ('l, 'v) omp_team" where
  "omp_step lstep held f i s =
     (if i < length (ot_code s) then
        (case ot_code s ! i of
           [] \<Rightarrow> s
         | Op_lock n # rest \<Rightarrow>
             let l = lstep i (ot_lock n s); s' = set_ot_lock n l s in
             if held i l then next_op i rest s' else s'
         | Op_unlock n # rest \<Rightarrow> next_op i rest (set_ot_lock n (lstep i (ot_lock n s)) s)
         | Op_barrier # rest \<Rightarrow>
             let t = team_step i (ot_team s); s' = s\<lparr>ot_team := t\<rparr> in
             if returns (fst (tm_threads (ot_team s) ! i)) (fst (tm_threads t ! i)) then next_op i rest s' else s'
         | Op_load # rest \<Rightarrow> next_op i rest (s\<lparr>ot_regs := (ot_regs s)[i := ot_shared s]\<rparr>)
         | Op_store v # rest \<Rightarrow> next_op i rest (s\<lparr>ot_shared := f (ot_regs s ! i) v\<rparr>))
      else s)"

text \<open>The code of a reduction, and a team of threads that each contribute one value.\<close>

definition reduction :: "'v \<Rightarrow> ('f, 'a) bomp_work option \<Rightarrow> 'v sync_op list res" where
  "reduction v tls =
     bindE (kmpc_end_reduce tls) (\<lambda>ops. Inr (snd kmpc_reduce @ [Op_load, Op_store v] @ ops))"

definition reduction_team :: "'l \<Rightarrow> 'l \<Rightarrow> 'v \<Rightarrow> 'v sync_op list list \<Rightarrow> ('l, 'v) omp_team" where
  "reduction_team lc la x codes = \<lparr>ot_critical = lc, ot_atomic = la,
     ot_team = team_init (length codes) (int (length codes)), ot_shared = x, ot_code = codes,
     ot_regs = replicate (length codes) x\<rparr>"

lemma reduction_code:
  "reduction v (Some w) = Inr [Op_lock Critical_lock, Op_load, Op_store v, Op_unlock Critical_lock, Op_barrier]"
  by (simp add: reduction_def kmpc_end_reduce_def kmpc_reduce_def GOMP_barrier_def GOMP_critical_start_def GOMP_critical_end_def)

lemma thread_code:
  "bomp_thread_fn (\<lambda>_. reduction) w g = Inr (g', ops) \<Longrightarrow>
    ops = [Op_lock Critical_lock, Op_load, Op_store (work_data w), Op_unlock Critical_lock, Op_barrier, Op_barrier]"
  by (auto simp: bomp_thread_fn_def reduction_code bindE_eq_Inr_iff)

section \<open>Locks as the team uses them\<close>

locale spin_lock = mutual_exclusion lstep linit linv held
  for lstep :: "nat \<Rightarrow> 'l \<Rightarrow> 'l" and linit linv and held :: "nat \<Rightarrow> 'l \<Rightarrow> bool" +
  assumes others: "i \<noteq> j \<Longrightarrow> held j (lstep i l) = held j l"
    and release: "held i l \<Longrightarrow> \<not> held i (lstep i l)"
    and init_free: "linit l \<Longrightarrow> \<not> held i l"

interpretation x86_spin: spin_lock xlock_step xlock_init xlock_inv xlock_critical
proof
  show "xlock_critical j (xlock_step i l) = xlock_critical j l" if "i \<noteq> j" for i j l
    using that by (auto simp: xlock_critical_def xlock_step_def case_prod_beta)
  show "\<not> xlock_critical i (xlock_step i l)" if "xlock_critical i l" for i l
    using that by (auto simp: xlock_critical_def xlock_step_def)
  show "\<not> xlock_critical i l" if "xlock_init l" for i l
    using that by (auto simp: xlock_init_def xlock_critical_def all_set_conv_all_nth)
qed

interpretation aarch64_spin: spin_lock bomp_lock_aarch64 alock_init alock_inv alock_critical
proof
  show "alock_critical j (bomp_lock_aarch64 i l) = alock_critical j l" if "i \<noteq> j" for i j l
    using that by (auto simp: alock_critical_def bomp_lock_aarch64_def Let_def case_prod_beta split: alock_pc.splits)
  show "\<not> alock_critical i (bomp_lock_aarch64 i l)" if "alock_critical i l" for i l
    using that by (auto simp: alock_critical_def bomp_lock_aarch64_def Let_def case_prod_beta split: alock_pc.splits)
  show "\<not> alock_critical i l" if "alock_init l" for i l
    using that by (auto simp: alock_init_def alock_critical_def all_set_conv_all_nth)
qed

section \<open>A reduction is exact\<close>

text \<open>
  A thread's progress is the length of the code it has left: 6 before the lock, 5 to 3 inside the
  critical section, at most 3 once it has contributed, 1 or 0 once it has left the reduction.
\<close>

definition reduce_code :: "'v \<Rightarrow> 'v sync_op list" where
  "reduce_code v = [Op_lock Critical_lock, Op_load, Op_store v, Op_unlock Critical_lock, Op_barrier, Op_barrier]"

definition in_section :: "'v sync_op list \<Rightarrow> bool" where
  "in_section c \<longleftrightarrow> 3 \<le> length c \<and> length c \<le> 5"

definition thread_stage :: "'v \<Rightarrow> bool \<Rightarrow> 'v \<Rightarrow> 'v sync_op list \<Rightarrow> 'v \<Rightarrow> barrier_pc \<times> nat \<Rightarrow> bool" where
  "thread_stage y h v c r t \<longleftrightarrow> c = drop (6 - length c) (reduce_code v) \<and> (h \<longleftrightarrow> in_section c) \<and>
     (length c = 4 \<longrightarrow> r = y) \<and> snd t = 2 - min 2 (length c) \<and> (3 \<le> length c \<or> c = [] \<longrightarrow> fst t = B_out)"

definition commuting :: "('v \<Rightarrow> 'v \<Rightarrow> 'v) \<Rightarrow> bool" where
  "commuting f \<longleftrightarrow> (\<forall>y a b. f (f y a) b = f (f y b) a)"

definition contributions :: "('v \<Rightarrow> 'v \<Rightarrow> 'v) \<Rightarrow> 'v \<Rightarrow> 'v sync_op list list \<Rightarrow> 'v list \<Rightarrow> 'v" where
  "contributions f x cs vs = foldr (\<lambda>(c, v) y. if length c \<le> 3 then f y v else y) (zip cs vs) x"

definition reduction_inv ::
    "('l \<Rightarrow> bool) \<Rightarrow> (nat \<Rightarrow> 'l \<Rightarrow> bool) \<Rightarrow> ('v \<Rightarrow> 'v \<Rightarrow> 'v) \<Rightarrow> 'v \<Rightarrow> 'v list \<Rightarrow> ('l, 'v) omp_team \<Rightarrow> bool" where
  "reduction_inv linv held f x vs s \<longleftrightarrow>
     length (ot_code s) = length vs \<and> length (ot_regs s) = length vs \<and> length (tm_threads (ot_team s)) = length vs \<and>
     linv (ot_critical s) \<and> team_inv (ot_team s) \<and> ot_shared s = contributions f x (ot_code s) vs \<and>
     (\<forall>i<length vs. thread_stage (ot_shared s) (held i (ot_critical s)) (vs ! i) (ot_code s ! i) (ot_regs s ! i)
        (tm_threads (ot_team s) ! i))"

lemma stage_cases:
  assumes "c = drop (6 - length c) (reduce_code v)"
  obtains "c = reduce_code v" | "c = [Op_load, Op_store v, Op_unlock Critical_lock, Op_barrier, Op_barrier]"
    | "c = [Op_store v, Op_unlock Critical_lock, Op_barrier, Op_barrier]" | "c = [Op_unlock Critical_lock, Op_barrier, Op_barrier]"
    | "c = [Op_barrier, Op_barrier]" | "c = [Op_barrier]" | "c = []"
proof -
  consider "6 - length c = 0" | "6 - length c = 1" | "6 - length c = 2" | "6 - length c = 3" | "6 - length c = 4"
    | "6 - length c = 5" | "6 - length c = 6" by linarith
  then show thesis by cases (use assms that in \<open>simp_all add: reduce_code_def\<close>)
qed

lemma stage_trichotomy: "thread_stage y h v c r t \<Longrightarrow> in_section c \<or> c = reduce_code v \<or> length c \<le> 2"
  unfolding thread_stage_def by (elim conjE stage_cases) (simp_all add: in_section_def)

lemma contributions_same:
  "i < length cs \<Longrightarrow> (length c \<le> 3 \<longleftrightarrow> length (cs ! i) \<le> 3) \<Longrightarrow> contributions f x (cs[i := c]) vs = contributions f x cs vs"
proof (induction cs arbitrary: i vs)
  case (Cons c cs)
  then show ?case by (cases vs; cases i) (simp_all add: contributions_def)
qed simp

lemma contributions_add:
  assumes comm: "commuting f"
  shows "i < length cs \<Longrightarrow> length cs = length vs \<Longrightarrow> length c \<le> 3 \<Longrightarrow> \<not> length (cs ! i) \<le> 3 \<Longrightarrow>
    contributions f x (cs[i := c]) vs = f (contributions f x cs vs) (vs ! i)"
proof (induction cs arbitrary: i vs)
  case (Cons c0 cs)
  then obtain v vs' where vs: "vs = v # vs'" by (cases vs) auto
  show ?case
  proof (cases i)
    case (Suc j)
    then have "contributions f x (cs[j := c]) vs' = f (contributions f x cs vs') (vs' ! j)"
      using Cons.prems vs by (intro Cons.IH) simp_all
    then show ?thesis using comm Suc vs by (simp add: contributions_def commuting_def)
  qed (use Cons.prems vs in \<open>simp add: contributions_def\<close>)
qed simp

lemma contributions_none: "\<forall>c\<in>set cs. \<not> length c \<le> 3 \<Longrightarrow> contributions f x cs vs = x"
proof (induction cs arbitrary: vs)
  case (Cons c cs)
  then show ?case by (cases vs) (simp_all add: contributions_def)
qed (simp add: contributions_def)

lemma contributions_all:
  assumes comm: "commuting f" and "length cs = length vs" and "\<forall>c\<in>set cs. length c \<le> 3"
  shows "contributions f x cs vs = foldl f x vs"
proof -
  have "contributions f x cs vs = foldr (\<lambda>v y. f y v) vs x"
    using assms(2,3) by (induction cs vs rule: list_induct2) (simp_all add: contributions_def)
  also have "\<dots> = fold (\<lambda>v y. f y v) vs x"
    using comm by (subst foldr_fold) (auto simp: fun_eq_iff commuting_def)
  finally show ?thesis by (simp add: foldl_conv_fold)
qed

lemma team_step_threads:
  "length (tm_threads (team_step i t)) = length (tm_threads t)"
  "i \<noteq> j \<Longrightarrow> tm_threads (team_step i t) ! j = tm_threads t ! j"
  "i < length (tm_threads t) \<Longrightarrow> snd (tm_threads (team_step i t) ! i) =
    (if returns (fst (tm_threads t ! i)) (fst (tm_threads (team_step i t) ! i)) then Suc (snd (tm_threads t ! i))
     else snd (tm_threads t ! i))"
  "i < length (tm_threads t) \<Longrightarrow> returns (fst (tm_threads t ! i)) (fst (tm_threads (team_step i t) ! i)) \<Longrightarrow>
    fst (tm_threads (team_step i t) ! i) = B_out"
  by (auto simp: team_step_def Let_def case_prod_beta returns_def)

context spin_lock
begin

text \<open>A step keeps the invariant when it keeps the thread's own part, the lock, the barrier and the sum.\<close>

lemma reduction_inv_update:
  assumes inv: "reduction_inv linv held f x vs s" and i: "i < length vs"
    and s': "ot_code s' = (ot_code s)[i := c]" "ot_regs s' = (ot_regs s)[i := r]" "linv (ot_critical s')" "team_inv (ot_team s')"
      "length (tm_threads (ot_team s')) = length vs" "ot_shared s' = contributions f x (ot_code s') vs"
    and own: "thread_stage (ot_shared s') (held i (ot_critical s')) (vs ! i) c r (tm_threads (ot_team s') ! i)"
    and other: "\<And>j. j \<noteq> i \<Longrightarrow> held j (ot_critical s') = held j (ot_critical s) \<and>
      tm_threads (ot_team s') ! j = tm_threads (ot_team s) ! j"
    and shared: "ot_shared s' = ot_shared s \<or> held i (ot_critical s)"
  shows "reduction_inv linv held f x vs s'"
proof -
  have l: "length (ot_code s) = length vs" "length (ot_regs s) = length vs" "linv (ot_critical s)"
    and st: "\<And>j. j < length vs \<Longrightarrow> thread_stage (ot_shared s) (held j (ot_critical s)) (vs ! j) (ot_code s ! j) (ot_regs s ! j)
      (tm_threads (ot_team s) ! j)"
    using inv by (auto simp: reduction_inv_def)
  have "thread_stage (ot_shared s') (held j (ot_critical s')) (vs ! j) (ot_code s' ! j) (ot_regs s' ! j) (tm_threads (ot_team s') ! j)"
    if j: "j < length vs" for j
  proof (cases "j = i")
    case True
    then show ?thesis using own s'(1,2) l i by simp
  next
    case False
    have "length (ot_code s ! j) = 4 \<longrightarrow> ot_shared s' = ot_shared s"
      using shared False st[OF j] inv_exclusive[OF l(3), of i j] by (auto simp: thread_stage_def in_section_def)
    then show ?thesis using st[OF j] s'(1,2) other[OF False] False by (simp add: thread_stage_def)
  qed
  then show ?thesis using s' l by (simp add: reduction_inv_def)
qed

end


lemma next_op_id [simp]: "next_op i (ot_code s ! i) s = s"
  by (cases s) (simp add: next_op_def)

lemmas stage_defs = thread_stage_def in_section_def reduce_code_def
lemmas step_defs = omp_step_def next_op_def ot_lock_def set_ot_lock_def Let_def

context spin_lock
begin

lemma reduction_invD:
  assumes "reduction_inv linv held f x vs s" and "i < length vs"
  shows "length (ot_code s) = length vs" and "length (ot_regs s) = length vs" and "length (tm_threads (ot_team s)) = length vs"
    and "linv (ot_critical s)" and "team_inv (ot_team s)"
    and "thread_stage (ot_shared s) (held i (ot_critical s)) (vs ! i) (ot_code s ! i) (ot_regs s ! i) (tm_threads (ot_team s) ! i)"
    and "length c \<le> 3 \<longleftrightarrow> length (ot_code s ! i) \<le> 3 \<Longrightarrow> contributions f x ((ot_code s)[i := c]) vs = ot_shared s"
  using assms contributions_same[of i "ot_code s" c f x vs] by (auto simp: reduction_inv_def)

lemma step_lock:
  assumes inv: "reduction_inv linv held f x vs s" and i: "i < length vs" and c: "ot_code s ! i = reduce_code (vs ! i)"
  shows "reduction_inv linv held f x vs (omp_step lstep held f i s)"
proof -
  let ?s = "omp_step lstep held f i s" and ?l = "lstep i (ot_critical s)"
  let ?c = "if held i ?l then tl (ot_code s ! i) else ot_code s ! i"
  note d = reduction_invD[OF inv i]
  have s': "?s = next_op i ?c (s\<lparr>ot_critical := ?l\<rparr>)"
    using c i d(1) next_op_id[of i "s\<lparr>ot_critical := ?l\<rparr>"]
    by (simp add: omp_step_def ot_lock_def set_ot_lock_def Let_def reduce_code_def)
  have "contributions f x ((ot_code s)[i := ?c]) vs = ot_shared s" using c by (intro d(7)) (simp add: reduce_code_def)
  then show ?thesis
    using d(1-5) d(6) c i others inv_step s'
    by (intro reduction_inv_update[OF inv i, of ?s ?c "ot_regs s ! i"]) (simp_all add: next_op_def stage_defs)
qed

lemma step_load:
  assumes inv: "reduction_inv linv held f x vs s" and i: "i < length vs" and c: "ot_code s ! i = drop 1 (reduce_code (vs ! i))"
  shows "reduction_inv linv held f x vs (omp_step lstep held f i s)"
proof -
  let ?s = "omp_step lstep held f i s" and ?c = "tl (ot_code s ! i)"
  note d = reduction_invD[OF inv i]
  have s': "?s = next_op i ?c (s\<lparr>ot_regs := (ot_regs s)[i := ot_shared s]\<rparr>)"
    using c i d(1) by (simp add: step_defs reduce_code_def)
  have "contributions f x ((ot_code s)[i := ?c]) vs = ot_shared s" using c by (intro d(7)) (simp add: reduce_code_def)
  then show ?thesis
    using d(1-5) d(6) c i s'
    by (intro reduction_inv_update[OF inv i, of ?s ?c "ot_shared s"]) (simp_all add: next_op_def stage_defs)
qed

lemma step_store:
  assumes inv: "reduction_inv linv held f x vs s" and i: "i < length vs" and c: "ot_code s ! i = drop 2 (reduce_code (vs ! i))"
    and comm: "commuting f"
  shows "reduction_inv linv held f x vs (omp_step lstep held f i s)"
proof -
  let ?s = "omp_step lstep held f i s" and ?c = "tl (ot_code s ! i)"
  note d = reduction_invD[OF inv i]
  have r: "ot_regs s ! i = ot_shared s" using d(6) c by (simp add: stage_defs)
  then have r': "(ot_regs s)[i := ot_shared s] = ot_regs s" by (metis list_update_id)
  have s': "?s = next_op i ?c (s\<lparr>ot_shared := f (ot_shared s) (vs ! i)\<rparr>)"
    using c i d(1) r by (simp add: step_defs reduce_code_def)
  have "contributions f x ((ot_code s)[i := ?c]) vs = f (ot_shared s) (vs ! i)"
    using c i d(1) inv contributions_add[OF comm, of i "ot_code s" vs ?c x] by (simp add: reduce_code_def reduction_inv_def)
  then show ?thesis
    using d(1-5) d(6) c i s' r'
    by (intro reduction_inv_update[OF inv i, of ?s ?c "ot_shared s"]) (simp_all add: next_op_def stage_defs)
qed

lemma step_unlock:
  assumes inv: "reduction_inv linv held f x vs s" and i: "i < length vs" and c: "ot_code s ! i = drop 3 (reduce_code (vs ! i))"
  shows "reduction_inv linv held f x vs (omp_step lstep held f i s)"
proof -
  let ?s = "omp_step lstep held f i s" and ?c = "tl (ot_code s ! i)"
  note d = reduction_invD[OF inv i]
  have s': "?s = next_op i ?c (s\<lparr>ot_critical := lstep i (ot_critical s)\<rparr>)"
    using c i d(1) by (simp add: step_defs reduce_code_def)
  have "contributions f x ((ot_code s)[i := ?c]) vs = ot_shared s" using c by (intro d(7)) (simp add: reduce_code_def)
  moreover have "\<not> held i (lstep i (ot_critical s))" using d(6) c by (intro release) (simp add: stage_defs)
  ultimately show ?thesis
    using d(1-5) d(6) c i s' others inv_step
    by (intro reduction_inv_update[OF inv i, of ?s ?c "ot_regs s ! i"]) (simp_all add: next_op_def stage_defs)
qed

lemma step_barrier:
  assumes inv: "reduction_inv linv held f x vs s" and i: "i < length vs" and c: "ot_code s ! i = Op_barrier # rest" "rest = [Op_barrier] \<or> rest = []"
  shows "reduction_inv linv held f x vs (omp_step lstep held f i s)"
proof -
  let ?s = "omp_step lstep held f i s" and ?u = "team_step i (ot_team s)" and ?t = "tm_threads (ot_team s) ! i"
  let ?go = "returns (fst ?t) (fst (tm_threads ?u ! i))"
  let ?c = "if ?go then rest else ot_code s ! i"
  note d = reduction_invD[OF inv i]
  note th = team_step_threads[where i = i and t = "ot_team s"]
  have s': "?s = next_op i ?c (s\<lparr>ot_team := ?u\<rparr>)"
    using c i d(1) next_op_id[of i "s\<lparr>ot_team := ?u\<rparr>"] by (simp add: omp_step_def Let_def)
  have "contributions f x ((ot_code s)[i := ?c]) vs = ot_shared s" using c by (intro d(7)) auto
  moreover have "thread_stage (ot_shared s) (held i (ot_critical s)) (vs ! i) ?c (ot_regs s ! i) (tm_threads ?u ! i)"
    using d(6) c th(3,4) d(3) i by (auto simp: stage_defs min_def)
  ultimately show ?thesis
    using d(1-5) i s' th(1,2) team_inv_step
    by (intro reduction_inv_update[OF inv i, of ?s ?c "ot_regs s ! i"]) (simp_all add: next_op_def)
qed

lemma reduction_inv_step:
  assumes inv: "reduction_inv linv held f x vs s" and comm: "commuting f"
  shows "reduction_inv linv held f x vs (omp_step lstep held f i s)"
proof (cases "i < length vs")
  case i: True
  have "ot_code s ! i = drop (6 - length (ot_code s ! i)) (reduce_code (vs ! i))"
    using reduction_invD(6)[OF inv i] by (simp add: thread_stage_def)
  then show ?thesis
  proof (cases rule: stage_cases)
    case 1
    then show ?thesis by (rule step_lock[OF inv i])
  next
    case 2
    then show ?thesis by (intro step_load[OF inv i]) (simp add: reduce_code_def)
  next
    case 3
    then show ?thesis by (intro step_store[OF inv i _ comm]) (simp add: reduce_code_def)
  next
    case 4
    then show ?thesis by (intro step_unlock[OF inv i]) (simp add: reduce_code_def)
  next
    case 7
    then show ?thesis using inv by (simp add: omp_step_def)
  qed (use step_barrier[OF inv i] in simp_all)
qed (use inv in \<open>auto simp: omp_step_def reduction_inv_def\<close>)

lemma reduction_inv_init:
  assumes "linit lc" and "vs \<noteq> []" and "length vs < 2 ^ 32"
  shows "reduction_inv linv held f x vs (reduction_team lc la x (map reduce_code vs))"
proof -
  have "team_inv (team_init (length vs) (int (length vs)))"
    using assms(2,3) by (intro team_inv_init) (auto simp: team_ok_def)
  moreover have "contributions f x (map reduce_code vs) vs = x" by (intro contributions_none) (auto simp: reduce_code_def)
  ultimately show ?thesis
    using assms inv_init init_free by (simp add: reduction_inv_def reduction_team_def team_init_def stage_defs)
qed

lemma reduction_inv_exact:
  assumes inv: "reduction_inv linv held f x vs s" and comm: "commuting f"
    and i: "i < length vs" "length (ot_code s ! i) < 2"
  shows "ot_shared s = foldl f x vs"
proof -
  have "length c \<le> 3" if c: "c \<in> set (ot_code s)" for c
  proof -
    obtain j where j: "j < length vs" "ot_code s ! j = c"
      using c inv by (auto simp: in_set_conv_nth reduction_inv_def)
    note di = reduction_invD[OF inv i(1)] and dj = reduction_invD[OF inv j(1)]
    have "1 \<le> snd (tm_threads (ot_team s) ! i)" using di(6) i(2) by (auto simp: thread_stage_def min_def)
    also have "\<dots> \<le> arrivals (tm_threads (ot_team s) ! j)"
      using team_inv_arrivals[OF di(5) nth_mem nth_mem, of i j] di(3) i(1) j(1) by simp
    finally show ?thesis using dj(6) j(2) by (auto simp: thread_stage_def arrivals_def min_def split: if_splits)
  qed
  with inv comm contributions_all[of f "ot_code s" vs x] show ?thesis by (auto simp: reduction_inv_def)
qed

lemma reduction_inv_run:
  "reduction_inv linv held f x vs s \<Longrightarrow> commuting f \<Longrightarrow> reduction_inv linv held f x vs (run (omp_step lstep held f) sched s)"
  by (induction sched arbitrary: s) (simp_all add: reduction_inv_step)

lemma reduction_exact:
  assumes "linit lc" and "vs \<noteq> []" and "length vs < 2 ^ 32" and "commuting f"
    and "s = run (omp_step lstep held f) sched (reduction_team lc la x (map reduce_code vs))"
    and "i < length vs" and "ot_code s ! i \<in> {[Op_barrier], []}"
  shows "ot_shared s = foldl f x vs"
  using reduction_inv_exact[OF reduction_inv_run[OF reduction_inv_init[OF assms(1-3)] assms(4)] assms(4,6)] assms(5,7) by auto

end

section \<open>A reduction can always be completed\<close>

text \<open>A free lock is acquired by any thread that runs alone.\<close>

fun solo :: "(nat \<Rightarrow> 'l \<Rightarrow> 'l) \<Rightarrow> (nat \<Rightarrow> 'l \<Rightarrow> bool) \<Rightarrow> nat \<Rightarrow> nat \<Rightarrow> 'l \<Rightarrow> bool" where
  "solo lstep held i 0 l = False"
| "solo lstep held i (Suc k) l \<longleftrightarrow> held i (lstep i l) \<or> solo lstep held i k (lstep i l)"

locale live_lock = spin_lock +
  fixes threads :: "'l \<Rightarrow> nat"
  assumes acquire: "linv l \<Longrightarrow> (\<And>j. \<not> held j l) \<Longrightarrow> i < threads l \<Longrightarrow> solo lstep held i 4 l"
    and threads_step [simp]: "threads (lstep i l) = threads l"
    and held_thread: "held i l \<Longrightarrow> i < threads l"

lemma solo_4: "solo lstep held i 4 l \<longleftrightarrow> held i (lstep i l) \<or> held i (lstep i (lstep i l)) \<or>
    held i (lstep i (lstep i (lstep i l))) \<or> held i (lstep i (lstep i (lstep i (lstep i l))))"
  by (simp add: numeral_eq_Suc)

interpretation x86_live: live_lock xlock_step xlock_init xlock_inv xlock_critical "\<lambda>l. length (xl_pcs l)"
proof
  show "solo xlock_step xlock_critical i 4 l"
    if "xlock_inv l" and "\<And>j. \<not> xlock_critical j l" and "i < length (xl_pcs l)" for i l
  proof -
    have "cnt (\<lambda>pc. pc = X_crit) (xl_pcs l) = 0" using that(2) by (auto simp: cnt_none xlock_critical_def in_set_conv_nth)
    moreover from this have "xl_pcs l ! i \<noteq> X_crit" using that(3) by (auto simp: cnt_none)
    ultimately have "xl_lock l = 0" "xl_pcs l ! i \<noteq> X_crit" using that(1) by (auto simp: xlock_inv_def)
    then show ?thesis using that(3) by (cases "xl_pcs l ! i") (simp_all add: solo_4 xlock_step_def xlock_critical_def)
  qed
  show "length (xl_pcs (xlock_step i l)) = length (xl_pcs l)" for i l by (simp add: xlock_step_def case_prod_beta)
  show "i < length (xl_pcs l)" if "xlock_critical i l" for i l using that by (simp add: xlock_critical_def)
qed

interpretation aarch64_live: live_lock bomp_lock_aarch64 alock_init alock_inv alock_critical "\<lambda>l. length (al_threads l)"
proof
  show "solo bomp_lock_aarch64 alock_critical i 4 l"
    if "alock_inv l" and "\<And>j. \<not> alock_critical j l" and "i < length (al_threads l)" for i l
  proof -
    obtain pc m where t: "al_threads l ! i = (pc, m)" by fastforce
    have "\<forall>x\<in>set (al_threads l). fst x \<noteq> A_crit" using that(2) by (auto simp: alock_critical_def all_set_conv_all_nth)
    then have "cnt (\<lambda>t. fst t = A_crit) (al_threads l) = 0" by (simp add: cnt_none)
    then have "al_lock l = 0" using that(1) by (auto simp: alock_inv_def)
    moreover have "pc \<noteq> A_crit" using that(2)[of i] that(3) t by (simp add: alock_critical_def)
    ultimately show ?thesis using that(3) t by (cases pc; cases m) (simp_all add: solo_4 bomp_lock_aarch64_def alock_critical_def)
  qed
  show "length (al_threads (bomp_lock_aarch64 i l)) = length (al_threads l)" for i l
    by (simp add: bomp_lock_aarch64_def Let_def case_prod_beta split: alock_pc.split)
  show "i < length (al_threads l)" if "alock_critical i l" for i l using that by (simp add: alock_critical_def)
qed

text \<open>The work a team has left: every operation counts 7, a call of the barrier under way at most 6.\<close>

definition thread_left :: "'v sync_op list \<Rightarrow> barrier_pc \<times> nat \<Rightarrow> nat" where
  "thread_left c t = 7 * length c + (case c of Op_barrier # _ \<Rightarrow> if fst t = B_out then 6 else wait_work t | _ \<Rightarrow> 0)"

definition team_left :: "('l, 'v) omp_team \<Rightarrow> nat" where
  "team_left s = (\<Sum>i<length (ot_code s). thread_left (ot_code s ! i) (tm_threads (ot_team s) ! i))"

definition team_done :: "('l, 'v) omp_team \<Rightarrow> bool" where
  "team_done s \<longleftrightarrow> (\<forall>c\<in>set (ot_code s). c = [])"

lemma omp_step_frame:
  "length (ot_code (omp_step lstep held f i s)) = length (ot_code s)"
  "j \<noteq> i \<Longrightarrow> ot_code (omp_step lstep held f i s) ! j = ot_code s ! j"
  "j \<noteq> i \<Longrightarrow> tm_threads (ot_team (omp_step lstep held f i s)) ! j = tm_threads (ot_team s) ! j"
  by (auto simp: step_defs team_step_threads split: list.split sync_op.split lock_name.split)

lemma team_left_less:
  assumes "i < length (ot_code s)" and "length (ot_code s') = length (ot_code s)"
    and "\<And>j. j \<noteq> i \<Longrightarrow> ot_code s' ! j = ot_code s ! j \<and> tm_threads (ot_team s') ! j = tm_threads (ot_team s) ! j"
    and "thread_left (ot_code s' ! i) (tm_threads (ot_team s') ! i) < thread_left (ot_code s ! i) (tm_threads (ot_team s) ! i)"
  shows "team_left s' < team_left s"
proof -
  have "\<forall>j<length (ot_code s). thread_left (ot_code s' ! j) (tm_threads (ot_team s') ! j) \<le> thread_left (ot_code s ! j) (tm_threads (ot_team s) ! j)"
    using assms(3,4) by (metis less_imp_le order_refl)
  then show ?thesis
    unfolding team_left_def assms(2) using assms(1,4) by (intro sum_strict_mono_ex1) auto
qed

lemma barrier_step_left:
  assumes "i < length (tm_threads t)" and "fst (tm_threads t ! i) = B_out \<or> can_move (tm_barrier t) (tm_threads t ! i)"
    and "c = Op_barrier # rest"
    and "c' = (if returns (fst (tm_threads t ! i)) (fst (tm_threads (team_step i t) ! i)) then rest else c)"
  shows "thread_left c' (tm_threads (team_step i t) ! i) < thread_left c (tm_threads t ! i)"
proof -
  obtain pc d where p: "tm_threads t ! i = (pc, d)" by fastforce
  show ?thesis
    using assms p
    by (cases pc; cases rest)
      (auto simp: team_step_def thread_left_def returns_def can_move_def inside_def wait_work_def split: sync_op.split)
qed

context live_lock
begin

lemma solo_run:
  assumes "solo lstep held i k (ot_critical s)" and "i < length (ot_code s)" and "ot_code s ! i = Op_lock Critical_lock # rest"
  shows "\<exists>m. ot_code (run (omp_step lstep held f) (replicate m i) s) = (ot_code s)[i := rest] \<and>
    ot_team (run (omp_step lstep held f) (replicate m i) s) = ot_team s"
  using assms
proof (induction k arbitrary: s)
  case (Suc k)
  let ?l = "lstep i (ot_critical s)"
  show ?case
  proof (cases "held i ?l")
    case True
    then show ?thesis using Suc.prems by (intro exI[of _ 1]) (simp add: step_defs)
  next
    case False
    let ?s = "s\<lparr>ot_critical := ?l\<rparr>"
    have "omp_step lstep held f i s = ?s" using False Suc.prems by (simp add: step_defs)
    moreover obtain m where "ot_code (run (omp_step lstep held f) (replicate m i) ?s) = (ot_code s)[i := rest]"
      "ot_team (run (omp_step lstep held f) (replicate m i) ?s) = ot_team s"
      using Suc.IH[of ?s] False Suc.prems by auto
    ultimately show ?thesis by (intro exI[of _ "Suc m"]) simp
  qed
qed simp

end

text \<open>A thread still inside a barrier that another has left behind is not kept there.\<close>

lemma late_thread_moves:
  assumes "team_inv t" and "u \<in> set (tm_threads t)" and "inside u" and "(B_out, d) \<in> set (tm_threads t)" and "snd u < d"
  shows "can_move (tm_barrier t) u"
proof -
  obtain p where p: "in_phase p t" using assms(1) by (auto simp: team_inv_def)
  then have "thread_ok p u" "thread_ok p (B_out, d)" "bar_cycle (tm_barrier t) = parity p"
    using assms(2,4) by (auto simp: in_phase_def Let_def)
  then show ?thesis using assms(3,5) by (cases u; cases "fst u") (auto simp: inside_def can_move_def)
qed

context live_lock
begin

lemma section_progress:
  assumes inv: "reduction_inv linv held f x vs s" and i: "i < length vs" and c: "in_section (ot_code s ! i)"
  shows "team_left (omp_step lstep held f i s) < team_left s"
proof (rule team_left_less[of i])
  note d = reduction_invD[OF inv i]
  have "ot_code s ! i = drop (6 - length (ot_code s ! i)) (reduce_code (vs ! i))" using d(6) by (simp add: thread_stage_def)
  then show "thread_left (ot_code (omp_step lstep held f i s) ! i) (tm_threads (ot_team (omp_step lstep held f i s)) ! i) <
      thread_left (ot_code s ! i) (tm_threads (ot_team s) ! i)"
    by (cases rule: stage_cases) (use c d(1,6) i in \<open>auto simp: step_defs stage_defs thread_left_def\<close>)
qed (use i reduction_invD(1)[OF inv i] in \<open>simp_all add: omp_step_frame\<close>)

lemma lock_progress:
  assumes inv: "reduction_inv linv held f x vs s" and th: "threads (ot_critical s) = length vs"
    and i: "i < length vs" "ot_code s ! i = reduce_code (vs ! i)" and free: "\<forall>j<length vs. \<not> in_section (ot_code s ! j)"
  shows "\<exists>sched. team_left (run (omp_step lstep held f) sched s) < team_left s"
proof -
  note d = reduction_invD[OF inv i(1)]
  have "\<not> held j (ot_critical s)" for j
    using held_thread[of j "ot_critical s"] th free reduction_invD(6)[OF inv, of j] by (auto simp: thread_stage_def)
  then have "solo lstep held i 4 (ot_critical s)" using acquire d(4) th i(1) by simp
  then obtain m where m: "ot_code (run (omp_step lstep held f) (replicate m i) s) = (ot_code s)[i := tl (ot_code s ! i)]"
    "ot_team (run (omp_step lstep held f) (replicate m i) s) = ot_team s"
    using solo_run[of i 4 s] i d(1) by (fastforce simp: reduce_code_def)
  have "team_left (run (omp_step lstep held f) (replicate m i) s) < team_left s"
    using m i d(1) by (intro team_left_less[of i]) (simp_all add: reduce_code_def thread_left_def)
  then show ?thesis by blast
qed

lemma barrier_progress:
  assumes inv: "reduction_inv linv held f x vs s" and i: "i < length vs" "ot_code s ! i = Op_barrier # rest"
    and go: "fst (tm_threads (ot_team s) ! i) = B_out \<or> can_move (tm_barrier (ot_team s)) (tm_threads (ot_team s) ! i)"
  shows "team_left (omp_step lstep held f i s) < team_left s"
proof (rule team_left_less[of i])
  note d = reduction_invD[OF inv i(1)]
  show "thread_left (ot_code (omp_step lstep held f i s) ! i) (tm_threads (ot_team (omp_step lstep held f i s)) ! i) <
      thread_left (ot_code s ! i) (tm_threads (ot_team s) ! i)"
    using barrier_step_left[of i "ot_team s", OF _ go i(2) refl] i d(1,3) by (auto simp: step_defs)
qed (use i reduction_invD(1)[OF inv i(1)] in \<open>simp_all add: omp_step_frame\<close>)

text \<open>Threads that are all at a barrier or finished: one of them can go on.\<close>

lemma waiting_progress:
  assumes inv: "reduction_inv linv held f x vs s" and all: "\<forall>j<length vs. length (ot_code s ! j) \<le> 2" and left: "\<not> team_done s"
  shows "\<exists>i<length vs. team_left (omp_step lstep held f i s) < team_left s"
proof -
  let ?t = "\<lambda>j. tm_threads (ot_team s) ! j"
  have at: "\<exists>rest. ot_code s ! j = Op_barrier # rest" if "j < length vs" "ot_code s ! j \<noteq> []" for j
  proof -
    have "ot_code s ! j = drop (6 - length (ot_code s ! j)) (reduce_code (vs ! j))"
      using reduction_invD(6)[OF inv that(1)] by (simp add: thread_stage_def)
    then show ?thesis by (cases rule: stage_cases) (use that all in \<open>auto simp: reduce_code_def\<close>)
  qed
  have "length (ot_code s) = length vs" using inv by (simp add: reduction_inv_def)
  with left obtain i where i: "i < length vs" "ot_code s ! i \<noteq> []" by (auto simp: team_done_def in_set_conv_nth)
  show ?thesis
  proof (cases "\<exists>j<length vs. ot_code s ! j \<noteq> [] \<and> (fst (?t j) = B_out \<or> can_move (tm_barrier (ot_team s)) (?t j))")
    case True
    then show ?thesis using at barrier_progress[OF inv] by blast
  next
    case False
    then have stuck: "inside (?t j) \<and> \<not> can_move (tm_barrier (ot_team s)) (?t j)" if "j < length vs" "ot_code s ! j \<noteq> []" for j
      using that by (auto simp: inside_def)
    note d = reduction_invD[OF inv i(1)]
    have "ot_code s ! k \<noteq> []" if k: "k < length vs" for k
    proof
      assume "ot_code s ! k = []"
      then have "?t k = (B_out, 2)" using reduction_invD(6)[OF inv k] by (cases "?t k") (simp add: thread_stage_def)
      moreover have "snd (?t i) \<le> 1" using d(6) i(2) by (cases "ot_code s ! i") (auto simp: thread_stage_def min_def)
      ultimately show False
        using late_thread_moves[OF d(5), of "?t i" 2] stuck[OF i] nth_mem[of k "tm_threads (ot_team s)"] nth_mem[of i "tm_threads (ot_team s)"] d(3) k i(1)
        by simp
    qed
    then have "\<forall>k<length vs. inside (?t k) \<and> \<not> can_move (tm_barrier (ot_team s)) (?t k)" using stuck by blast
    then have "\<forall>t\<in>set (tm_threads (ot_team s)). inside t \<and> \<not> can_move (tm_barrier (ot_team s)) t"
      using d(3) by (simp add: all_set_conv_all_nth)
    with team_inv_can_move[OF d(5)] show ?thesis by blast
  qed
qed

lemma reduction_progress:
  assumes inv: "reduction_inv linv held f x vs s" and th: "threads (ot_critical s) = length vs" and left: "\<not> team_done s"
  shows "\<exists>sched. team_left (run (omp_step lstep held f) sched s) < team_left s"
proof -
  let ?run = "run (omp_step lstep held f)"
  consider i where "i < length vs" "in_section (ot_code s ! i)"
    | i where "i < length vs" "ot_code s ! i = reduce_code (vs ! i)" "\<forall>j<length vs. \<not> in_section (ot_code s ! j)"
    | "\<forall>j<length vs. length (ot_code s ! j) \<le> 2"
  proof (cases "\<exists>i<length vs. in_section (ot_code s ! i)")
    case False
    have "ot_code s ! j = reduce_code (vs ! j) \<or> length (ot_code s ! j) \<le> 2" if "j < length vs" for j
      using stage_trichotomy[OF reduction_invD(6)[OF inv that]] False that by blast
    with False show thesis using that by blast
  qed (use that in blast)
  then show ?thesis
  proof cases
    case 1
    then have "team_left (?run [i] s) < team_left s" using section_progress[OF inv] by simp
    then show ?thesis by blast
  next
    case 2
    then show ?thesis by (rule lock_progress[OF inv th])
  next
    case 3
    then obtain i where "team_left (?run [i] s) < team_left s" using waiting_progress[OF inv _ left] by auto
    then show ?thesis by blast
  qed
qed

lemma threads_kept: "threads (ot_critical (omp_step lstep held f i s)) = threads (ot_critical s)"
  by (auto simp: step_defs split: list.split sync_op.split lock_name.split)

lemma threads_run: "threads (ot_critical (run (omp_step lstep held f) sched s)) = threads (ot_critical s)"
  by (induction sched arbitrary: s) (simp_all add: threads_kept)

lemma reduction_completes:
  assumes "reduction_inv linv held f x vs s" and "threads (ot_critical s) = length vs" and "commuting f"
  shows "\<exists>sched. team_done (run (omp_step lstep held f) sched s)"
  using assms(1,2)
proof (induction "team_left s" arbitrary: s rule: less_induct)
  case less
  show ?case
  proof (cases "team_done s")
    case True
    then show ?thesis by (intro exI[of _ "[]"]) simp
  next
    case False
    obtain a where a: "team_left (run (omp_step lstep held f) a s) < team_left s"
      using reduction_progress[OF less.prems False] by blast
    then obtain b where "team_done (run (omp_step lstep held f) b (run (omp_step lstep held f) a s))"
      using less.hyps[OF a reduction_inv_run[OF less.prems(1) assms(3)]] less.prems(2) threads_run by metis
    then show ?thesis by (intro exI[of _ "a @ b"]) (simp add: run_append)
  qed
qed

lemma reduction_completes_from_start:
  assumes "linit lc" and "threads lc = length vs" and "vs \<noteq> []" and "length vs < 2 ^ 32" and "commuting f"
  shows "\<exists>more. team_done (run (omp_step lstep held f) (sched @ more) (reduction_team lc la x (map reduce_code vs)))"
proof -
  let ?s = "run (omp_step lstep held f) sched (reduction_team lc la x (map reduce_code vs))"
  have "reduction_inv linv held f x vs ?s"
    by (rule reduction_inv_run[OF reduction_inv_init[OF assms(1,3,4)] assms(5)])
  moreover have "threads (ot_critical ?s) = length vs" using assms(2) by (simp add: threads_run) (simp add: reduction_team_def)
  ultimately show ?thesis using reduction_completes[of f x vs ?s] assms(5) by (simp add: run_append)
qed

end

text \<open>The code of a team's threads, as \<open>bomp_thread_fn\<close> runs them on descriptors of their own.\<close>

definition region_codes :: "'v list \<Rightarrow> 'v sync_op list list \<Rightarrow> bool" where
  "region_codes vs codes \<longleftrightarrow> list_all2 (\<lambda>v c. \<exists>(w :: (unit, 'v) bomp_work) g g'. work_data w = v \<and>
     bomp_thread_fn (\<lambda>_. reduction) w g = Inr (g', c)) vs codes"

lemma region_codes_map: "region_codes vs codes \<Longrightarrow> codes = map reduce_code vs"
  unfolding region_codes_def
  by (induction rule: list_all2_induct) (auto simp: reduce_code_def dest: thread_code)

text \<open>The statistics have room for 64 threads only.\<close>

lemma note_stuck_out_of_bounds:
  "length stuck = 64 \<Longrightarrow> 64 \<le> tid \<Longrightarrow> 10000000 < waitcnt \<Longrightarrow> note_stuck tid waitcnt stuck = Inl (UB Out_of_bounds)"
  by (simp add: note_stuck_def)

end
