(* ===== verification/Bomp_Examples.thy ===== *)
theory Bomp_Examples
  imports Bomp_Team
begin

text \<open>
  Concrete pools and runs of the OpenMP runtime, on which the properties of the root theory
  are instantiated: a pool of one worker and two slots that is given one task and destroyed,
  and the globals of a runtime with a pool of two workers.
\<close>

definition ex_pool :: "(nat, nat) threadpool" where
  "ex_pool = \<lparr>tp_threads = [True], tp_queue = [None, None], tp_thread_count = 1,
     tp_queue_size = 2, tp_head = 0, tp_tail = 0, tp_count = 0, tp_shutdown = 0, tp_started = 1,
     tp_global_barrier = bomp_barrier_init 1, tp_locked = False\<rparr>"

definition ex_task :: "(nat, nat) threadpool_task" where
  "ex_task = \<lparr>task_fn = 7, task_args = 8\<rparr>"

definition ex_added :: "(nat, nat) system" where
  "ex_added = \<lparr>sy_pool = ex_pool\<lparr>tp_queue := [Some ex_task, None], tp_count := 1, tp_tail := 1\<rparr>,
     sy_workers = [W_idle], sy_master = M_running, sy_added = [ex_task], sy_taken = [],
     sy_finished = []\<rparr>"

definition ex_joining :: "(nat, nat) system" where
  "ex_joining = ex_added\<lparr>sy_pool := (sy_pool ex_added)\<lparr>tp_shutdown := 1\<rparr>, sy_master := M_joining 0\<rparr>"

definition ex_taken :: "(nat, nat) system" where
  "ex_taken = ex_joining\<lparr>sy_pool := (sy_pool ex_joining)\<lparr>tp_head := 1, tp_count := 0\<rparr>,
     sy_workers := [W_busy ex_task], sy_taken := [ex_task]\<rparr>"

definition ex_finished :: "(nat, nat) system" where
  "ex_finished = ex_taken\<lparr>sy_workers := [W_idle], sy_finished := [ex_task]\<rparr>"

definition ex_left :: "(nat, nat) system" where
  "ex_left = ex_finished\<lparr>sy_pool := (sy_pool ex_finished)\<lparr>tp_started := 0\<rparr>, sy_workers := [W_dead]\<rparr>"

definition ex_returned :: "(nat, nat) system" where
  "ex_returned = ex_left\<lparr>sy_master := M_returned 0 True\<rparr>"

lemmas ex_pool_defs = ex_pool_def ex_task_def ex_added_def ex_joining_def ex_taken_def
  ex_finished_def ex_left_def ex_returned_def

lemma ex_pool_created: "threadpool_create create_ok 1 (int 1) 2 = (Some ex_pool, 2)"
  by (simp add: threadpool_create_def create_ok_def pthread_ok_def threadpool_new_def ex_pool_def
    numeral_2_eq_2)

lemma ex_reach_added: "pool_reachable ex_pool ex_added"
proof -
  have "pool_step (pool_start ex_pool) ex_added"
    using pool_step.step_add [of "pool_start ex_pool" 7 8 "sy_pool ex_added"]
    by (simp add: ex_pool_defs pool_start_def threadpool_add_0 queue_put_def)
  then show ?thesis by (rule reach_step [OF reach_start])
qed

lemma ex_reach_joining: "pool_reachable ex_pool ex_joining"
proof -
  have "pool_step ex_added ex_joining"
    using pool_step.step_destroy [of ex_added 0 "sy_pool ex_joining"]
    by (simp add: ex_pool_defs threadpool_destroy_begin_def pthread_ok_def)
  then show ?thesis by (rule reach_step [OF ex_reach_added])
qed

lemma ex_reach_returned: "pool_reachable ex_pool ex_returned"
proof -
  have "pool_step ex_joining ex_taken"
    using pool_step.step_take [of 0 ex_joining ex_task "sy_pool ex_taken"]
    by (simp add: ex_pool_defs threadpool_run_def graceful_shutdown_def)
  moreover have "pool_step ex_taken ex_finished"
    using pool_step.step_finish [of 0 ex_taken ex_task] by (simp add: ex_pool_defs)
  moreover have "pool_step ex_finished ex_left"
    using pool_step.step_leave [of 0 ex_finished "sy_pool ex_left"]
    by (simp add: ex_pool_defs threadpool_run_def graceful_shutdown_def)
  moreover have "pool_step ex_left ex_returned"
    using pool_step.step_return [of ex_left 0 0 True]
    by (simp add: ex_pool_defs threadpool_destroy_end_def threadpool_free_def)
  ultimately show ?thesis using ex_reach_joining reach_step by metis
qed

definition ex_cpuinfo :: "string list option" where
  "ex_cpuinfo = Some [''vendor_id: GenuineIntel'', ''model'', ''vendor_id: GenuineIntel'',
     ''vendor_id: AuthenticAMD'']"

definition ex_omp :: "(nat, nat) omp_state" where
  "ex_omp = backend_init create_ok ex_cpuinfo omp_initial"

lemma ex_cores: "count_cores ex_cpuinfo = int 3"
  unfolding count_cores_def x86_lines_def strstr_def ex_cpuinfo_def by code_simp

lemma ex_omp_sizes:
  "(\<exists>p. om_pool ex_omp = Some p \<and> fresh_pool 2 1024 p) \<and> om_num_threads ex_omp = 3 \<and>
   om_thread_numbers ex_omp = 1 \<and> om_nested ex_omp = 0 \<and> \<not> om_dynamic ex_omp"
proof -
  obtain p :: "(nat, nat) bomp_pool" where
    "threadpool_create create_ok 1 (int 2) 1024 = (Some p, of_nat 2 + 1)" "fresh_pool 2 1024 p"
    using threadpool_create_fresh [of 2 1024 1] by auto
  then show ?thesis
    by (auto simp: ex_omp_def backend_init_def ex_cores omp_initial_def)
qed

text \<open>Two threads that add 3 and 4 to a shared variable, and a run in which the first leaves the reduction.\<close>

definition ex_descriptor :: "nat \<Rightarrow> int \<Rightarrow> (unit, int) bomp_work" where
  "ex_descriptor i v = \<lparr>work_fn = (), work_data = v, work_thread_id = i\<rparr>"

definition ex_codes :: "int sync_op list list" where
  "ex_codes = map (\<lambda>(i, v). case bomp_thread_fn (\<lambda>_. reduction) (ex_descriptor i v)
     (omp_initial\<lparr>om_tls_array := Some [None, None]\<rparr>) of Inr (g, c) \<Rightarrow> c | Inl e \<Rightarrow> []) [(0, 3), (1, 4)]"

definition ex_free_lock :: xlock where
  "ex_free_lock = \<lparr>xl_lock = 0, xl_pcs = [X_out, X_out]\<rparr>"

definition ex_sum_run :: "nat list" where
  "ex_sum_run = replicate 6 0 @ [1, 1] @ replicate 2 0 @ replicate 10 1 @ [0]"

lemma ex_codes_region: "region_codes [3, 4] ex_codes"
proof -
  let ?g = "omp_initial\<lparr>om_tls_array := Some [None, None]\<rparr>"
  have r: "\<exists>g'. bomp_thread_fn (\<lambda>_. reduction) (ex_descriptor i v) ?g = Inr (g', reduce_code v)" if "i < 2" for i v
    using that by (simp add: bomp_thread_fn_def bomp_set_tls_def ex_descriptor_def reduction_code reduce_code_def)
  have c: "ex_codes = map reduce_code [3, 4]" using r[of 0 3] r[of 1 4] by (auto simp: ex_codes_def)
  have "\<exists>(w :: (unit, int) bomp_work) g g'. work_data w = v \<and> bomp_thread_fn (\<lambda>_. reduction) w g = Inr (g', reduce_code v)" for v
  proof -
    obtain g' where "bomp_thread_fn (\<lambda>_. reduction) (ex_descriptor 0 v) ?g = Inr (g', reduce_code v)" using r[of 0 v] by auto
    moreover have "work_data (ex_descriptor 0 v) = v" by (simp add: ex_descriptor_def)
    ultimately show ?thesis by blast
  qed
  then show ?thesis unfolding region_codes_def c by (simp add: list_all2_map2 list_all2_same)
qed

lemma ex_free_lock_init: "xlock_init ex_free_lock" "length (xl_pcs ex_free_lock) = 2"
  by (simp_all add: xlock_init_def ex_free_lock_def)

lemma ex_sum_left:
  "ot_code (run (omp_step xlock_step xlock_critical (+)) ex_sum_run (reduction_team ex_free_lock ex_free_lock 0 ex_codes)) ! 0 = [Op_barrier]"
  by code_simp

end
