(* ===== verification/Printf.thy ===== *)
theory Printf
  imports Prelude
begin

text \<open>
  The conversions of \<open>printf\<close> the metadata printers use: unsigned and signed decimal and
  lower-case hexadecimal. A number that is followed by a character which is no digit can be read
  off the text again, so a printed record determines its fields.
\<close>

section \<open>Digits\<close>

definition hex_digits :: string where
  "hex_digits = ''0123456789abcdef''"

definition digit_char :: "nat \<Rightarrow> char" where
  "digit_char d = hex_digits ! d"

function show_base :: "nat \<Rightarrow> nat \<Rightarrow> string" where
  "show_base b n = (if n < b \<or> b < 2 then [digit_char n] else show_base b (n div b) @ [digit_char (n mod b)])"
  by pat_completeness auto
termination by (relation "measure snd") (auto simp: not_less)

declare show_base.simps [simp del]

definition fmt_u :: "'a::len word \<Rightarrow> string" where
  "fmt_u w = show_base 10 (unat w)"

definition fmt_x :: "'a::len word \<Rightarrow> string" where
  "fmt_x w = show_base 16 (unat w)"

definition fmt_d :: "'a::len word \<Rightarrow> string" where
  "fmt_d w = (if sint w < 0 then CHR ''-'' # show_base 10 (nat (- sint w)) else show_base 10 (nat (sint w)))"

definition newline :: string where
  "newline = [CHR 0x0A]"

section \<open>Reading numbers back\<close>

definition digit_val :: "char \<Rightarrow> nat" where
  "digit_val c = length (takeWhile (\<lambda>x. x \<noteq> c) hex_digits)"

definition read_base :: "nat \<Rightarrow> string \<Rightarrow> nat" where
  "read_base b s = foldl (\<lambda>acc c. b * acc + digit_val c) 0 s"

lemma digit_char: "d < 16 \<Longrightarrow> digit_char d \<in> set hex_digits \<and> digit_val (digit_char d) = d"
proof -
  assume "d < 16"
  then have "d \<in> {..<16}" by simp
  also have "{..<16} = {0, 1, 2, 3, 4, 5, 6, 7, 8, 9, 10, 11, 12, 13, 14, 15 :: nat}"
    by (simp add: lessThan_nat_numeral lessThan_Suc insert_commute)
  finally show ?thesis by (auto simp: digit_char_def digit_val_def hex_digits_def)
qed

lemma mod_digit: "2 \<le> b \<Longrightarrow> b \<le> 16 \<Longrightarrow> n mod b < (16 :: nat)"
  using mod_less_divisor[of b n] by linarith

lemma show_base_digits: "2 \<le> b \<Longrightarrow> b \<le> 16 \<Longrightarrow> set (show_base b n) \<subseteq> set hex_digits"
proof (induction b n rule: show_base.induct)
  case (1 b n)
  then show ?case using digit_char[of n] digit_char[OF mod_digit[of b n]] by (subst show_base.simps) auto
qed

lemma read_show: "2 \<le> b \<Longrightarrow> b \<le> 16 \<Longrightarrow> read_base b (show_base b n) = n"
proof (induction b n rule: show_base.induct)
  case (1 b n)
  show ?case
  proof (cases "n < b")
    case True
    then show ?thesis using 1 digit_char[of n] by (subst show_base.simps) (simp add: read_base_def)
  next
    case False
    then have "read_base b (show_base b (n div b)) = n div b" using 1 by simp
    then show ?thesis using False 1(2) digit_char[OF mod_digit[OF 1(2,3), of n]]
      by (subst show_base.simps) (simp add: read_base_def)
  qed
qed

text \<open>The characters that separate numbers in the formats: none of them is a digit.\<close>

definition ends_number :: "string \<Rightarrow> bool" where
  "ends_number s = (case s of [] \<Rightarrow> True | c # _ \<Rightarrow> c \<notin> set hex_digits)"

lemma show_base_split:
  assumes "show_base b m @ x = show_base b n @ y" and "ends_number x" and "ends_number y" and "2 \<le> b" and "b \<le> 16"
  shows "m = n \<and> x = y"
proof -
  have t: "takeWhile (\<lambda>c. c \<in> set hex_digits) (show_base b k @ z) = show_base b k" if "ends_number z" for k z
    using that show_base_digits[OF assms(4,5), of k]
    by (subst takeWhile_append2) (auto simp: ends_number_def split: list.splits)
  have "show_base b m = show_base b n" using t[OF assms(2), of m] t[OF assms(3), of n] assms(1) by simp
  then show ?thesis using read_show[OF assms(4,5)] assms(1) by (metis same_append_eq)
qed

lemma show_base_not_minus: "2 \<le> b \<Longrightarrow> b \<le> 16 \<Longrightarrow> show_base b n @ x \<noteq> CHR ''-'' # y"
proof
  assume b: "2 \<le> b" "b \<le> 16" and "show_base b n @ x = CHR ''-'' # y"
  then have "show_base b n = [] \<or> CHR ''-'' \<in> set (show_base b n)" by (cases "show_base b n") auto
  moreover have "show_base b n \<noteq> []" by (subst show_base.simps) simp
  ultimately show False using show_base_digits[OF b, of n] by (auto simp: hex_digits_def)
qed

section \<open>Formats that can be read back\<close>

text \<open>
  A number format: what is printed, followed by something that is no digit, determines the value
  and the rest of the text.
\<close>

locale number_format =
  fixes fmt :: "'v \<Rightarrow> string"
  assumes split: "fmt v @ x = fmt w @ y \<Longrightarrow> ends_number x \<Longrightarrow> ends_number y \<Longrightarrow> v = w \<and> x = y"
begin

lemma fmt_eq_iff: "fmt v = fmt w \<longleftrightarrow> v = w"
  using split[of v "[]" w "[]"] by (auto simp: ends_number_def)

lemma append_iff: "ends_number x \<Longrightarrow> ends_number y \<Longrightarrow> fmt v @ x = fmt w @ y \<longleftrightarrow> v = w \<and> x = y"
  using split by auto

end

interpretation nat_dec: number_format "show_base 10"
  by unfold_locales (drule show_base_split; simp)

interpretation unsigned_dec: number_format fmt_u
  by unfold_locales (unfold fmt_u_def, drule show_base_split, auto simp: unsigned_word_eqI)

interpretation unsigned_hex: number_format fmt_x
  by unfold_locales (unfold fmt_x_def, drule show_base_split, auto simp: unsigned_word_eqI)

lemma fmt_d_split: "fmt_d v @ x = fmt_d w @ y \<Longrightarrow> ends_number x \<Longrightarrow> ends_number y \<Longrightarrow> v = w \<and> x = y"
proof -
  assume e: "fmt_d v @ x = fmt_d w @ y" and xy: "ends_number x" "ends_number y"
  have sg: "sint v < 0 \<longleftrightarrow> sint w < 0" using e show_base_not_minus[of 10] by (auto simp: fmt_d_def split: if_splits dest: sym)
  have "nat \<bar>sint v\<bar> = nat \<bar>sint w\<bar> \<and> x = y"
    using e sg xy show_base_split[of 10 "nat \<bar>sint v\<bar>" x "nat \<bar>sint w\<bar>" y] by (auto simp: fmt_d_def abs_if split: if_splits)
  then have "sint v = sint w \<and> x = y" using sg by (auto simp: abs_if)
  then show ?thesis using signed_word_eqI by blast
qed

interpretation signed_dec: number_format fmt_d
  by unfold_locales (rule fmt_d_split)

lemma ends_number_Cons: "ends_number (c # s) \<longleftrightarrow> c \<notin> set hex_digits"
  by (simp add: ends_number_def)

lemmas fmt_iffs = nat_dec.append_iff unsigned_dec.append_iff unsigned_hex.append_iff signed_dec.append_iff
  ends_number_Cons hex_digits_def newline_def

text \<open>
  A printed record: a text from which the observed part of the record and the text that follows
  can be told. Lists of as many records then print alike only if what is observed of them agrees.
\<close>

locale record_format =
  fixes line :: "'r \<Rightarrow> string" and obs :: "'r \<Rightarrow> 'o"
  assumes line_split: "line r @ x = line s @ y \<Longrightarrow> obs r = obs s \<and> x = y"
begin

lemma lines_split:
  "length rs = length ss \<Longrightarrow> concat (map line rs) @ x = concat (map line ss) @ y \<Longrightarrow> map obs rs = map obs ss \<and> x = y"
proof (induction rs ss rule: list_induct2)
  case (Cons r rs s ss)
  then show ?case using line_split[of r "concat (map line rs) @ x" s "concat (map line ss) @ y"] by simp
qed simp

end

end
