(* ===== verification/Dump_Stackinfo.thy ===== *)
theory Dump_Stackinfo
  imports Printf Tool_Run
begin

text \<open>
  The printer of the tables the metadata tool adds, \<open>tool/stack_metadata/utils/dump_stackinfo.c\<close>:
  the text each function writes to standard output, with its success flag. A section that
  announces more records than it has data makes the loop read outside it, and a section with
  neither size nor entry size is divided by zero.
\<close>

section \<open>Sections\<close>

text \<open>
  The beginning all five functions share: \<open>None\<close> is returning \<open>false\<close>. The records are those the
  loop will visit.
\<close>

definition section_records :: "scn \<Rightarrow> nat \<Rightarrow> (u8 list \<Rightarrow> 'r) \<Rightarrow> 'r list option res" where
  "section_records s n dec =
     (if \<not> s_hdr_ok s then Inr None
      else if s_size s \<noteq> 0 \<and> s_entsize s = 0 then Inr None
      else (case s_blocks s of [] \<Rightarrow> Inr None
        | d # _ \<Rightarrow>
            if s_entsize s = 0 then Inl (UB Divide_by_zero)
            else let num = unat (s_size s div s_entsize s); rs = dec_table n dec d in
              if length rs < num then Inl (UB Out_of_bounds) else Inr (Some (take num rs))))"

definition found :: "'r list \<Rightarrow> string" where
  "found rs = ''found '' @ show_base 10 (length rs) @ '' entries'' @ newline"

definition print_unwind_func :: "unwind_addr \<Rightarrow> string" where
  "print_unwind_func r = ''0x'' @ fmt_x (ua_addr r) @ '': '' @ fmt_u (ua_num_unwind r) @
     '' records (offset='' @ fmt_u (ua_unwind_offset r) @ '')'' @ newline"

definition dump_unwind_funcs :: "scn \<Rightarrow> (bool \<times> string) res" where
  "dump_unwind_funcs s =
     bindE (section_records s 16 dec_unwind_addr) (\<lambda>r. case r of None \<Rightarrow> Inr (False, [])
     | Some rs \<Rightarrow> Inr (True, found rs @ concat (map print_unwind_func rs) @ newline))"

definition print_unwind_loc :: "nat \<Rightarrow> unwind_loc \<Rightarrow> string" where
  "print_unwind_loc i r = show_base 10 i @ '': Register '' @ fmt_u (ul_reg r) @ '' at frame pointer + '' @
     fmt_d (ul_offset r) @ newline"

definition dump_unwind_locs :: "scn \<Rightarrow> (bool \<times> string) res" where
  "dump_unwind_locs s =
     bindE (section_records s 4 dec_unwind_loc) (\<lambda>r. case r of None \<Rightarrow> Inr (False, [])
     | Some rs \<Rightarrow> Inr (True, found rs @ concat (map2 print_unwind_loc [0..<length rs] rs) @ newline))"

definition print_site :: "call_site \<Rightarrow> string" where
  "print_site r = fmt_u (cs_id r) @ '': 0x'' @ fmt_x (cs_addr r) @ '', '' @ fmt_u (cs_frame_size r) @ '', '' @
     fmt_u (cs_num_unwind r) @ '' unwind entries (offset='' @ fmt_u (cs_unwind_offset r) @ ''), '' @
     fmt_u (cs_num_live r) @ '' live value(s) (offset='' @ fmt_u (cs_live_offset r) @ ''), '' @
     fmt_u (cs_num_arch_live r) @ '' arch-specific live value(s) (offset='' @ fmt_u (cs_arch_live_offset r) @ '')'' @ newline"

definition dump_callsite_section :: "scn \<Rightarrow> (bool \<times> string) res" where
  "dump_callsite_section s =
     bindE (section_records s 52 dec_call_site) (\<lambda>r. case r of None \<Rightarrow> Inr (False, [])
     | Some rs \<Rightarrow> Inr (True, found rs @ concat (map print_site rs) @ newline))"

section \<open>Live values\<close>

definition print_loc_record :: "live_value \<Rightarrow> bool \<times> string" where
  "print_loc_record r =
     (let rest = (if is_duplicate r then '' (duplicate record)'' else []) @
            (if is_ptr r then
               (if is_alloca r then '', is an alloca of size '' @ fmt_u (alloca_size r) @ '' byte(s)'' @ newline
                else '', is a pointer'' @ newline)
             else newline) in
      case lv_type r of
        SM_REGISTER \<Rightarrow> (True, ''in register '' @ fmt_u (lv_regnum r) @ rest)
      | SM_DIRECT \<Rightarrow> (True, ''at register '' @ fmt_u (lv_regnum r) @ '' + '' @ fmt_d (lv_offset r) @ rest)
      | SM_INDIRECT \<Rightarrow> (True, ''at pointer generated by register '' @ fmt_u (lv_regnum r) @ '' + '' @ fmt_d (lv_offset r) @ rest)
      | SM_CONSTANT \<Rightarrow> (True, fmt_d (lv_offset r) @ rest)
      | SM_CONST_IDX \<Rightarrow> (True, ''in constant pool at index '' @ fmt_d (lv_offset r) @ rest)
      | SM_OTHER n \<Rightarrow> (False, ''unknown type '' @ show_base 16 n @ newline))"

definition inst_name :: "inst_type \<Rightarrow> string option" where
  "inst_name t = (case t of Inst_Set \<Rightarrow> Some ''Set'' | Inst_Add \<Rightarrow> Some ''Add'' | Inst_Subtract \<Rightarrow> Some ''Subtract''
     | Inst_Multiply \<Rightarrow> Some ''Multiply'' | Inst_Divide \<Rightarrow> Some ''Divide'' | Inst_LeftShift \<Rightarrow> Some ''LeftShift''
     | Inst_RightShiftLog \<Rightarrow> Some ''RightShiftLog'' | Inst_RightShiftArith \<Rightarrow> Some ''RightShiftArith''
     | Inst_Mask \<Rightarrow> Some ''Mask'' | Inst_Load \<Rightarrow> Some ''Load'' | Inst_StackSlot \<Rightarrow> Some ''StackSlot''
     | Inst_ConstantPool \<Rightarrow> Some ''ConstantPool'' | Inst_other n \<Rightarrow> None)"

text \<open>The three switches of a record; a text that was written before a failure stays written.\<close>

definition print_operand :: "arch_live_value \<Rightarrow> bool \<times> string" where
  "print_operand r =
     (let reg = fmt_u (al_operand_regnum r); c = al_operand_offset_or_constant r in
      case al_operand_type r of
        SM_REGISTER \<Rightarrow> (True, ''register '' @ reg @ newline)
      | SM_DIRECT \<Rightarrow> (True, ''value stored at register '' @ reg @ '' + '' @ fmt_d c @ newline)
      | SM_INDIRECT \<Rightarrow> (True, ''register '' @ reg @ '' + '' @ fmt_d c @ newline)
      | SM_CONSTANT \<Rightarrow> (True, ''value = '' @ fmt_d c @ '' / 0x'' @ fmt_x c @ newline)
      | t \<Rightarrow> (False, ''unknown operand type '' @ show_base 16 (loc_code t) @ newline))"

definition print_arch_val_record :: "arch_live_value \<Rightarrow> bool \<times> string" where
  "print_arch_val_record r =
     (let tail = (\<lambda>pre. case inst_name (al_inst_type r) of
            None \<Rightarrow> (False, pre @ '', unknown instruction type '' @ show_base 16 (inst_code (al_inst_type r)) @ newline)
          | Some n \<Rightarrow> let (ok, t) = print_operand r in (ok, pre @ '', '' @ n @ '' '' @ t)) in
      case al_type r of
        SM_REGISTER \<Rightarrow> tail (''in register '' @ fmt_u (al_regnum r))
      | SM_INDIRECT \<Rightarrow> tail (''at pointer generated by register '' @ fmt_u (al_regnum r) @ '' + '' @ fmt_d (al_offset r))
      | t \<Rightarrow> (False, ''unknown type '' @ show_base 16 (loc_code t) @ newline))"

text \<open>A loop that stops at the first record that cannot be printed.\<close>

fun print_values :: "('r \<Rightarrow> bool \<times> string) \<Rightarrow> nat \<Rightarrow> 'r list \<Rightarrow> bool \<times> string" where
  "print_values f i [] = (True, newline)"
| "print_values f i (r # rs) =
     (let (ok, t) = f r; pre = show_base 10 i @ '': value is '' @ t in
      if ok then (let (ok', t') = print_values f (Suc i) rs in (ok', pre @ t')) else (False, pre))"

definition dump_livelocs_section :: "scn \<Rightarrow> (bool \<times> string) res" where
  "dump_livelocs_section s =
     bindE (section_records s 12 dec_live_value) (\<lambda>r. case r of None \<Rightarrow> Inr (False, [])
     | Some rs \<Rightarrow> let (ok, t) = print_values print_loc_record 0 rs in Inr (ok, found rs @ t))"

definition dump_archlive_section :: "scn \<Rightarrow> (bool \<times> string) res" where
  "dump_archlive_section s =
     bindE (section_records s 20 dec_arch_live_value) (\<lambda>r. case r of None \<Rightarrow> Inr (False, [])
     | Some rs \<Rightarrow> let (ok, t) = print_values print_arch_val_record 0 rs in Inr (ok, found rs @ t))"

section \<open>The whole dump\<close>

definition dump_one :: "elf \<Rightarrow> string \<Rightarrow> (scn \<Rightarrow> (bool \<times> string) res) \<Rightarrow> string \<Rightarrow> (ret_t option \<times> string) res" where
  "dump_one e name dump out =
     (case get_section_by_name e name of None \<Rightarrow> Inr (Some FIND_SECTION_FAILED, out)
      | Some i \<Rightarrow>
          bindE (dump (e_secs e ! i)) (\<lambda>(ok, t).
          let out1 = out @ ''Reading section '' @ name @ '': '' @ t in
          Inr (if ok then (None, out1) else (Some READ_ELF_FAILED, out1 @ ''failed.'' @ newline))))"

fun dump_all :: "elf \<Rightarrow> (string \<times> (scn \<Rightarrow> (bool \<times> string) res)) list \<Rightarrow> string \<Rightarrow> (ret_t \<times> string) res" where
  "dump_all e [] out = Inr (SUCCESS, out)"
| "dump_all e ((name, dump) # ds) out =
     bindE (dump_one e name dump out) (\<lambda>(r, out1). case r of Some r \<Rightarrow> Inr (r, out1) | None \<Rightarrow> dump_all e ds out1)"

definition dump_metadata :: "string \<Rightarrow> bin \<Rightarrow> (ret_t \<times> string) res" where
  "dump_metadata st_section_name b =
     dump_all (b_elf b)
       [(sec_name st_section_name ''unwind_arange'', dump_unwind_funcs), (sec_name st_section_name ''unwind'', dump_unwind_locs),
        (sec_name st_section_name ''id'', dump_callsite_section), (sec_name st_section_name ''addr'', dump_callsite_section),
        (sec_name st_section_name ''live'', dump_livelocs_section),
        (sec_name st_section_name ''arch_const'', dump_archlive_section)] []"

section \<open>What a dump tells\<close>

text \<open>The fields of a call site a line shows: all but the padding.\<close>

definition site_fields :: "call_site \<Rightarrow> call_site" where
  "site_fields r = r\<lparr>cs_padding := 0\<rparr>"

interpretation site_line: record_format print_site site_fields
proof unfold_locales
  fix r s x y assume "print_site r @ x = print_site s @ y"
  then show "site_fields r = site_fields s \<and> x = y"
    by (cases r; cases s) (simp add: print_site_def site_fields_def fmt_iffs)
qed

interpretation func_line: record_format print_unwind_func "\<lambda>r. r"
proof unfold_locales
  fix r s x y assume "print_unwind_func r @ x = print_unwind_func s @ y"
  then show "r = s \<and> x = y" by (cases r; cases s) (simp add: print_unwind_func_def fmt_iffs)
qed

interpretation loc_line: record_format "\<lambda>(i, r). print_unwind_loc i r" "\<lambda>p. p"
proof unfold_locales
  fix r s :: "nat \<times> unwind_loc" and x y
  assume "(case r of (i, r) \<Rightarrow> print_unwind_loc i r) @ x = (case s of (i, r) \<Rightarrow> print_unwind_loc i r) @ y"
  then show "r = s \<and> x = y"
    by (cases r; cases s; cases "snd r"; cases "snd s") (simp add: print_unwind_loc_def fmt_iffs)
qed

lemma found_split: "found rs @ x = found ss @ y \<longleftrightarrow> length rs = length ss \<and> x = y"
  by (simp add: found_def fmt_iffs)

lemma site_dumps_split:
  assumes "dump_callsite_section s = Inr (True, t)" and "dump_callsite_section s' = Inr (True, t')" and "t @ x = t' @ y"
  shows "\<exists>rs rs'. section_records s 52 dec_call_site = Inr (Some rs) \<and> section_records s' 52 dec_call_site = Inr (Some rs') \<and>
    map site_fields rs = map site_fields rs'" and "x = y"
proof -
  from assms obtain rs rs' where r: "section_records s 52 dec_call_site = Inr (Some rs)"
    "section_records s' 52 dec_call_site = Inr (Some rs')"
    "found rs @ concat (map print_site rs) @ newline @ x = found rs' @ concat (map print_site rs') @ newline @ y"
    by (auto simp: dump_callsite_section_def bindE_eq_Inr_iff split: option.splits)
  from r(3) have "map site_fields rs = map site_fields rs' \<and> newline @ x = newline @ y"
    unfolding found_split using site_line.lines_split by blast
  with r(1,2) show "\<exists>rs rs'. section_records s 52 dec_call_site = Inr (Some rs) \<and>
    section_records s' 52 dec_call_site = Inr (Some rs') \<and> map site_fields rs = map site_fields rs'" "x = y" by auto
qed

lemma func_dumps_split:
  assumes "dump_unwind_funcs s = Inr (True, t)" and "dump_unwind_funcs s' = Inr (True, t')" and "t @ x = t' @ y"
  shows "\<exists>rs. section_records s 16 dec_unwind_addr = Inr (Some rs) \<and> section_records s' 16 dec_unwind_addr = Inr (Some rs)"
    and "x = y"
proof -
  from assms obtain rs rs' where r: "section_records s 16 dec_unwind_addr = Inr (Some rs)"
    "section_records s' 16 dec_unwind_addr = Inr (Some rs')"
    "found rs @ concat (map print_unwind_func rs) @ newline @ x = found rs' @ concat (map print_unwind_func rs') @ newline @ y"
    by (auto simp: dump_unwind_funcs_def bindE_eq_Inr_iff split: option.splits)
  from r(3) have "rs = rs' \<and> newline @ x = newline @ y"
    unfolding found_split using func_line.lines_split[of rs rs' "newline @ x" "newline @ y"] by simp
  with r(1,2) show "\<exists>rs. section_records s 16 dec_unwind_addr = Inr (Some rs) \<and> section_records s' 16 dec_unwind_addr = Inr (Some rs)"
    "x = y" by auto
qed

lemma loc_dumps_split:
  assumes "dump_unwind_locs s = Inr (True, t)" and "dump_unwind_locs s' = Inr (True, t')" and "t @ x = t' @ y"
  shows "\<exists>rs. section_records s 4 dec_unwind_loc = Inr (Some rs) \<and> section_records s' 4 dec_unwind_loc = Inr (Some rs)"
    and "x = y"
proof -
  from assms obtain rs rs' where r: "section_records s 4 dec_unwind_loc = Inr (Some rs)"
    "section_records s' 4 dec_unwind_loc = Inr (Some rs')"
    "found rs @ concat (map2 print_unwind_loc [0..<length rs] rs) @ newline @ x =
     found rs' @ concat (map2 print_unwind_loc [0..<length rs'] rs') @ newline @ y"
    by (auto simp: dump_unwind_locs_def bindE_eq_Inr_iff split: option.splits)
  from r(3) have z: "zip [0..<length rs] rs = zip [0..<length rs'] rs' \<and> newline @ x = newline @ y"
    unfolding found_split using loc_line.lines_split[of "zip [0..<length rs] rs" "zip [0..<length rs'] rs'" "newline @ x" "newline @ y"] by auto
  then have "map snd (zip [0..<length rs] rs) = map snd (zip [0..<length rs'] rs')" by simp
  then have "rs = rs'" by simp
  with z r(1,2) show "\<exists>rs. section_records s 4 dec_unwind_loc = Inr (Some rs) \<and> section_records s' 4 dec_unwind_loc = Inr (Some rs)"
    "x = y" by auto
qed

section \<open>Sections as the tool writes them\<close>

definition holds_table :: "scn \<Rightarrow> nat \<Rightarrow> ('r \<Rightarrow> u8 list) \<Rightarrow> 'r list \<Rightarrow> bool" where
  "holds_table s n enc rs \<longleftrightarrow> s_hdr_ok s \<and> s_blocks s = [enc_table enc rs] \<and> s_entsize s = of_nat n \<and>
     s_size s = of_nat (n * length rs) \<and> 0 < n \<and> n * length rs < 2 ^ 64"

lemma section_records_table:
  assumes "holds_table s n enc rs" and "dec_table n dec (enc_table enc rs) = rs" and "n < 2 ^ 64"
  shows "section_records s n dec = Inr (Some rs)"
proof -
  have n: "unat (of_nat n :: u64) = n" "unat (of_nat (n * length rs) :: u64) = n * length rs"
    using assms(1,3) unfolding holds_table_def by (auto simp del: of_nat_mult intro!: unat_of_nat_small)
  then have "unat (s_size s div s_entsize s) = length rs" "s_entsize s \<noteq> 0"
    using assms(1) by (auto simp: holds_table_def unat_div simp flip: unat_eq_0)
  with assms(1,2) show ?thesis by (simp add: section_records_def holds_table_def)
qed

lemma no_entries_divides_by_zero:
  "s_hdr_ok s \<Longrightarrow> s_size s = 0 \<Longrightarrow> s_entsize s = 0 \<Longrightarrow> s_blocks s = d # ds \<Longrightarrow> section_records s n dec = Inl (UB Divide_by_zero)"
  by (simp add: section_records_def)

section \<open>When a dump fails\<close>

lemma print_values_ok: "fst (print_values f i rs) \<longleftrightarrow> (\<forall>r\<in>set rs. fst (f r))"
proof (induction rs arbitrary: i)
  case (Cons r rs)
  then show ?case by (cases "f r"; cases "print_values f (Suc i) rs") (use Cons[of "Suc i"] in \<open>auto simp: Let_def\<close>)
qed simp

text \<open>The types a live value may have, and what an architecture-specific one needs in addition.\<close>

definition known_live :: "live_value \<Rightarrow> bool" where
  "known_live r \<longleftrightarrow> (case lv_type r of SM_OTHER n \<Rightarrow> False | t \<Rightarrow> True)"

definition known_arch :: "arch_live_value \<Rightarrow> bool" where
  "known_arch r \<longleftrightarrow> al_type r \<in> {SM_REGISTER, SM_INDIRECT} \<and> inst_name (al_inst_type r) \<noteq> None \<and>
     al_operand_type r \<in> {SM_REGISTER, SM_DIRECT, SM_INDIRECT, SM_CONSTANT}"

lemma print_loc_record_ok: "fst (print_loc_record r) \<longleftrightarrow> known_live r"
  by (simp add: print_loc_record_def known_live_def Let_def split: location_type.splits)

lemma print_arch_val_record_ok: "fst (print_arch_val_record r) \<longleftrightarrow> known_arch r"
  by (auto simp: print_arch_val_record_def print_operand_def known_arch_def Let_def
      split: location_type.splits option.splits prod.splits)

lemma dump_livelocs_ok:
  assumes "section_records s 12 dec_live_value = Inr (Some rs)"
  shows "\<exists>t. dump_livelocs_section s = Inr (\<forall>r\<in>set rs. known_live r, t)"
  using assms print_values_ok[of print_loc_record 0 rs] print_loc_record_ok
  by (cases "print_values print_loc_record 0 rs") (simp add: dump_livelocs_section_def)

lemma dump_archlive_ok:
  assumes "section_records s 20 dec_arch_live_value = Inr (Some rs)"
  shows "\<exists>t. dump_archlive_section s = Inr (\<forall>r\<in>set rs. known_arch r, t)"
  using assms print_values_ok[of print_arch_val_record 0 rs] print_arch_val_record_ok
  by (cases "print_values print_arch_val_record 0 rs") (simp add: dump_archlive_section_def)


section \<open>Dumps and the runtime's handles\<close>

text \<open>What the printer finds in a section is what the runtime's handle has for it.\<close>

definition scn_named :: "elf \<Rightarrow> string \<Rightarrow> scn" where
  "scn_named e name = e_secs e ! the (get_section_by_name e name)"

lemma section_records_read:
  assumes "read_section e sec n dec = Some (c, rs)" and "section_records (scn_named e sec) n dec = Inr (Some rs')"
  shows "rs' = take (unat c) rs"
proof -
  from assms(1) obtain i d ds where i: "get_section_by_name e sec = Some i" "c = get_num_entries e sec"
    "s_blocks (e_secs e ! i) = d # ds" "rs = dec_table n dec d"
    by (auto simp: read_section_def st_get_section_data_def get_section_eq Let_def split: option.splits if_splits list.splits)
  with assms(2) show ?thesis
    by (auto simp: section_records_def scn_named_def get_num_entries_def get_section_eq Let_def split: if_splits)
qed

lemma dump_one_success:
  assumes "dump_one e name dump out = Inr (None, out1)"
  obtains t where "dump (scn_named e name) = Inr (True, t)" and "out1 = out @ ''Reading section '' @ name @ '': '' @ t"
  using assms by (auto simp: dump_one_def scn_named_def bindE_eq_Inr_iff Let_def split: option.splits if_splits prod.splits)

lemma dump_one_code: "dump_one e name dump out = Inr (Some r, t) \<Longrightarrow> r \<noteq> SUCCESS"
  by (auto simp: dump_one_def bindE_eq_Inr_iff Let_def split: option.splits if_splits prod.splits)

lemma dump_all_Cons_success:
  assumes "dump_all e ((name, dump) # ds) out = Inr (SUCCESS, t)"
  shows "\<exists>out1. dump_one e name dump out = Inr (None, out1) \<and> dump_all e ds out1 = Inr (SUCCESS, t)"
proof -
  from assms obtain r out1 where o: "dump_one e name dump out = Inr (r, out1)"
    "(case r of Some r \<Rightarrow> Inr (r, out1) | None \<Rightarrow> dump_all e ds out1) = Inr (SUCCESS, t)"
    by (auto simp: bindE_eq_Inr_iff)
  then show ?thesis using dump_one_code[of e name dump out] by (cases r) auto
qed

text \<open>The text of a successful dump: a part for each section.\<close>

definition dumped :: "elf \<Rightarrow> string \<Rightarrow> (scn \<Rightarrow> (bool \<times> string) res) \<Rightarrow> string \<Rightarrow> bool" where
  "dumped e name dump part \<longleftrightarrow> (\<exists>t. dump (scn_named e name) = Inr (True, t) \<and> part = ''Reading section '' @ name @ '': '' @ t)"

lemma dump_all_Cons_dumped:
  assumes "dump_all e ((name, dump) # ds) out = Inr (SUCCESS, t)"
  obtains part where "dumped e name dump part" and "dump_all e ds (out @ part) = Inr (SUCCESS, t)"
  using dump_all_Cons_success[OF assms] by (auto simp: dumped_def elim!: dump_one_success)

lemma dump_all_prefix: "dump_all e ds out = Inr (SUCCESS, t) \<Longrightarrow> \<exists>rest. t = out @ rest"
proof (induction ds arbitrary: out)
  case (Cons d ds)
  obtain name dump where d: "d = (name, dump)" by (cases d)
  from Cons.prems obtain part where "dump_all e ds (out @ part) = Inr (SUCCESS, t)"
    unfolding d by (rule dump_all_Cons_dumped)
  from Cons.IH[OF this] show ?case by auto
qed simp

lemma dump_metadata_parts:
  assumes "dump_metadata pre b = Inr (SUCCESS, t)"
  obtains t1 t2 t3 t4 where "dumped (b_elf b) (sec_name pre ''unwind_arange'') dump_unwind_funcs t1"
    and "dumped (b_elf b) (sec_name pre ''unwind'') dump_unwind_locs t2"
    and "dumped (b_elf b) (sec_name pre ''id'') dump_callsite_section t3"
    and "t = t1 @ t2 @ t3 @ t4"
proof -
  from assms obtain t1 t2 t3 ds where p: "dumped (b_elf b) (sec_name pre ''unwind_arange'') dump_unwind_funcs t1"
    "dumped (b_elf b) (sec_name pre ''unwind'') dump_unwind_locs t2"
    "dumped (b_elf b) (sec_name pre ''id'') dump_callsite_section t3"
    "dump_all (b_elf b) ds ((([] @ t1) @ t2) @ t3) = Inr (SUCCESS, t)"
    unfolding dump_metadata_def by (meson dump_all_Cons_dumped)
  from dump_all_prefix[OF p(4)] p(1-3) that show ?thesis by auto
qed

lemma dumped_split:
  assumes "dumped e name dump p" and "dumped e' name dump q" and "p @ x = q @ y"
  obtains t u where "dump (scn_named e name) = Inr (True, t)" and "dump (scn_named e' name) = Inr (True, u)" and "t @ x = u @ y"
  using assms by (auto simp: dumped_def)

lemma dump_tables_agree:
  assumes "dump_metadata pre b = Inr (SUCCESS, t)" and "dump_metadata pre b' = Inr (SUCCESS, t)"
  shows "\<exists>rs. section_records (scn_named (b_elf b) (sec_name pre ''unwind_arange'')) 16 dec_unwind_addr = Inr (Some rs) \<and>
      section_records (scn_named (b_elf b') (sec_name pre ''unwind_arange'')) 16 dec_unwind_addr = Inr (Some rs)" (is ?a)
    and "\<exists>rs. section_records (scn_named (b_elf b) (sec_name pre ''unwind'')) 4 dec_unwind_loc = Inr (Some rs) \<and>
      section_records (scn_named (b_elf b') (sec_name pre ''unwind'')) 4 dec_unwind_loc = Inr (Some rs)" (is ?l)
    and "\<exists>rs rs'. section_records (scn_named (b_elf b) (sec_name pre ''id'')) 52 dec_call_site = Inr (Some rs) \<and>
      section_records (scn_named (b_elf b') (sec_name pre ''id'')) 52 dec_call_site = Inr (Some rs') \<and>
      map site_fields rs = map site_fields rs'" (is ?s)
proof -
  obtain t1 t2 t3 t4 where p: "dumped (b_elf b) (sec_name pre ''unwind_arange'') dump_unwind_funcs t1"
    "dumped (b_elf b) (sec_name pre ''unwind'') dump_unwind_locs t2"
    "dumped (b_elf b) (sec_name pre ''id'') dump_callsite_section t3" "t = t1 @ t2 @ t3 @ t4"
    by (rule dump_metadata_parts[OF assms(1)])
  obtain u1 u2 u3 u4 where q: "dumped (b_elf b') (sec_name pre ''unwind_arange'') dump_unwind_funcs u1"
    "dumped (b_elf b') (sec_name pre ''unwind'') dump_unwind_locs u2"
    "dumped (b_elf b') (sec_name pre ''id'') dump_callsite_section u3" "t = u1 @ u2 @ u3 @ u4"
    by (rule dump_metadata_parts[OF assms(2)])
  have e: "t1 @ t2 @ t3 @ t4 = u1 @ u2 @ u3 @ u4" using p(4) q(4) by simp
  obtain v1 w1 where 1: "dump_unwind_funcs (scn_named (b_elf b) (sec_name pre ''unwind_arange'')) = Inr (True, v1)"
    "dump_unwind_funcs (scn_named (b_elf b') (sec_name pre ''unwind_arange'')) = Inr (True, w1)"
    "v1 @ t2 @ t3 @ t4 = w1 @ u2 @ u3 @ u4"
    by (rule dumped_split[OF p(1) q(1) e])
  obtain v2 w2 where 2: "dump_unwind_locs (scn_named (b_elf b) (sec_name pre ''unwind'')) = Inr (True, v2)"
    "dump_unwind_locs (scn_named (b_elf b') (sec_name pre ''unwind'')) = Inr (True, w2)" "v2 @ t3 @ t4 = w2 @ u3 @ u4"
    by (rule dumped_split[OF p(2) q(2) func_dumps_split(2)[OF 1]])
  obtain v3 w3 where 3: "dump_callsite_section (scn_named (b_elf b) (sec_name pre ''id'')) = Inr (True, v3)"
    "dump_callsite_section (scn_named (b_elf b') (sec_name pre ''id'')) = Inr (True, w3)" "v3 @ t4 = w3 @ u4"
    by (rule dumped_split[OF p(3) q(3) loc_dumps_split(2)[OF 2]])
  show ?a ?l ?s by (rule func_dumps_split(1)[OF 1] loc_dumps_split(1)[OF 2] site_dumps_split(1)[OF 3])+
qed

lemma dump_names:
  "sec_name SECTION_PREFIX ''unwind_arange'' = SECTION_ST_UNWIND_ADDR" "sec_name SECTION_PREFIX ''unwind'' = SECTION_ST_UNWIND"
  "sec_name SECTION_PREFIX ''id'' = SECTION_ST_ID" "sec_name SECTION_PREFIX ''addr'' = SECTION_ST_ADDR"
  "sec_name SECTION_PREFIX ''live'' = SECTION_ST_LIVE" "sec_name SECTION_PREFIX ''arch_const'' = SECTION_ST_ARCH_LIVE"
  by (simp_all add: sec_name_def SECTION_PREFIX_def SECTION_ST_UNWIND_ADDR_def SECTION_ST_UNWIND_def SECTION_ST_ID_def
      SECTION_ST_ADDR_def SECTION_ST_LIVE_def SECTION_ST_ARCH_LIVE_def BUF_SIZE_def)

lemma equal_dumps_agree:
  assumes d: "dump_metadata SECTION_PREFIX b = Inr (SUCCESS, t)" "dump_metadata SECTION_PREFIX b' = Inr (SUCCESS, t)"
    and h: "read_handle fn (b_elf b) = Some h" "read_handle fn' (b_elf b') = Some h'"
  shows "take (unat (rh_unwind_addr_count h)) (rh_unwind_addrs h) = take (unat (rh_unwind_addr_count h')) (rh_unwind_addrs h')"
    and "take (unat (rh_unwind_count h)) (rh_unwind_locs h) = take (unat (rh_unwind_count h')) (rh_unwind_locs h')"
    and "map site_fields (take (unat (rh_sites_count h)) (rh_sites_id h)) =
      map site_fields (take (unat (rh_sites_count h')) (rh_sites_id h'))"
proof -
  note a = dump_tables_agree[OF d, unfolded dump_names]
  note r = read_handle_sections[OF h(1)] and r' = read_handle_sections[OF h(2)]
  show "take (unat (rh_unwind_addr_count h)) (rh_unwind_addrs h) = take (unat (rh_unwind_addr_count h')) (rh_unwind_addrs h')"
    using a(1) section_records_read[OF r(1)] section_records_read[OF r'(1)] by metis
  show "take (unat (rh_unwind_count h)) (rh_unwind_locs h) = take (unat (rh_unwind_count h')) (rh_unwind_locs h')"
    using a(2) section_records_read[OF r(2)] section_records_read[OF r'(2)] by metis
  show "map site_fields (take (unat (rh_sites_count h)) (rh_sites_id h)) =
      map site_fields (take (unat (rh_sites_count h')) (rh_sites_id h'))"
    using a(3) section_records_read[OF r(3)] section_records_read[OF r'(3)] by metis
qed


text \<open>Conversely, sections that are found and can be printed give a dump.\<close>

definition part_ok :: "elf \<Rightarrow> string \<times> (scn \<Rightarrow> (bool \<times> string) res) \<times> string \<Rightarrow> bool" where
  "part_ok e p = (case p of (name, dump, t) \<Rightarrow>
     (case get_section_by_name e name of None \<Rightarrow> False | Some i \<Rightarrow> dump (e_secs e ! i) = Inr (True, t)))"

lemma dump_all_ok:
  "\<forall>p\<in>set ps. part_ok e p \<Longrightarrow> dump_all e (map (\<lambda>(name, dump, t). (name, dump)) ps) out =
     Inr (SUCCESS, out @ concat (map (\<lambda>(name, dump, t). ''Reading section '' @ name @ '': '' @ t) ps))"
proof (induction ps arbitrary: out)
  case (Cons p ps)
  obtain name dump t where p: "p = (name, dump, t)" by (cases p)
  have "part_ok e (name, dump, t)" using Cons.prems by (simp add: p)
  then have "dump_one e name dump out = Inr (None, out @ ''Reading section '' @ name @ '': '' @ t)"
    by (simp add: part_ok_def dump_one_def split: option.splits)
  then show ?case using Cons by (simp add: p)
qed simp


end
