(* ===== verification/Dump_Stackmap.thy ===== *)
theory Dump_Stackmap
  imports Dump_Stackinfo
begin

text \<open>
  The printer of LLVM's stack maps, \<open>tool/stack_metadata/utils/dump_llvm_stackmap.c\<close>. Each function
  gives its success flag and the text it writes; a loop stops at the first record that cannot be
  printed, and a count that exceeds an array makes it read outside the array. The parser never
  leaves such counts, so the printer is defined on everything the parser accepts.
\<close>

section \<open>Sequences of prints\<close>

definition then_print :: "(bool \<times> string) res \<Rightarrow> (bool \<times> string) res \<Rightarrow> (bool \<times> string) res" where
  "then_print a b = bindE a (\<lambda>(ok, t). if ok then bindE b (\<lambda>(ok', t'). Inr (ok', t @ t')) else Inr (False, t))"

definition text_of :: "string \<Rightarrow> (bool \<times> string) res" where
  "text_of t = Inr (True, t)"

text \<open>\<open>for(i = 0; i < n; i++)\<close> over an array, with the index.\<close>

fun print_loop :: "(nat \<Rightarrow> 'r \<Rightarrow> (bool \<times> string) res) \<Rightarrow> nat \<Rightarrow> nat \<Rightarrow> 'r list \<Rightarrow> (bool \<times> string) res" where
  "print_loop f i 0 rs = Inr (True, [])"
| "print_loop f i (Suc n) [] = Inl (UB Out_of_bounds)"
| "print_loop f i (Suc n) (r # rs) = then_print (f i r) (print_loop f (Suc i) n rs)"

section \<open>Locations and call sites\<close>

text \<open>The switches of both functions are those of \<open>dump_stackinfo.c\<close>, after another beginning of the line.\<close>

definition dump_location :: "live_value \<Rightarrow> bool \<times> string" where
  "dump_location r = (let (ok, t) = print_loc_record r in (ok, ''    Location: '' @ t))"

definition dump_arch_location :: "arch_live_value \<Rightarrow> bool \<times> string" where
  "dump_arch_location r = (let (ok, t) = print_arch_val_record r in (ok, ''    Arch-specific location: '' @ t))"

definition dump_call_site :: "call_site_record \<Rightarrow> (bool \<times> string) res" where
  "dump_call_site cs =
     then_print (text_of (''  Call site '' @ fmt_u (csr_id cs) @ '': function '' @ fmt_u (func_idx cs) @ '', offset @ '' @
         fmt_u (csr_offset cs) @ '', '' @ fmt_u (num_locations cs) @ '' locations, '' @ fmt_u (num_live_outs cs) @
         '' live-outs, '' @ fmt_u (csr_num_arch_live cs) @ '' arch-specific locations'' @ newline))
     (then_print (print_loop (\<lambda>i r. Inr (dump_location r)) 0 (unat (num_locations cs)) (locations cs))
     (then_print (print_loop (\<lambda>i r. text_of (''    Live-out: register '' @ fmt_u (lo_regnum r) @ '' (size='' @
         fmt_u (lo_size r) @ '' bytes)'')) 0 (unat (num_live_outs cs)) (live_outs cs))
       (print_loop (\<lambda>i r. Inr (dump_arch_location r)) 0 (unat (csr_num_arch_live cs)) (arch_live cs))))"

section \<open>Stack maps\<close>

definition print_function :: "nat \<Rightarrow> function_record \<Rightarrow> string" where
  "print_function j r = ''  Function '' @ show_base 10 j @ '': address='' @ fmt_x (func_addr r) @ '', stack size='' @
     fmt_u (fr_stack_size r) @ '', number of unwinding entries: '' @ fmt_u (fr_num_unwind r) @
     '', offset into unwinding section: '' @ fmt_u (fr_unwind_offset r) @ newline"

definition print_constant :: "nat \<Rightarrow> u64 \<Rightarrow> string" where
  "print_constant j c = ''  Constant '' @ show_base 10 j @ '': '' @ fmt_u c @ '' / '' @ fmt_d c @ '' / '' @ fmt_x c @ newline"

definition dump_stackmap :: "stack_map_section \<Rightarrow> (bool \<times> string) res" where
  "dump_stackmap s =
     then_print (text_of (''Stackmap v'' @ fmt_u (sm_version s) @ '': '' @ fmt_u (num_functions s) @ '' functions, '' @
         fmt_u (num_constants s) @ '' constants, '' @ fmt_u (num_records s) @ '' call sites'' @ newline))
     (then_print (print_loop (\<lambda>j r. text_of (print_function j r)) 0 (unat (num_functions s)) (function_records s))
     (then_print (print_loop (\<lambda>j c. text_of (print_constant j c)) 0 (unat (num_constants s)) (constants s))
       (print_loop (\<lambda>j r. dump_call_site r) 0 (unat (num_records s)) (call_sites s))))"

definition dump_stackmaps :: "stack_map_section list \<Rightarrow> (bool \<times> string) res" where
  "dump_stackmaps sms =
     then_print (text_of (''Found '' @ show_base 10 (length sms) @ '' stackmaps'' @ newline))
       (print_loop (\<lambda>i s. dump_stackmap s) 0 (length sms) sms)"

text \<open>\<open>dump_metadata\<close>: the code it returns and the text on standard output.\<close>

definition dump_llvm_metadata :: "nat \<Rightarrow> string \<Rightarrow> bin \<Rightarrow> tool_error + (ret_t \<times> string)" where
  "dump_llvm_metadata base sm_section_name b =
     (case init_stackmap base (Some b) of
        Inl (Ret r) \<Rightarrow> Inr (r, [])
      | Inl e \<Rightarrow> Inl e
      | Inr sms \<Rightarrow>
          bindE (lift_ub (dump_stackmaps sms)) (\<lambda>(ok, t).
          let out = ''Reading section '' @ take (BUF_SIZE - 1) sm_section_name @ '': '' @ t in
          Inr (if ok then (SUCCESS, out) else (READ_ELF_FAILED, out @ ''failed.'' @ newline))))"

section \<open>The printer is defined on what the parser accepts\<close>

definition prints :: "(bool \<times> string) res \<Rightarrow> bool \<Rightarrow> bool" where
  "prints m ok \<longleftrightarrow> (\<exists>t. m = Inr (ok, t))"

lemma prints_text: "prints (text_of t) True"
  by (simp add: prints_def text_of_def)

lemma prints_then: "prints a p \<Longrightarrow> prints b q \<Longrightarrow> prints (then_print a b) (p \<and> q)"
  by (auto simp: prints_def then_print_def)

lemma prints_loop:
  "length rs = n \<Longrightarrow> (\<And>i r. r \<in> set rs \<Longrightarrow> prints (f i r) (P r)) \<Longrightarrow> prints (print_loop f i n rs) (\<forall>r\<in>set rs. P r)"
proof (induction rs arbitrary: i n)
  case (Cons r rs)
  have "prints (print_loop f (Suc i) (length rs) rs) (\<forall>r\<in>set rs. P r)" using Cons by simp
  then have "prints (then_print (f i r) (print_loop f (Suc i) (length rs) rs)) (P r \<and> (\<forall>r\<in>set rs. P r))"
    using Cons.prems(2) by (intro prints_then) simp_all
  then show ?case using Cons.prems(1) by auto
qed (simp add: prints_def)

lemma prints_location: "prints (Inr (dump_location r)) (known_live r)"
  using print_loc_record_ok[of r] by (cases "print_loc_record r") (simp add: prints_def dump_location_def)

lemma prints_arch_location: "prints (Inr (dump_arch_location r)) (known_arch r)"
  using print_arch_val_record_ok[of r] by (cases "print_arch_val_record r") (simp add: prints_def dump_arch_location_def)

definition known_record :: "call_site_record \<Rightarrow> bool" where
  "known_record r \<longleftrightarrow> (\<forall>v\<in>set (locations r). known_live v) \<and> (\<forall>v\<in>set (arch_live r). known_arch v)"

lemma prints_call_site:
  assumes "record_wf r" shows "prints (dump_call_site r) (known_record r)"
proof -
  have "prints (dump_call_site r) (True \<and> (\<forall>v\<in>set (locations r). known_live v) \<and> (\<forall>v\<in>set (live_outs r). True) \<and>
      (\<forall>v\<in>set (arch_live r). known_arch v))"
    unfolding dump_call_site_def
    by (intro prints_then prints_text prints_loop prints_location prints_arch_location) (use assms in \<open>simp_all add: record_wf_def\<close>)
  then show ?thesis by (simp add: known_record_def)
qed

lemma prints_stackmap:
  assumes "map_section_wf s" shows "prints (dump_stackmap s) (\<forall>r\<in>set (call_sites s). known_record r)"
proof -
  have "prints (dump_stackmap s) (True \<and> (\<forall>v\<in>set (function_records s). True) \<and> (\<forall>v\<in>set (constants s). True) \<and>
      (\<forall>r\<in>set (call_sites s). known_record r))"
    unfolding dump_stackmap_def
    by (intro prints_then prints_text prints_loop prints_call_site) (use assms in \<open>simp_all add: map_section_wf_def\<close>)
  then show ?thesis by simp
qed

lemma dump_stackmaps_defined:
  assumes "\<forall>s\<in>set sms. map_section_wf s"
  shows "prints (dump_stackmaps sms) (\<forall>s\<in>set sms. \<forall>r\<in>set (call_sites s). known_record r)"
proof -
  have "prints (dump_stackmaps sms) (True \<and> (\<forall>s\<in>set sms. \<forall>r\<in>set (call_sites s). known_record r))"
    unfolding dump_stackmaps_def by (intro prints_then prints_text prints_loop prints_stackmap) (use assms in simp_all)
  then show ?thesis by simp
qed

lemma dump_llvm_metadata_defined:
  assumes "init_stackmap base (Some b) = Inr sms"
  shows "\<exists>t. dump_llvm_metadata base name b =
    Inr (if \<forall>s\<in>set sms. \<forall>r\<in>set (call_sites s). known_record r then SUCCESS else READ_ELF_FAILED, t)"
proof -
  define ok where "ok \<longleftrightarrow> (\<forall>s\<in>set sms. \<forall>r\<in>set (call_sites s). known_record r)"
  obtain t where "dump_stackmaps sms = Inr (ok, t)"
    using dump_stackmaps_defined[OF init_stackmap_wf[OF assms]] by (auto simp: prints_def ok_def)
  then show ?thesis using assms by (simp add: dump_llvm_metadata_def lift_ub_def Let_def flip: ok_def)
qed

text \<open>The section name given with \<open>-s\<close> changes what is announced and nothing that is read.\<close>

lemma section_option_ignored:
  "map_sum id fst (dump_llvm_metadata base name b) = map_sum id fst (dump_llvm_metadata base LLVM_STACKMAP_SECTION b)"
  by (auto simp: dump_llvm_metadata_def bindE_def lift_ub_def Let_def split: sum.splits tool_error.splits)

end
