(* ===== verification/Timer.thy ===== *)
theory Timer
  imports Prelude
begin

text \<open>
  The timers of the stack transformation library, \<open>lib/stack_transformation/src/timer.c\<close>, with the
  clock \<open>config.h\<close> selects. A time stamp is computed in double precision: each operation rounds to
  a multiple of a power of two with 53 significant bits, ties to even. The clock is monotonic, so
  its seconds are not negative. A clock that cannot be read is \<open>None\<close>.
\<close>

section \<open>Double precision on natural numbers\<close>

fun bit_length :: "nat \<Rightarrow> nat" where
  "bit_length n = (if n = 0 then 0 else Suc (bit_length (n div 2)))"

declare bit_length.simps [simp del]

lemma bit_length_0 [simp]: "bit_length 0 = 0"
  by (simp add: bit_length.simps)

definition round_at :: "nat \<Rightarrow> nat \<Rightarrow> nat" where
  "round_at k n = (let q = n div 2 ^ k; r = n mod 2 ^ k in
     if 2 * r < 2 ^ k \<or> 2 * r = 2 ^ k \<and> even q then q * 2 ^ k else (q + 1) * 2 ^ k)"

definition to_double :: "nat \<Rightarrow> nat" where
  "to_double n = round_at (bit_length n - 53) n"

lemma bit_length_upper: "n < 2 ^ bit_length n"
proof (induction n rule: bit_length.induct)
  case (1 n)
  then show ?case by (subst bit_length.simps) auto
qed

lemma bit_length_lower: "0 < n \<Longrightarrow> 2 ^ bit_length n \<le> 2 * n"
proof (induction n rule: bit_length.induct)
  case (1 n)
  show ?case
  proof (cases "n div 2 = 0")
    case True
    then have "n = 1" using 1(2) by auto
    then show ?thesis by (simp add: bit_length.simps)
  next
    case False
    then have "2 ^ bit_length (n div 2) \<le> 2 * (n div 2)" using 1 by simp
    then show ?thesis using 1(2) by (subst bit_length.simps) auto
  qed
qed

lemma bit_length_mono: "m \<le> n \<Longrightarrow> bit_length m \<le> bit_length n"
proof (rule ccontr)
  assume "m \<le> n" and l: "\<not> bit_length m \<le> bit_length n"
  then have "0 < m" by (cases "m = 0") simp_all
  have "2 * 2 ^ bit_length n \<le> (2 :: nat) ^ bit_length m" using l power_increasing[of "Suc (bit_length n)" "bit_length m" "2 :: nat"] by simp
  also have "\<dots> \<le> 2 * m" using \<open>0 < m\<close> by (rule bit_length_lower)
  finally show False using bit_length_upper[of n] \<open>m \<le> n\<close> by simp
qed

lemma round_at_0: "round_at 0 n = n"
  by (simp add: round_at_def)

lemma to_double_exact: "n < 2 ^ 53 \<Longrightarrow> to_double n = n"
proof -
  assume "n < 2 ^ 53"
  then have "bit_length n \<le> bit_length (2 ^ 53 - 1)" by (intro bit_length_mono) simp
  also have "bit_length (2 ^ 53 - 1) = 53" by (simp add: bit_length.simps)
  finally show ?thesis by (simp add: to_double_def round_at_0)
qed

lemma round_at_mono: "m \<le> n \<Longrightarrow> round_at k m \<le> round_at k n"
proof -
  assume mn: "m \<le> n"
  let ?K = "2 ^ k :: nat"
  have "round_at k m \<le> (m div ?K + 1) * ?K" by (simp add: round_at_def Let_def)
  moreover have "n div ?K * ?K \<le> round_at k n" by (simp add: round_at_def Let_def)
  moreover have "(m div ?K + 1) * ?K \<le> n div ?K * ?K" if "m div ?K < n div ?K" using that by (intro mult_right_mono) simp_all
  moreover have "round_at k m \<le> round_at k n" if e: "m div ?K = n div ?K"
  proof -
    have "m mod ?K \<le> n mod ?K" using mn e div_mult_mod_eq[of m ?K] div_mult_mod_eq[of n ?K] by simp
    then show ?thesis using e by (auto simp: round_at_def Let_def)
  qed
  ultimately show ?thesis using div_le_mono[OF mn, of ?K] by (metis le_neq_implies_less le_trans)
qed

lemma round_at_power: "k \<le> j \<Longrightarrow> round_at k (2 ^ j) = 2 ^ j"
  by (simp add: round_at_def Let_def le_imp_power_dvd)

lemma to_double_mono: "m \<le> n \<Longrightarrow> to_double m \<le> to_double n"
proof (cases "bit_length m = bit_length n")
  case True
  then show "m \<le> n \<Longrightarrow> to_double m \<le> to_double n" by (simp add: to_double_def round_at_mono)
next
  case False
  assume mn: "m \<le> n"
  then have l: "Suc (bit_length m) \<le> bit_length n" using bit_length_mono[OF mn] False by simp
  then have "2 ^ Suc (bit_length m) \<le> (2 :: nat) ^ bit_length n" by (intro power_increasing) simp_all
  moreover have "2 ^ bit_length n \<le> 2 * n" using l by (cases "n = 0") (simp_all add: bit_length_lower)
  ultimately have n: "2 ^ bit_length m \<le> n" by simp
  have "to_double m \<le> round_at (bit_length m - 53) (2 ^ bit_length m)"
    unfolding to_double_def using bit_length_upper[of m] by (intro round_at_mono) simp
  also have "\<dots> = 2 ^ bit_length m" by (rule round_at_power) simp
  also have "\<dots> \<le> 2 ^ (bit_length n - 1)" using l by (intro power_increasing) simp_all
  also have "\<dots> = round_at (bit_length n - 53) (2 ^ (bit_length n - 1))" by (rule round_at_power[symmetric]) simp
  also have "\<dots> \<le> to_double n"
    unfolding to_double_def
  proof (intro round_at_mono)
    have "2 * 2 ^ (bit_length n - 1) = (2 :: nat) ^ bit_length n" using l by (simp flip: power_Suc)
    then show "2 ^ (bit_length n - 1) \<le> n" using \<open>2 ^ bit_length n \<le> 2 * n\<close> by simp
  qed
  finally show "to_double m \<le> to_double n" .
qed

section \<open>Timers\<close>

record timespec =
  tv_sec :: nat
  tv_nsec :: nat

record timer =
  num_timings :: u64
  t_start :: u64
  t_elapsed :: u64

definition NEW_TIMER :: timer where
  "NEW_TIMER = \<lparr>num_timings = 0, t_start = 0, t_elapsed = 0\<rparr>"

text \<open>\<open>TS_TO_NS\<close>, assigned to an \<open>unsigned long\<close>; a value outside its range has no conversion.\<close>

definition TS_TO_NS :: "timespec \<Rightarrow> u64 res" where
  "TS_TO_NS ts =
     (let d = to_double (to_double (to_double (tv_sec ts) * 1000000000) + tv_nsec ts) in
      if d < 2 ^ 64 then Inr (of_nat d) else Inl (UB Out_of_bounds))"

definition st_timer_start :: "timespec option \<Rightarrow> timer \<Rightarrow> (int \<times> timer) res" where
  "st_timer_start clock t =
     (case clock of None \<Rightarrow> Inr (- 1, t)
      | Some ts \<Rightarrow> bindE (TS_TO_NS ts) (\<lambda>now. Inr (0, t\<lparr>t_start := now\<rparr>)))"

text \<open>Here the conversion precedes the test of the clock's result, so it reads an unset structure when there is none.\<close>

definition st_timer_stop_and_accum :: "timespec option \<Rightarrow> timer \<Rightarrow> (int \<times> timer) res" where
  "st_timer_stop_and_accum clock t =
     (case clock of None \<Rightarrow> Inl (UB Uninitialised)
      | Some ts \<Rightarrow> bindE (TS_TO_NS ts) (\<lambda>end_ns.
          Inr (0, t\<lparr>num_timings := num_timings t + 1, t_elapsed := t_elapsed t + (end_ns - t_start t), t_start := 0\<rparr>)))"

definition st_timer_reset :: "timer \<Rightarrow> timer" where
  "st_timer_reset t = t\<lparr>num_timings := 0, t_start := 0, t_elapsed := 0\<rparr>"

definition st_timer_get_elapsed :: "timer \<Rightarrow> u64" where
  "st_timer_get_elapsed t = t_elapsed t"

section \<open>What a timer measures\<close>

lemma TS_TO_NS_exact:
  assumes "tv_sec ts * 1000000000 + tv_nsec ts < 2 ^ 53"
  shows "TS_TO_NS ts = Inr (of_nat (tv_sec ts * 1000000000 + tv_nsec ts))"
  using assms by (simp add: TS_TO_NS_def to_double_exact)

text \<open>Beyond \<open>2\<^sup>5\<^sup>3\<close> nanoseconds stamps are rounded, but within a second they still do not run backwards.\<close>

lemma TS_TO_NS_same_second:
  assumes "TS_TO_NS a = Inr m" and "TS_TO_NS b = Inr n" and "tv_sec a = tv_sec b" and "tv_nsec a \<le> tv_nsec b"
  shows "m \<le> n"
proof -
  let ?d = "\<lambda>ts. to_double (to_double (to_double (tv_sec ts) * 1000000000) + tv_nsec ts)"
  have "?d a \<le> ?d b" using assms(3,4) by (intro to_double_mono) simp
  moreover have "m = of_nat (?d a)" "?d a < 2 ^ 64" "n = of_nat (?d b)" "?d b < 2 ^ 64"
    using assms(1,2) by (auto simp: TS_TO_NS_def Let_def split: if_splits)
  moreover have "unat (of_nat (?d a) :: u64) = ?d a" "unat (of_nat (?d b) :: u64) = ?d b"
    using calculation by (intro unat_of_nat_small; simp)+
  ultimately show ?thesis by (simp add: word_le_nat_alt)
qed

text \<open>A timing is a start and a stop; any number of them add up.\<close>

definition timing :: "timespec \<times> timespec \<Rightarrow> timer \<Rightarrow> (int \<times> timer) res" where
  "timing p t = bindE (st_timer_start (Some (fst p)) t) (\<lambda>(r, t1). st_timer_stop_and_accum (Some (snd p)) t1)"

primrec timings :: "(timespec \<times> timespec) list \<Rightarrow> timer \<Rightarrow> (int \<times> timer) res" where
  "timings [] t = Inr (0, t)"
| "timings (p # ps) t = bindE (timing p t) (\<lambda>(r, t1). timings ps t1)"

definition nanosecs :: "timespec \<Rightarrow> nat" where
  "nanosecs ts = tv_sec ts * 1000000000 + tv_nsec ts"

definition measurable :: "timespec \<times> timespec \<Rightarrow> bool" where
  "measurable p \<longleftrightarrow> nanosecs (fst p) \<le> nanosecs (snd p) \<and> nanosecs (snd p) < 2 ^ 53"

lemma timing_adds:
  assumes "measurable p"
  shows "\<exists>t'. timing p t = Inr (0, t') \<and> num_timings t' = num_timings t + 1 \<and>
    t_elapsed t' = t_elapsed t + of_nat (nanosecs (snd p) - nanosecs (fst p))"
proof -
  have "TS_TO_NS (fst p) = Inr (of_nat (nanosecs (fst p)))" "TS_TO_NS (snd p) = Inr (of_nat (nanosecs (snd p)))"
    unfolding nanosecs_def by (rule TS_TO_NS_exact; use assms in \<open>simp add: measurable_def nanosecs_def\<close>)+
  then show ?thesis
    using assms by (simp add: timing_def st_timer_start_def st_timer_stop_and_accum_def measurable_def of_nat_diff)
qed

lemma timings_add_up:
  "\<forall>p\<in>set ps. measurable p \<Longrightarrow> \<exists>t'. timings ps t = Inr (0, t') \<and> num_timings t' = num_timings t + of_nat (length ps) \<and>
     st_timer_get_elapsed t' = st_timer_get_elapsed t + of_nat (\<Sum>p\<leftarrow>ps. nanosecs (snd p) - nanosecs (fst p))"
proof (induction ps arbitrary: t)
  case (Cons p ps)
  obtain t1 where t1: "timing p t = Inr (0, t1)" "num_timings t1 = num_timings t + 1"
    "t_elapsed t1 = t_elapsed t + of_nat (nanosecs (snd p) - nanosecs (fst p))"
    using timing_adds[of p t] Cons.prems by auto
  with Cons.IH[of t1] Cons.prems show ?case by (auto simp: st_timer_get_elapsed_def algebra_simps)
qed simp

lemma timings_total:
  assumes "\<forall>p\<in>set ps. measurable p" and "(\<Sum>p\<leftarrow>ps. nanosecs (snd p) - nanosecs (fst p)) < 2 ^ 64"
  shows "\<exists>t'. timings ps (st_timer_reset t) = Inr (0, t') \<and> unat (st_timer_get_elapsed t') = (\<Sum>p\<leftarrow>ps. nanosecs (snd p) - nanosecs (fst p))"
proof -
  obtain t' where "timings ps (st_timer_reset t) = Inr (0, t')"
    "st_timer_get_elapsed t' = of_nat (\<Sum>p\<leftarrow>ps. nanosecs (snd p) - nanosecs (fst p))"
    using timings_add_up[OF assms(1), of "st_timer_reset t"] by (auto simp: st_timer_reset_def st_timer_get_elapsed_def)
  then show ?thesis using assms(2) by (simp add: unat_of_nat_small)
qed


end
