(* ===== verification/Dump_Examples.thy ===== *)
theory Dump_Examples
  imports Dump_Stackmap Timer Examples
begin

text \<open>
  Concrete inputs for the printers: a binary with all six sections, up to the padding of its only
  call site. The text of its dump does not depend on the padding.
\<close>

definition ex_scn :: "nat \<Rightarrow> nat \<Rightarrow> u8 list \<Rightarrow> scn" where
  "ex_scn name n d = \<lparr>s_hdr_ok = True, s_name = name, s_type = SHT_PROGBITS, s_offset = 64,
     s_size = of_nat (length d), s_entsize = of_nat n, s_blocks = [d]\<rparr>"

definition ex_padded_site :: "u16 \<Rightarrow> call_site" where
  "ex_padded_site pad = \<lparr>cs_id = 1, cs_addr = 0x2004, cs_frame_size = 32, cs_num_unwind = 1, cs_unwind_offset = 0, cs_num_live = 1,
     cs_live_offset = 0, cs_num_arch_live = 0, cs_arch_live_offset = 0, cs_padding = pad\<rparr>"

definition ex_dump :: "u16 \<Rightarrow> bin" where
  "ex_dump pad = \<lparr>b_name = ''a.out'', b_arch = EM_X86_64, b_elf = \<lparr>e_kind_elf = True, e_class = ELFCLASS64,
     e_ident_data = Some ELFDATA2LSB, e_machine = Some EM_X86_64,
     e_shstrtab = Some (CHR 0x00 # concat (map (\<lambda>n. n @ [CHR 0x00]) [SECTION_ST_UNWIND_ADDR, SECTION_ST_UNWIND, SECTION_ST_ID,
       SECTION_ST_ADDR, SECTION_ST_LIVE, SECTION_ST_ARCH_LIVE])),
     e_secs = [
       ex_scn 1 16 (enc_table enc_unwind_addr [\<lparr>ua_addr = 0x2000, ua_num_unwind = 1, ua_unwind_offset = 0\<rparr>]),
       ex_scn 32 4 (enc_table enc_unwind_loc [\<lparr>ul_reg = 6, ul_offset = 0\<rparr>]),
       ex_scn 56 52 (enc_table enc_call_site [ex_padded_site pad]), ex_scn 76 52 (enc_table enc_call_site [ex_padded_site pad]),
       ex_scn 98 12 (enc_table enc_live_value [ex_slot 6 (- 8)]), ex_scn 120 20 []], e_strtab = [], e_syms = [], e_shoff = 64\<rparr>\<rparr>"

lemma ex_dump_sections:
  "get_section_by_name (b_elf (ex_dump p)) SECTION_ST_UNWIND_ADDR = Some 0"
  "get_section_by_name (b_elf (ex_dump p)) SECTION_ST_UNWIND = Some 1"
  "get_section_by_name (b_elf (ex_dump p)) SECTION_ST_ID = Some 2"
  "get_section_by_name (b_elf (ex_dump p)) SECTION_ST_ADDR = Some 3"
  "get_section_by_name (b_elf (ex_dump p)) SECTION_ST_LIVE = Some 4"
  "get_section_by_name (b_elf (ex_dump p)) SECTION_ST_ARCH_LIVE = Some 5"
  by code_simp+

lemma ex_scn_records:
  assumes "\<And>r. dec (enc r) = r" and "\<And>r. length (enc r) = n" and "0 < n" and "n * length rs < 2 ^ 64" and "n < 2 ^ 64"
  shows "section_records (ex_scn name n (enc_table enc rs)) n dec = Inr (Some rs)"
  using assms by (intro section_records_table[where enc = enc])
    (simp_all add: holds_table_def ex_scn_def length_enc_table[of rs enc n] dec_enc_table)

lemma ex_dump_parts:
  "section_records (e_secs (b_elf (ex_dump p)) ! 0) 16 dec_unwind_addr =
     Inr (Some [\<lparr>ua_addr = 0x2000, ua_num_unwind = 1, ua_unwind_offset = 0\<rparr>])"
  "section_records (e_secs (b_elf (ex_dump p)) ! 1) 4 dec_unwind_loc = Inr (Some [\<lparr>ul_reg = 6, ul_offset = 0\<rparr>])"
  "section_records (e_secs (b_elf (ex_dump p)) ! 2) 52 dec_call_site = Inr (Some [ex_padded_site p])"
  "section_records (e_secs (b_elf (ex_dump p)) ! 3) 52 dec_call_site = Inr (Some [ex_padded_site p])"
  "section_records (e_secs (b_elf (ex_dump p)) ! 4) 12 dec_live_value = Inr (Some [ex_slot 6 (- 8)])"
  "section_records (e_secs (b_elf (ex_dump p)) ! 5) 20 dec_arch_live_value = Inr (Some [])"
proof -
  have "section_records (e_secs (b_elf (ex_dump p)) ! 4) 12 dec_live_value = Inr (Some [ex_slot 6 (- 8)])"
    by (intro section_records_table[where enc = enc_live_value])
      (simp_all add: ex_dump_def ex_scn_def holds_table_def length_enc_table[of _ enc_live_value 12] length_enc_live_value
        live_table ex_slot_def live_value_wf_def loc_wf_def)
  then show "section_records (e_secs (b_elf (ex_dump p)) ! 4) 12 dec_live_value = Inr (Some [ex_slot 6 (- 8)])" .
  have "dec_table 20 dec_arch_live_value [] = []" by (simp add: dec_table_def chunks.simps)
  then show "section_records (e_secs (b_elf (ex_dump p)) ! 5) 20 dec_arch_live_value = Inr (Some [])"
    by (simp add: ex_dump_def section_records_def ex_scn_def)
qed (simp_all add: ex_dump_def ex_scn_records unwind_addr_roundtrip unwind_loc_roundtrip call_site_roundtrip)

lemma ex_dump_text: "\<exists>t. \<forall>p. dump_metadata SECTION_PREFIX (ex_dump p) = Inr (SUCCESS, t)"
proof -
  define one where "one = found [()]"
  define line where "line = print_site (ex_padded_site 0)"
  have s: "print_site (ex_padded_site p) = line" for p
    by (simp add: line_def print_site_def ex_padded_site_def)
  obtain lt where l: "print_values print_loc_record 0 [ex_slot 6 (- 8)] = (True, lt)"
    using print_values_ok[of print_loc_record 0 "[ex_slot 6 (- 8)]"]
    by (cases "print_values print_loc_record 0 [ex_slot 6 (- 8)]") (simp add: print_loc_record_ok known_live_def ex_slot_def)
  let ?ua = "[\<lparr>ua_addr = 0x2000, ua_num_unwind = 1, ua_unwind_offset = 0\<rparr>]" and ?ul = "[\<lparr>ul_reg = 6, ul_offset = 0\<rparr>]"
  let ?ps = "[(SECTION_ST_UNWIND_ADDR, dump_unwind_funcs, one @ concat (map print_unwind_func ?ua) @ newline),
     (SECTION_ST_UNWIND, dump_unwind_locs, one @ concat (map2 print_unwind_loc [0..<length ?ul] ?ul) @ newline),
     (SECTION_ST_ID, dump_callsite_section, one @ line @ newline),
     (SECTION_ST_ADDR, dump_callsite_section, one @ line @ newline),
     (SECTION_ST_LIVE, dump_livelocs_section, one @ lt),
     (SECTION_ST_ARCH_LIVE, dump_archlive_section, found ([] :: arch_live_value list) @ newline)]"
  have f: "found [r] = one" for r :: 'r by (simp add: one_def found_def)
  have "part_ok (b_elf (ex_dump p)) q" if "q \<in> set ?ps" for p q
    using that unfolding set_simps insert_iff empty_iff
    by (elim disjE) (simp_all only: part_ok_def prod.case ex_dump_sections ex_dump_parts option.case dump_unwind_funcs_def
        dump_unwind_locs_def dump_callsite_section_def dump_livelocs_section_def dump_archlive_section_def bindE_Inr
        l s f Let_def list.map concat.simps append_Nil2 print_values.simps(1))
  then have "dump_all (b_elf (ex_dump p)) (map (\<lambda>(name, dump, t). (name, dump)) ?ps) [] =
      Inr (SUCCESS, [] @ concat (map (\<lambda>(name, dump, t). ''Reading section '' @ name @ '': '' @ t) ?ps))" for p
    by (intro dump_all_ok) blast
  then show ?thesis unfolding dump_metadata_def dump_names by (simp only: list.map prod.case) blast
qed

lemma ex_dump_handle: "read_handle ''a.out'' (b_elf (ex_dump 0)) \<noteq> None" "read_handle ''a.out'' (b_elf (ex_dump 7)) \<noteq> None"
  by code_simp+

end
