(* ===== verification/Self_Info.thy ===== *)
theory Self_Info
  imports Prelude "HOL-Library.Sublist"
begin

text \<open>
  The scheduling statistics printed by \<open>lib/libbomp/self_info.c\<close>: a file under \<open>/proc\<close> is read in
  pieces of at most 127 bytes into a static buffer, the complete lines of a piece are compared
  with a list of prefixes, and the file offset is moved back to the start of the incomplete
  line. The file is its bytes; \<open>read\<close> at an offset gives what is there, up to the size asked
  for, or fails. The lines printed are a list. A loop that does not return is \<open>None\<close>.
\<close>

section \<open>The program\<close>

definition MAXBUFFER :: nat where "MAXBUFFER = 128"

definition NUL :: char where "NUL = CHR 0x00"
definition NL :: char where "NL = CHR 0x0A"

record proc_file =
  pf_opens :: bool
  pf_bytes :: string
  pf_read_fails :: "nat \<Rightarrow> bool"
  pf_seekable :: bool

text \<open>\<open>strchr\<close> from index \<open>i\<close> of an array, and the C string that starts there.\<close>

fun strchr_list :: "char \<Rightarrow> string \<Rightarrow> nat option res" where
  "strchr_list c [] = Inl (UB Out_of_bounds)"
| "strchr_list c (x # xs) =
     (if x = c then Inr (Some 0) else if x = NUL then Inr None
      else bindE (strchr_list c xs) (\<lambda>r. Inr (map_option Suc r)))"

definition strchr :: "string \<Rightarrow> nat \<Rightarrow> char \<Rightarrow> nat option res" where
  "strchr buf i c = bindE (strchr_list c (drop i buf)) (\<lambda>r. Inr (map_option ((+) i) r))"

definition cstring :: "string \<Rightarrow> nat \<Rightarrow> string" where
  "cstring buf i = takeWhile (\<lambda>c. c \<noteq> NUL) (drop i buf)"

text \<open>
  The entries of the list are string literals, so \<open>strncmp\<close> over their length tests for a
  prefix. The first match prints the line.
\<close>

fun parse_line :: "string \<Rightarrow> string list \<Rightarrow> string list" where
  "parse_line src [] = []"
| "parse_line src (e # es) = (if take (length e) src = e then [src] else parse_line src es)"

text \<open>The inner loop over the complete lines of the buffer.\<close>

lemma strchr_list_bound: "strchr_list c xs = Inr (Some k) \<Longrightarrow> k < length xs \<and> xs ! k = c"
  by (induction xs arbitrary: k) (auto simp: res_simps split: if_splits)

lemma strchr_bound:
  assumes "strchr buf i c = Inr (Some k)" shows "i \<le> k \<and> k < length buf"
  using assms by (auto simp: strchr_def res_simps dest!: strchr_list_bound)

function buffer_lines :: "string list \<Rightarrow> string \<Rightarrow> nat \<Rightarrow> string list \<Rightarrow> (string \<times> nat \<times> string list) res" where
  "buffer_lines entries buf cstart out =
     bindE (strchr buf cstart NL) (\<lambda>r.
       case r of None \<Rightarrow> Inr (buf, cstart, out)
       | Some cend \<Rightarrow>
           buffer_lines entries (buf[cend := NUL]) (cend + 1)
             (out @ parse_line (cstring (buf[cend := NUL]) cstart) entries))"
  by pat_completeness auto
termination
  by (relation "measure (\<lambda>(entries, buf, cstart, out). length buf - cstart)") (auto dest!: strchr_bound)

declare buffer_lines.simps [simp del]

text \<open>
  \<open>read\<close> at offset \<open>pos\<close>: the return value and the buffer after it. The seek is relative to the
  offset that \<open>read\<close> leaves, by the distance from the end of what was read back to \<open>cstart\<close>.
\<close>

definition read_file :: "proc_file \<Rightarrow> nat \<Rightarrow> string \<Rightarrow> int \<times> string" where
  "read_file f pos buf =
     (if pf_read_fails f pos then (-1, buf)
      else let piece = take (MAXBUFFER - 1) (drop pos (pf_bytes f))
           in (int (length piece), piece @ drop (length piece) buf))"

definition lseek_cur :: "proc_file \<Rightarrow> nat \<Rightarrow> int \<Rightarrow> nat option" where
  "lseek_cur f pos off = (if pf_seekable f \<and> 0 \<le> int pos + off then Some (nat (int pos + off)) else None)"

partial_function (option) parse_loop :: "proc_file \<Rightarrow> string list \<Rightarrow> nat \<Rightarrow> string \<Rightarrow> string list \<Rightarrow> (int \<times> string list) res option" where
  "parse_loop f entries pos buf out =
     (case read_file f pos buf of (sret, buf1) \<Rightarrow>
        if sret = 0 then Some (Inr (0, out))
        else (case buffer_lines entries buf1 0 out of
            Inl e \<Rightarrow> Some (Inl e)
          | Inr (buf2, cstart, out1) \<Rightarrow>
              (case lseek_cur f (if sret < 0 then pos else pos + nat sret) (- (sret - int cstart)) of
                 None \<Rightarrow> Some (Inr (-1, out1))
               | Some pos1 \<Rightarrow> parse_loop f entries pos1 buf2 out1)))"

declare parse_loop.simps [code]

definition parse_file :: "proc_file \<Rightarrow> string list \<Rightarrow> (int \<times> string list) res option" where
  "parse_file f entries =
     (if pf_opens f then parse_loop f entries 0 (replicate MAXBUFFER NUL) [] else Some (Inr (-1, [])))"

definition dump_status_self :: "proc_file \<Rightarrow> (int \<times> string list) res option" where
  "dump_status_self proc_self_status =
     parse_file proc_self_status [''voluntary_ctxt_switches:'', ''nonvoluntary_ctxt_switches:'']"

definition dump_sched_self :: "proc_file \<Rightarrow> (int \<times> string list) res option" where
  "dump_sched_self proc_self_sched =
     parse_file proc_self_sched [''se.sum_exec_runtime'', ''se.statistics.wait_sum'', ''se.statistics.iowait_sum'',
       ''se.nr_migrations'', ''nr_switches'', ''nr_voluntary_switches'', ''nr_involuntary_switches'']"

section \<open>Lines\<close>

text \<open>The bytes of a list of lines, and the lines of a list that match.\<close>

definition unlines :: "string list \<Rightarrow> string" where
  "unlines ls = concat (map (\<lambda>l. l @ [NL]) ls)"

definition matching :: "string list \<Rightarrow> string list \<Rightarrow> string list" where
  "matching entries ls = filter (\<lambda>l. \<exists>e\<in>set entries. prefix e l) ls"

lemma unlines_simps [simp]: "unlines [] = []" "unlines (l # ls) = l @ NL # unlines ls" "unlines (ks @ ls) = unlines ks @ unlines ls"
  by (simp_all add: unlines_def)

lemma line_shorter: "l \<in> set ls \<Longrightarrow> length l < length (unlines ls)"
  by (induction ls) auto

lemma matching_simps [simp]: "matching es [] = []" "matching es (ks @ ls) = matching es ks @ matching es ls"
  by (simp_all add: matching_def)

lemma parse_line_matching: "parse_line l es = matching es [l]"
proof (induction es)
  case (Cons e es)
  have "take (length e) l = e \<longleftrightarrow> prefix e l"
    by (metis append_eq_conv_conj prefix_def)
  with Cons show ?case by (simp add: matching_def)
qed (simp add: matching_def)

lemma NL_NUL [simp]: "NL \<noteq> NUL" "NUL \<noteq> NL"
  by (simp_all add: NL_def NUL_def)

lemma strchr_list_found: "NL \<notin> set l \<Longrightarrow> NUL \<notin> set l \<Longrightarrow> strchr_list NL (l @ NL # rest) = Inr (Some (length l))"
  by (induction l) auto

lemma strchr_list_none: "NL \<notin> set xs \<Longrightarrow> NUL \<in> set xs \<Longrightarrow> strchr_list NL xs = Inr None"
  by (induction xs) auto

text \<open>
  The inner loop on a buffer whose unread part is some lines, an incomplete line and old
  contents without a newline.
\<close>

lemma buffer_lines_run:
  assumes "\<forall>l\<in>set ls. NL \<notin> set l \<and> NUL \<notin> set l" and "NL \<notin> set r" and "NL \<notin> set old" and "NUL \<in> set old"
  shows "buffer_lines es (pre @ unlines ls @ r @ old) (length pre) out =
    Inr (pre @ concat (map (\<lambda>l. l @ [NUL]) ls) @ r @ old, length pre + length (unlines ls), out @ matching es ls)"
  using assms(1)
proof (induction ls arbitrary: pre out)
  case Nil
  have "strchr_list NL (r @ old) = Inr None" using assms by (intro strchr_list_none) auto
  then show ?case by (subst buffer_lines.simps) (simp add: strchr_def)
next
  case (Cons l ls)
  let ?buf = "pre @ unlines (l # ls) @ r @ old"
  have "strchr ?buf (length pre) NL = Inr (Some (length pre + length l))"
    using strchr_list_found[of l "unlines ls @ r @ old"] Cons.prems by (simp add: strchr_def)
  moreover have upd: "?buf[length pre + length l := NUL] = (pre @ l @ [NUL]) @ unlines ls @ r @ old"
    by (simp add: list_update_append)
  moreover have "cstring ((pre @ l @ [NUL]) @ unlines ls @ r @ old) (length pre) = l"
    using Cons.prems by (auto simp: cstring_def takeWhile_tail)
  ultimately have "buffer_lines es ?buf (length pre) out =
      buffer_lines es ((pre @ l @ [NUL]) @ unlines ls @ r @ old) (length (pre @ l @ [NUL])) (out @ matching es [l])"
    by (subst buffer_lines.simps) (simp add: parse_line_matching)
  also have "\<dots> = Inr ((pre @ l @ [NUL]) @ concat (map (\<lambda>l. l @ [NUL]) ls) @ r @ old,
      length (pre @ l @ [NUL]) + length (unlines ls), (out @ matching es [l]) @ matching es ls)"
    using Cons by (intro Cons.IH) auto
  finally show ?case using matching_simps(2)[of es "[l]" ls] by simp
qed

section \<open>When the loop returns\<close>

text \<open>The buffer between two reads: no newline is left in it, and its last byte ends the string.\<close>

definition buffer_ok :: "string \<Rightarrow> bool" where
  "buffer_ok buf \<longleftrightarrow> length buf = MAXBUFFER \<and> NL \<notin> set buf \<and> last buf = NUL"

lemma buffer_ok_init: "buffer_ok (replicate MAXBUFFER NUL)"
  by (auto simp: buffer_ok_def MAXBUFFER_def)

lemma take_unlines:
  assumes "NL \<notin> set t" and "\<forall>l\<in>set ls. NL \<notin> set l"
  shows "\<exists>ks ms r. ls = ks @ ms \<and> take n (unlines ls @ t) = unlines ks @ r \<and> NL \<notin> set r \<and>
    (ls \<noteq> [] \<longrightarrow> length (hd ls) < n \<longrightarrow> ks \<noteq> [])"
  using assms(2)
proof (induction ls arbitrary: n)
  case Nil
  show ?case using assms(1) by (intro exI[of _ "[]"] exI[of _ "take n t"]) (auto dest: in_set_takeD)
next
  case (Cons l ls)
  show ?case
  proof (cases "length l < n")
    case False
    then show ?thesis using Cons.prems
      by (intro exI[of _ "[]"] exI[of _ "l # ls"] exI[of _ "take n l"]) (auto dest: in_set_takeD)
  next
    case True
    have "\<forall>l\<in>set ls. NL \<notin> set l" using Cons.prems by simp
    from Cons.IH[OF this, of "n - Suc (length l)"] obtain ks ms r where
      k: "ls = ks @ ms" "take (n - Suc (length l)) (unlines ls @ t) = unlines ks @ r" "NL \<notin> set r" by blast
    have "take n (unlines (l # ls) @ t) = unlines (l # ks) @ r"
      using True k(2) by (simp add: take_Cons' diff_Suc)
    with k show ?thesis by (intro exI[of _ "l # ks"] exI[of _ ms] exI[of _ r]) simp
  qed
qed

text \<open>One pass: the complete lines of the piece are printed, the offset moves past them.\<close>

lemma pass_facts:
  assumes f: "\<not> pf_read_fails f pos" "pf_seekable f" and b: "buffer_ok buf"
    and p: "piece = take (MAXBUFFER - 1) (drop pos (pf_bytes f))" "piece = unlines ks @ r"
    and l: "\<forall>l\<in>set ks. NL \<notin> set l \<and> NUL \<notin> set l" "NL \<notin> set r"
  shows "\<exists>buf1 buf'. read_file f pos buf = (int (length piece), buf1) \<and>
    buffer_lines es buf1 0 out = Inr (buf', length (unlines ks), out @ matching es ks) \<and> buffer_ok buf' \<and>
    lseek_cur f (pos + length piece) (- (int (length piece) - int (length (unlines ks)))) = Some (pos + length (unlines ks))"
proof -
  define old where "old = drop (length piece) buf"
  have len: "length piece \<le> MAXBUFFER - 1" using p(1) by simp
  then have old: "old \<noteq> []" "last old = NUL" "NL \<notin> set old" "length old = MAXBUFFER - length piece"
    using b by (auto simp: old_def buffer_ok_def MAXBUFFER_def last_drop dest: in_set_dropD)
  then have NUL: "NUL \<in> set old" by (metis last_in_set)
  let ?buf' = "concat (map (\<lambda>l. l @ [NUL]) ks) @ r @ old"
  have "read_file f pos buf = (int (length piece), unlines ks @ r @ old)"
    using f(1) p by (simp add: read_file_def old_def)
  moreover have "buffer_lines es (unlines ks @ r @ old) 0 out = Inr (?buf', length (unlines ks), out @ matching es ks)"
    using buffer_lines_run[OF l old(3) NUL, of es "[]" out] by simp
  moreover have "length (concat (map (\<lambda>l. l @ [NUL]) ks)) = length (unlines ks)" by (induction ks) auto
  then have "buffer_ok ?buf'"
    using old l p(2) len by (auto simp: buffer_ok_def MAXBUFFER_def)
  moreover have "lseek_cur f (pos + length piece) (- (int (length piece) - int (length (unlines ks)))) = Some (pos + length (unlines ks))"
    using f(2) p(2) by (simp add: lseek_cur_def)
  ultimately show ?thesis by blast
qed

lemma parse_loop_pass:
  assumes "\<not> pf_read_fails f pos" "pf_seekable f" and "buffer_ok buf"
    and p: "piece = take (MAXBUFFER - 1) (drop pos (pf_bytes f))" "piece = unlines ks @ r"
    and "\<forall>l\<in>set ks. NL \<notin> set l \<and> NUL \<notin> set l" "NL \<notin> set r" and "piece \<noteq> []"
  shows "\<exists>buf'. buffer_ok buf' \<and> parse_loop f es pos buf out = parse_loop f es (pos + length (unlines ks)) buf' (out @ matching es ks)"
proof -
  obtain buf1 buf' where "read_file f pos buf = (int (length piece), buf1)" "buffer_ok buf'"
    "buffer_lines es buf1 0 out = Inr (buf', length (unlines ks), out @ matching es ks)"
    "lseek_cur f (pos + length piece) (- (int (length piece) - int (length (unlines ks)))) = Some (pos + length (unlines ks))"
    using pass_facts[OF assms(1-7)] by blast
  then show ?thesis using assms(8) by (intro exI[of _ buf']) (subst parse_loop.simps, simp)
qed

text \<open>A piece without a newline is read again for ever.\<close>

lemma parse_loop_stuck:
  assumes f: "\<not> pf_read_fails f pos" "pf_seekable f" and b: "buffer_ok buf"
    and p: "piece = take (MAXBUFFER - 1) (drop pos (pf_bytes f))" "piece \<noteq> []" "NL \<notin> set piece"
  shows "parse_loop f es pos buf out = None"
proof (rule ccontr)
  assume "parse_loop f es pos buf out \<noteq> None"
  then obtain y where y: "parse_loop f es pos buf out = Some y" by blast
  have "g = f \<longrightarrow> q = pos \<longrightarrow> \<not> buffer_ok b" if "parse_loop g es q b out = Some y" for g es q b out y
  proof (rule parse_loop.raw_induct[where P = "\<lambda>g es q b out y. g = f \<longrightarrow> q = pos \<longrightarrow> \<not> buffer_ok b", OF _ that], goal_cases)
    case (1 loop g es q b out y)
    show ?case
    proof (intro impI notI)
      assume e: "g = f" "q = pos" "buffer_ok b"
      obtain buf1 buf' where r: "read_file f pos b = (int (length piece), buf1)" "buffer_ok buf'"
        "buffer_lines es buf1 0 out = Inr (buf', 0, out)" "lseek_cur f (pos + length piece) (- int (length piece)) = Some pos"
        using pass_facts[OF f e(3) p(1), of "[]" piece es out] p(3) by auto
      have "loop f es pos buf' out = Some y" using 1(2) r p(2) e by simp
      from 1(1)[OF this] r(2) show False by simp
    qed
  qed
  with y b show False by blast
qed

text \<open>
  So for a file without null bytes the loop returns exactly when every line, the last one
  included, ends in a newline and fits the buffer with it; then it has printed the lines that
  match, in order.
\<close>

lemma parse_loop_result:
  assumes f: "\<forall>q. \<not> pf_read_fails f q" "pf_seekable f" and b: "buffer_ok buf"
    and bytes: "drop pos (pf_bytes f) = unlines ls @ t" "NUL \<notin> set (unlines ls @ t)" "NL \<notin> set t" "\<forall>l\<in>set ls. NL \<notin> set l"
  shows "parse_loop f es pos buf out =
    (if t = [] \<and> (\<forall>l\<in>set ls. length l < MAXBUFFER - 1) then Some (Inr (0, out @ matching es ls)) else None)"
  using b bytes
proof (induction "length ls" arbitrary: ls pos buf out rule: less_induct)
  case less
  define piece where "piece = take (MAXBUFFER - 1) (drop pos (pf_bytes f))"
  have f': "\<not> pf_read_fails f pos" using f(1) by simp
  obtain ks ms r where k: "ls = ks @ ms" "piece = unlines ks @ r" "NL \<notin> set r" "ls \<noteq> [] \<longrightarrow> length (hd ls) < MAXBUFFER - 1 \<longrightarrow> ks \<noteq> []"
    using take_unlines[OF less(5,6), of "MAXBUFFER - 1"] unfolding piece_def less(3) by blast
  show ?case
  proof (cases "piece = []")
    case True
    then have e: "ls = []" "t = []" using less(3) by (cases ls; simp add: piece_def MAXBUFFER_def)+
    then have "drop pos (pf_bytes f) = []" using less(3) by simp
    then show ?thesis using e f' by (subst parse_loop.simps) (simp add: read_file_def)
  next
    case False
    show ?thesis
    proof (cases "ks = []")
      case True
      then have "NL \<notin> set piece" using k(2,3) by simp
      then have "parse_loop f es pos buf out = None" by (rule parse_loop_stuck[OF f' f(2) less(2) piece_def False])
      moreover have "\<not> (t = [] \<and> (\<forall>l\<in>set ls. length l < MAXBUFFER - 1))"
        using True k(4) False less(3) by (cases ls) (auto simp: piece_def)
      ultimately show ?thesis by simp
    next
      case ne: False
      have good: "\<forall>l\<in>set ks. NL \<notin> set l \<and> NUL \<notin> set l" using less(4,6) k(1) by (auto simp: unlines_def split: if_splits)
      have short: "\<forall>l\<in>set ks. length l < MAXBUFFER - 1"
        using k(2) piece_def line_shorter by (metis length_append length_take less_le_trans min.cobounded2 le_add1 order.trans)
      obtain buf' where p: "buffer_ok buf'" "parse_loop f es pos buf out = parse_loop f es (pos + length (unlines ks)) buf' (out @ matching es ks)"
        using parse_loop_pass[OF f' f(2) less(2) piece_def k(2) good k(3) False] by blast
      have d: "drop (pos + length (unlines ks)) (pf_bytes f) = unlines ms @ t"
        using less(3) k(1) drop_drop[of "length (unlines ks)" pos "pf_bytes f"] by (simp add: add.commute)
      have "parse_loop f es (pos + length (unlines ks)) buf' (out @ matching es ks) =
          (if t = [] \<and> (\<forall>l\<in>set ms. length l < MAXBUFFER - 1) then Some (Inr (0, (out @ matching es ks) @ matching es ms)) else None)"
        using less(4-6) k(1) ne by (intro less(1)[OF _ p(1) d]) auto
      then show ?thesis using p(2) k(1) short by auto
    qed
  qed
qed

text \<open>The error of \<open>read\<close> is not tested: a file that cannot be read is tried again at ever larger offsets.\<close>

lemma parse_loop_read_error:
  assumes f: "\<forall>q. pf_read_fails f q" "pf_seekable f" and b: "buffer_ok buf"
  shows "parse_loop f es pos buf out = None"
proof (rule ccontr)
  assume "parse_loop f es pos buf out \<noteq> None"
  then obtain y where y: "parse_loop f es pos buf out = Some y" by blast
  have "g = f \<longrightarrow> \<not> buffer_ok b" if "parse_loop g es q b out = Some y" for g es q b out y
  proof (rule parse_loop.raw_induct[where P = "\<lambda>g es q b out y. g = f \<longrightarrow> \<not> buffer_ok b", OF _ that], goal_cases)
    case (1 loop g es q b out y)
    show ?case
    proof (intro impI notI)
      assume e: "g = f" "buffer_ok b"
      then have "NL \<notin> set b" "NUL \<in> set b" using last_in_set[of b] by (cases b; force simp: buffer_ok_def MAXBUFFER_def)+
      then have "buffer_lines es b 0 out = Inr (b, 0, out)"
        using buffer_lines_run[of "[]" "[]" b es "[]" out] by simp
      moreover have "read_file f q b = (-1, b)" "lseek_cur f q 1 = Some (q + 1)"
        using f by (simp_all add: read_file_def lseek_cur_def nat_add_distrib)
      ultimately have "loop f es (q + 1) b out = Some y" using 1(2) e(1) by simp
      from 1(1)[OF this] e show False by simp
    qed
  qed
  with y b show False by blast
qed

end
