(* ===== verification/Migration.thy ===== *)
theory Migration
  imports Userspace Cpuinfo
begin

text \<open>
  The migration library, \<open>lib/migration/src/migrate.c\<close>, with the architecture headers'
  \<open>REWRITE_STACK\<close> in its heterogeneous form: which CPUs stand for which architecture, when a
  thread is asked to migrate, and the two halves of the migration shim, before the system
  call on the source and after it on the destination. The rewriting itself is the user-space
  front end; the shim takes its return code.
\<close>

section \<open>Architectures and CPUs\<close>

datatype arch = AARCH64 | X86_64 | NUM_ARCHES

definition init_cpu_sets :: "string list option \<Rightarrow> nat" where
  "init_cpu_sets cpuinfo = (case cpuinfo of None \<Rightarrow> 8 | Some ls \<Rightarrow> x86_lines ls)"

fun arch_to_cpus :: "nat \<Rightarrow> arch \<Rightarrow> nat list" where
  "arch_to_cpus cpus_x86 AARCH64 = [0]"
| "arch_to_cpus cpus_x86 X86_64 = [cpus_x86]"
| "arch_to_cpus cpus_x86 NUM_ARCHES = []"

text \<open>The architecture the library was built for is the argument \<open>host\<close>.\<close>

definition current_arch :: "nat \<Rightarrow> arch \<Rightarrow> nat list" where
  "current_arch cpus_x86 host = arch_to_cpus cpus_x86 host"

definition other_arch :: "arch \<Rightarrow> arch" where
  "other_arch host = (if host = AARCH64 then X86_64 else AARCH64)"

definition select_arch :: "nat \<Rightarrow> arch \<Rightarrow> nat list" where
  "select_arch cpus_x86 host = arch_to_cpus cpus_x86 (other_arch host)"

section \<open>Requests to migrate\<close>

text \<open>
  Built with \<open>_ENV_SELECT_MIGRATE\<close>: a range of addresses per architecture (the numbers
  \<open>strtoll\<close> finds in two environment variables) and a thread-local flag. The first result is
  the range, which is installed only when both variables are set.
\<close>

record migrate_range =
  mr_start :: u64
  mr_end :: u64
  mr_key :: bool

definition init_migrate_testing :: "u64 option \<Rightarrow> u64 option \<Rightarrow> migrate_range" where
  "init_migrate_testing start end' =
     (case (start, end') of
        (Some s, Some e) \<Rightarrow> \<lparr>mr_start = s, mr_end = e, mr_key = (s \<noteq> 0 \<and> e \<noteq> 0)\<rparr>
      | _ \<Rightarrow> \<lparr>mr_start = 0, mr_end = 0, mr_key = False\<rparr>)"

definition do_migrate_env :: "migrate_range \<Rightarrow> bool \<Rightarrow> u64 \<Rightarrow> bool \<times> bool" where
  "do_migrate_env r migrated addr =
     (if mr_start r \<noteq> 0 \<and> \<not> migrated \<and> mr_start r \<le> addr \<and> addr < mr_end r
      then (True, True) else (False, migrated))"

text \<open>Otherwise: a word of the vDSO page, if the kernel maps one, says where to be.\<close>

definition do_migrate_vdso :: "arch \<Rightarrow> int option \<Rightarrow> bool" where
  "do_migrate_vdso host popcorn_vdso =
     (case popcorn_vdso of
        None \<Rightarrow> False
      | Some v \<Rightarrow> if host = AARCH64 then v = 0 else v = 1)"

section \<open>The shim\<close>

text \<open>
  \<open>struct shim_data\<close> lives in the frame of the shim; the thread library keeps a pointer to it,
  \<open>None\<close> for null. \<open>sh_live\<close> says whether that frame still exists. \<open>sh_regset\<close> says whether
  the registers to restore have been recorded.
\<close>

record ('c, 'd) shim_data =
  sh_callback :: "'c option"
  sh_callback_data :: 'd
  sh_regset :: bool
  sh_live :: bool

datatype ('c, 'd) shim_outcome =
    Resumed "('c \<times> 'd) option"
  | Migrate_to "nat list"
  | Not_migrated

definition migrate_shim_internal ::
    "nat \<Rightarrow> arch \<Rightarrow> int \<Rightarrow> 'c option \<Rightarrow> 'd \<Rightarrow> ('c, 'd) shim_data option \<Rightarrow>
     (('c, 'd) shim_outcome \<times> ('c, 'd) shim_data option) res" where
  "migrate_shim_internal cpus_x86 host rewrite_rc callback callback_data migrate_args =
     (case migrate_args of
        Some d \<Rightarrow>
          if \<not> sh_live d then Inl (UB Use_after_free)
          else if \<not> sh_regset d then Inl (UB Uninitialised)
          else Inr (Resumed (map_option (\<lambda>c. (c, sh_callback_data d)) (sh_callback d)), None)
      | None \<Rightarrow>
          let d = \<lparr>sh_callback = callback, sh_callback_data = callback_data, sh_regset = False,
                   sh_live = True\<rparr> in
          if rewrite_rc = 0 then
            Inr (Migrate_to (select_arch cpus_x86 host), Some (d\<lparr>sh_regset := True\<rparr>))
          else Inr (Not_migrated, Some (d\<lparr>sh_live := False\<rparr>)))"

text \<open>
  \<open>check_migrate\<close>, \<open>migrate\<close> and the two compiler hooks call the shim, on request or always;
  the hooks pass the registered callback.
\<close>

definition check_migrate ::
    "bool \<Rightarrow> nat \<Rightarrow> arch \<Rightarrow> int \<Rightarrow> 'c option \<Rightarrow> 'd \<Rightarrow> ('c, 'd) shim_data option \<Rightarrow>
     (('c, 'd) shim_outcome option \<times> ('c, 'd) shim_data option) res" where
  "check_migrate requested cpus_x86 host rewrite_rc callback callback_data migrate_args =
     (if requested then
        bindE (migrate_shim_internal cpus_x86 host rewrite_rc callback callback_data migrate_args)
          (\<lambda>(r, a). Inr (Some r, a))
      else Inr (None, migrate_args))"

definition register_migrate_callback :: "'c option \<Rightarrow> 'd \<Rightarrow> 'c option \<times> 'd" where
  "register_migrate_callback callback callback_data = (callback, callback_data)"

definition cyg_profile_func_hook ::
    "bool \<Rightarrow> nat \<Rightarrow> arch \<Rightarrow> int \<Rightarrow> 'c option \<times> 'd \<Rightarrow> ('c, 'd) shim_data option \<Rightarrow>
     (('c, 'd) shim_outcome option \<times> ('c, 'd) shim_data option) res" where
  "cyg_profile_func_hook requested cpus_x86 host rewrite_rc registered migrate_args =
     check_migrate requested cpus_x86 host rewrite_rc (fst registered) (snd registered) migrate_args"

section \<open>Migration and resumption\<close>

lemma select_arch_disjoint:
  "host \<noteq> NUM_ARCHES \<Longrightarrow> 0 < cpus_x86 \<Longrightarrow>
   set (select_arch cpus_x86 host) \<inter> set (current_arch cpus_x86 host) = {}"
  by (cases host) (auto simp: select_arch_def current_arch_def other_arch_def)

lemma do_migrate_env_once:
  "do_migrate_env r m a = (True, m') \<Longrightarrow> fst (do_migrate_env r m' b) = False"
  by (auto simp: do_migrate_env_def split: if_splits)

text \<open>
  The request of the vDSO page is settled by moving: a thread that is asked to leave one
  architecture is not asked to leave the other.
\<close>

lemma do_migrate_vdso_settles:
  "host \<noteq> NUM_ARCHES \<Longrightarrow> do_migrate_vdso host v \<Longrightarrow> \<not> do_migrate_vdso (other_arch host) v"
  by (cases host) (auto simp: do_migrate_vdso_def other_arch_def split: option.splits)

text \<open>The callback given on the source is called once, on the destination, with its data.\<close>

lemma migrate_and_resume:
  assumes "migrate_shim_internal cpus host rc cb data None = Inr (r, args)" "rc = 0"
  shows "r = Migrate_to (select_arch cpus host) \<and>
    migrate_shim_internal cpus (other_arch host) rc' cb' data' args =
      Inr (Resumed (map_option (\<lambda>c. (c, data)) cb), None)"
  using assms by (auto simp: migrate_shim_internal_def)

text \<open>
  When the stack cannot be rewritten the pointer to the shim's frame is left behind: the
  thread's next migration point takes it for the data of a migration that has happened.
\<close>

lemma failed_rewrite_leaves_data:
  assumes "rc \<noteq> 0"
  shows "\<exists>args. migrate_shim_internal cpus host rc cb data None = Inr (Not_migrated, args) \<and>
    migrate_shim_internal cpus host rc' cb' data' args = Inl (UB Use_after_free)"
  using assms by (simp add: migrate_shim_internal_def)

end
