(* ===== verification/Check_Stackmaps.thy ===== *)
theory Check_Stackmaps
  imports Stackmap
begin

text \<open>
  The checker \<open>tool/stack_metadata/utils/check_stackmaps.c\<close>, which compares the stack maps of
  the two binaries before the metadata is generated. Each call of \<open>warn\<close> is a value, and the
  result is \<open>INVALID_METADATA\<close> exactly when there was one. Without backing stack slots the
  checker accepts two lists of sections exactly when they describe the same functions and
  the same live values; with them it stops before the last values.
\<close>

section \<open>The checker\<close>

datatype sm_warning =
    Number_of_stackmaps
  | Number_of_records nat
  | Different_functions u64
  | Number_of_locations u64
  | Different_size u64 nat nat
  | Mismatched_pointer u64 nat nat
  | Mismatched_alloca u64 nat nat
  | Different_alloca_size u64 nat nat

text \<open>The comparison of one location of each side.\<close>

definition check_location :: "u64 \<Rightarrow> nat \<Rightarrow> nat \<Rightarrow> live_value \<Rightarrow> live_value \<Rightarrow> sm_warning list" where
  "check_location sid k l a b =
     (if lv_size a \<noteq> lv_size b then [Different_size sid k l] else []) @
     (if is_ptr a \<noteq> is_ptr b then [Mismatched_pointer sid k l] else []) @
     (if is_alloca a \<noteq> is_alloca b then [Mismatched_alloca sid k l] else []) @
     (if is_alloca a \<and> is_alloca b \<and> alloca_size a \<noteq> alloca_size b
      then [Different_alloca_size sid k l] else [])"

definition num_unique :: "live_value list \<Rightarrow> nat" where
  "num_unique ls = length (filter (\<lambda>v. \<not> is_duplicate v) ls)"

text \<open>
  \<open>while(locations[k+1].is_duplicate) k++\<close>. The scan reads one record past the last when the
  last value is reached; what it finds there does not matter to the loop around it, whose
  bound is then exceeded in any case.
\<close>

function skip_backing :: "live_value list \<Rightarrow> nat \<Rightarrow> nat" where
  "skip_backing ls k =
     (if k + 1 < length ls \<and> is_duplicate (ls ! (k + 1)) then skip_backing ls (k + 1) else k)"
  by pat_completeness auto
termination by (relation "measure (\<lambda>(ls, k). length ls - k)") auto

declare skip_backing.simps [simp del]

lemma skip_backing_ge: "k \<le> skip_backing ls k"
  by (induction ls k rule: skip_backing.induct) (subst skip_backing.simps, auto)

function check_locations ::
    "u64 \<Rightarrow> live_value list \<Rightarrow> live_value list \<Rightarrow> nat \<Rightarrow> nat \<Rightarrow> sm_warning list" where
  "check_locations sid la lb k l =
     (if k < num_unique la \<and> l < num_unique lb then
        check_location sid k l (la ! k) (lb ! l) @
        check_locations sid la lb (skip_backing la k + 1) (skip_backing lb l + 1)
      else [])"
  by pat_completeness auto
termination
proof (relation "measure (\<lambda>(sid, la, lb, k, l). num_unique la - k)")
  show "((sid, la, lb, skip_backing la k + 1, skip_backing lb l + 1), (sid, la, lb, k, l))
      \<in> measure (\<lambda>(sid, la, lb, k, l). num_unique la - k)"
    if "k < num_unique la \<and> l < num_unique lb" for sid la lb k l
    using that skip_backing_ge [of k la] by auto
qed simp

declare check_locations.simps [simp del]

definition site_function :: "stack_map_section \<Rightarrow> call_site_record \<Rightarrow> u64 res" where
  "site_function s c =
     bindE (array_get (function_records s) (unat (func_idx c))) (\<lambda>f. Inr (func_addr f))"

definition check_record ::
    "stack_map_section \<Rightarrow> call_site_record \<Rightarrow> stack_map_section \<Rightarrow> call_site_record \<Rightarrow> sm_warning list res" where
  "check_record sa ca sb cb =
     bindE (site_function sa ca) (\<lambda>fa. bindE (site_function sb cb) (\<lambda>fb.
       Inr (if fa \<noteq> fb then [Different_functions (csr_id ca)]
            else (if num_unique (locations ca) \<noteq> num_unique (locations cb)
                  then [Number_of_locations (csr_id ca)] else []) @
                 check_locations (csr_id ca) (locations ca) (locations cb) 0 0)))"

fun check_records ::
    "stack_map_section \<Rightarrow> stack_map_section \<Rightarrow> (call_site_record \<times> call_site_record) list \<Rightarrow> sm_warning list res" where
  "check_records sa sb [] = Inr []"
| "check_records sa sb ((ca, cb) # cs) =
     bindE (check_record sa ca sb cb) (\<lambda>w. bindE (check_records sa sb cs) (\<lambda>ws. Inr (w @ ws)))"

text \<open>
  Sections and records are compared pairwise up to the shorter list; the number of records of
  a section is the length of its array.
\<close>

definition check_section :: "nat \<Rightarrow> stack_map_section \<Rightarrow> stack_map_section \<Rightarrow> sm_warning list res" where
  "check_section i sa sb =
     bindE (check_records sa sb (zip (call_sites sa) (call_sites sb))) (\<lambda>ws.
     Inr ((if num_records sa \<noteq> num_records sb then [Number_of_records i] else []) @ ws))"

fun check_sections :: "nat \<Rightarrow> (stack_map_section \<times> stack_map_section) list \<Rightarrow> sm_warning list res" where
  "check_sections i [] = Inr []"
| "check_sections i ((sa, sb) # ss) =
     bindE (check_section i sa sb) (\<lambda>w. bindE (check_sections (i + 1) ss) (\<lambda>ws. Inr (w @ ws)))"

definition check_stackmaps ::
    "stack_map_section list \<Rightarrow> stack_map_section list \<Rightarrow> (ret_t \<times> sm_warning list) res" where
  "check_stackmaps sm_a sm_b =
     bindE (check_sections 0 (zip sm_a sm_b)) (\<lambda>ws.
     let ws = (if length sm_a \<noteq> length sm_b then [Number_of_stackmaps] else []) @ ws in
     Inr (if ws = [] then SUCCESS else INVALID_METADATA, ws))"

section \<open>What acceptance means\<close>

definition same_value :: "live_value \<Rightarrow> live_value \<Rightarrow> bool" where
  "same_value a b \<longleftrightarrow> lv_size a = lv_size b \<and> is_ptr a = is_ptr b \<and> is_alloca a = is_alloca b \<and>
     (is_alloca a \<longrightarrow> alloca_size a = alloca_size b)"

definition same_site ::
    "stack_map_section \<Rightarrow> stack_map_section \<Rightarrow> call_site_record \<Rightarrow> call_site_record \<Rightarrow> bool" where
  "same_site sa sb ca cb \<longleftrightarrow>
     func_addr (function_records sa ! unat (func_idx ca)) =
       func_addr (function_records sb ! unat (func_idx cb)) \<and>
     list_all2 same_value (locations ca) (locations cb)"

definition same_section :: "stack_map_section \<Rightarrow> stack_map_section \<Rightarrow> bool" where
  "same_section sa sb \<longleftrightarrow> list_all2 (same_site sa sb) (call_sites sa) (call_sites sb)"

definition plain_section :: "stack_map_section \<Rightarrow> bool" where
  "plain_section s \<longleftrightarrow> length (call_sites s) = unat (num_records s) \<and>
     (\<forall>c\<in>set (call_sites s). unat (func_idx c) < length (function_records s) \<and>
        (\<forall>v\<in>set (locations c). \<not> is_duplicate v))"

lemma check_location_nil: "check_location sid k l a b = [] \<longleftrightarrow> same_value a b"
  by (auto simp: check_location_def same_value_def)

lemma plain_num_unique: "\<forall>v\<in>set ls. \<not> is_duplicate v \<Longrightarrow> num_unique ls = length ls"
  by (simp add: num_unique_def)

lemma plain_skip: "\<forall>v\<in>set ls. \<not> is_duplicate v \<Longrightarrow> skip_backing ls k = k"
  by (subst skip_backing.simps) auto

lemma check_locations_plain:
  assumes "\<forall>v\<in>set la. \<not> is_duplicate v" "\<forall>v\<in>set lb. \<not> is_duplicate v" "length la = length lb"
  shows "check_locations sid la lb k k = [] \<longleftrightarrow> (\<forall>i. k \<le> i \<and> i < length la \<longrightarrow> same_value (la ! i) (lb ! i))"
proof (induction "length la - k" arbitrary: k)
  case 0
  then show ?case using assms by (subst check_locations.simps) (auto simp: plain_num_unique)
next
  case (Suc n)
  then have "k < length la" "n = length la - Suc k" by auto
  moreover have "(\<forall>i. k \<le> i \<and> i < length la \<longrightarrow> same_value (la ! i) (lb ! i)) \<longleftrightarrow>
      same_value (la ! k) (lb ! k) \<and>
      (\<forall>i. Suc k \<le> i \<and> i < length la \<longrightarrow> same_value (la ! i) (lb ! i))"
    using \<open>k < length la\<close> by (metis Suc_leD le_refl not_less_eq_eq le_antisym)
  ultimately show ?case
    using Suc.hyps(1) [of "Suc k"] assms by (subst check_locations.simps)
      (simp add: plain_num_unique plain_skip check_location_nil)
qed

lemma check_record_plain:
  assumes "unat (func_idx ca) < length (function_records sa)"
    "unat (func_idx cb) < length (function_records sb)"
    "\<forall>v\<in>set (locations ca). \<not> is_duplicate v" "\<forall>v\<in>set (locations cb). \<not> is_duplicate v"
  shows "\<exists>w. check_record sa ca sb cb = Inr w \<and> (w = [] \<longleftrightarrow> same_site sa sb ca cb)"
  using assms check_locations_plain [OF assms(3,4), of "csr_id ca" 0]
  by (auto simp: check_record_def site_function_def same_site_def plain_num_unique
    list_all2_conv_all_nth)

lemma check_records_plain:
  assumes "plain_section sa" "plain_section sb"
    "set cs \<subseteq> set (call_sites sa) \<times> set (call_sites sb)"
  shows "\<exists>ws. check_records sa sb cs = Inr ws \<and>
    (ws = [] \<longleftrightarrow> (\<forall>(ca, cb)\<in>set cs. same_site sa sb ca cb))"
  using assms(3)
proof (induction cs)
  case (Cons c cs)
  obtain ca cb where c: "c = (ca, cb)" by fastforce
  then have "\<exists>w. check_record sa ca sb cb = Inr w \<and> (w = [] \<longleftrightarrow> same_site sa sb ca cb)"
    using assms(1,2) Cons.prems by (intro check_record_plain) (auto simp: plain_section_def)
  with Cons c show ?case by auto
qed simp

lemma check_section_plain:
  assumes "plain_section sa" "plain_section sb"
  shows "\<exists>ws. check_section i sa sb = Inr ws \<and> (ws = [] \<longleftrightarrow> same_section sa sb)"
proof -
  have "num_records sa = num_records sb \<longleftrightarrow> length (call_sites sa) = length (call_sites sb)"
    using assms by (simp add: plain_section_def word_unat_eq_iff)
  moreover have "set (zip (call_sites sa) (call_sites sb)) \<subseteq>
      set (call_sites sa) \<times> set (call_sites sb)"
    by (auto dest: set_zip_leftD set_zip_rightD)
  ultimately show ?thesis
    using check_records_plain [OF assms, of "zip (call_sites sa) (call_sites sb)"]
    by (auto simp: check_section_def same_section_def list_all2_iff)
qed

lemma check_sections_plain:
  assumes "\<forall>(sa, sb)\<in>set ss. plain_section sa \<and> plain_section sb"
  shows "\<exists>ws. check_sections i ss = Inr ws \<and>
    (ws = [] \<longleftrightarrow> (\<forall>(sa, sb)\<in>set ss. same_section sa sb))"
  using assms
proof (induction ss arbitrary: i)
  case (Cons s ss)
  obtain sa sb where s: "s = (sa, sb)" by fastforce
  then obtain w where "check_section i sa sb = Inr w" "w = [] \<longleftrightarrow> same_section sa sb"
    using check_section_plain [of sa sb i] Cons.prems by auto
  moreover obtain ws where "check_sections (i + 1) ss = Inr ws"
      "ws = [] \<longleftrightarrow> (\<forall>(sa, sb)\<in>set ss. same_section sa sb)"
    using Cons.IH [of "i + 1"] Cons.prems by auto
  ultimately show ?case using s by simp
qed simp

lemma check_stackmaps_plain:
  assumes "\<forall>s\<in>set sm_a. plain_section s" "\<forall>s\<in>set sm_b. plain_section s"
  shows "\<exists>ret ws. check_stackmaps sm_a sm_b = Inr (ret, ws) \<and>
    (ret = SUCCESS \<longleftrightarrow> list_all2 same_section sm_a sm_b)"
proof -
  have "\<forall>(sa, sb)\<in>set (zip sm_a sm_b). plain_section sa \<and> plain_section sb"
    using assms by (auto dest: set_zip_leftD set_zip_rightD)
  from check_sections_plain [OF this, of 0] show ?thesis
    by (auto simp: check_stackmaps_def list_all2_iff Let_def)
qed

text \<open>
  With a backing stack slot among the locations the loop bounds, which count values, are used
  as indices of records: here the third record of each side is never compared.
\<close>

definition ex_location :: "bool \<Rightarrow> u8 \<Rightarrow> live_value" where
  "ex_location dup sz = \<lparr>is_duplicate = dup, is_alloca = False, is_ptr = False, lv_type = SM_DIRECT,
     lv_size = sz, lv_regnum = 0, lv_offset = 0, alloca_size = 0\<rparr>"

lemma check_locations_misses:
  "check_locations sid [ex_location False 8, ex_location True 8, ex_location False 8]
     [ex_location False 8, ex_location True 8, ex_location False 4] 0 0 = []"
  by (simp add: check_locations.simps skip_backing.simps num_unique_def check_location_def
    ex_location_def)

end
