(* ===== verification/Stack_Depth.thy ===== *)
theory Stack_Depth
  imports Prelude
begin

text \<open>
  The stack depth profiler, \<open>lib/stack_depth\<close>: the hooks a compiler calls on entry to and exit
  from every function. The table is guarded by a lock, so a run is a sequence of calls of the
  hooks by numbered threads; each thread has its own depth. The table is shown to be the summary
  of all entries of the run. The file it is written to at exit, with averages in floating point,
  is not modelled.
\<close>

section \<open>The hooks\<close>

record FuncInfo =
  numCalls :: u64
  avgStackDepth :: u64
  maxDepth :: "u64 \<times> u64"
  fi_caller :: "u64 \<rightharpoonup> u64"

record profile =
  funcCalls :: "u64 \<rightharpoonup> FuncInfo"
  stackDepth :: "nat \<Rightarrow> u64"

definition stack_depth_ctor :: profile where
  "stack_depth_ctor = \<lparr>funcCalls = (\<lambda>_. None), stackDepth = (\<lambda>_. 0)\<rparr>"

definition cyg_profile_func_enter :: "nat \<Rightarrow> u64 \<Rightarrow> u64 \<Rightarrow> profile \<Rightarrow> profile" where
  "cyg_profile_func_enter thread func caller s =
     (let depth = stackDepth s thread + 1;
          info = (case funcCalls s func of
            Some i \<Rightarrow>
              i\<lparr>numCalls := numCalls i + 1, avgStackDepth := avgStackDepth i + depth,
                maxDepth := (if snd (maxDepth i) < depth then (caller, depth) else maxDepth i),
                fi_caller := (case fi_caller i caller of Some n \<Rightarrow> (fi_caller i)(caller \<mapsto> n + 1)
                  | None \<Rightarrow> (fi_caller i)(caller \<mapsto> 1))\<rparr>
          | None \<Rightarrow> \<lparr>numCalls = 1, avgStackDepth = depth, maxDepth = (caller, depth), fi_caller = [caller \<mapsto> 1]\<rparr>) in
      s\<lparr>funcCalls := (funcCalls s)(func \<mapsto> info), stackDepth := (stackDepth s)(thread := depth)\<rparr>)"

definition cyg_profile_func_exit :: "nat \<Rightarrow> u64 \<Rightarrow> u64 \<Rightarrow> profile \<Rightarrow> profile" where
  "cyg_profile_func_exit thread dest caller s = s\<lparr>stackDepth := (stackDepth s)(thread := stackDepth s thread - 1)\<rparr>"

datatype hook = Enter nat u64 u64 | Exit nat u64 u64

fun run_hook :: "hook \<Rightarrow> profile \<Rightarrow> profile" where
  "run_hook (Enter thread func caller) s = cyg_profile_func_enter thread func caller s"
| "run_hook (Exit thread dest caller) s = cyg_profile_func_exit thread dest caller s"

definition run_hooks :: "hook list \<Rightarrow> profile" where
  "run_hooks hs = fold run_hook hs stack_depth_ctor"

section \<open>The summary of a run\<close>

text \<open>The depth of a thread after a run: its entries less its exits, modulo the width of \<open>size_t\<close>.\<close>

fun of_thread :: "nat \<Rightarrow> hook \<Rightarrow> int" where
  "of_thread t (Enter thread func caller) = (if thread = t then 1 else 0)"
| "of_thread t (Exit thread dest caller) = (if thread = t then - 1 else 0)"

definition depth_after :: "hook list \<Rightarrow> nat \<Rightarrow> u64" where
  "depth_after hs t = of_int (\<Sum>h\<leftarrow>hs. of_thread t h)"

text \<open>The entries into a function: the caller and the depth of each.\<close>

definition entry_at :: "hook list \<Rightarrow> u64 \<Rightarrow> nat \<Rightarrow> (u64 \<times> u64) list" where
  "entry_at hs f i = (case hs ! i of
     Enter thread func caller \<Rightarrow> (if func = f then [(caller, depth_after (take i hs) thread + 1)] else [])
   | Exit thread dest caller \<Rightarrow> [])"

definition entries_into :: "hook list \<Rightarrow> u64 \<Rightarrow> (u64 \<times> u64) list" where
  "entries_into hs f = concat (map (entry_at hs f) [0..<length hs])"

definition first_deepest :: "(u64 \<times> u64) list \<Rightarrow> u64 \<times> u64" where
  "first_deepest es = hd (filter (\<lambda>e. \<forall>x\<in>set es. snd x \<le> snd e) es)"

definition summary :: "(u64 \<times> u64) list \<Rightarrow> FuncInfo option" where
  "summary es = (if es = [] then None else Some
     \<lparr>numCalls = of_nat (length es), avgStackDepth = (\<Sum>e\<leftarrow>es. snd e), maxDepth = first_deepest es,
      fi_caller = (\<lambda>c. let n = length (filter (\<lambda>e. fst e = c) es) in if n = 0 then None else Some (of_nat n))\<rparr>)"

lemma deepest_exists: "es \<noteq> [] \<Longrightarrow> \<exists>e\<in>set es. \<forall>x\<in>set es. snd x \<le> (snd e :: u64)"
proof -
  assume "es \<noteq> []"
  then have "Max (snd ` set es) \<in> snd ` set es" by (intro Max_in) auto
  then obtain e where "e \<in> set es" "snd e = Max (snd ` set es)" by auto
  then show ?thesis by (intro bexI[of _ e]) simp_all
qed

lemma first_deepest:
  assumes "es \<noteq> []" shows "first_deepest es \<in> set es" and "x \<in> set es \<Longrightarrow> snd x \<le> snd (first_deepest es)"
proof -
  have "filter (\<lambda>e. \<forall>x\<in>set es. snd x \<le> snd e) es \<noteq> []" using deepest_exists[OF assms] by (auto simp: filter_empty_conv)
  then have "first_deepest es \<in> set (filter (\<lambda>e. \<forall>x\<in>set es. snd x \<le> snd e) es)" unfolding first_deepest_def by (rule hd_in_set)
  then show "first_deepest es \<in> set es" "x \<in> set es \<Longrightarrow> snd x \<le> snd (first_deepest es)" by simp_all
qed

lemma first_deepest_snoc:
  assumes "es \<noteq> []" shows "first_deepest (es @ [e]) = (if snd (first_deepest es) < snd e then e else first_deepest es)"
proof (cases "snd (first_deepest es) < snd e")
  case True
  then have "filter (\<lambda>e'. \<forall>x\<in>set (es @ [e]). snd x \<le> snd e') es = []" "\<forall>x\<in>set es. snd x \<le> snd e"
    using first_deepest(2)[OF assms] by (force simp: filter_empty_conv)+
  then show ?thesis using True by (simp add: first_deepest_def)
next
  case False
  then have "filter (\<lambda>e'. \<forall>x\<in>set (es @ [e]). snd x \<le> snd e') es = filter (\<lambda>e'. \<forall>x\<in>set es. snd x \<le> snd e') es"
    using first_deepest(1)[OF assms] by (intro filter_cong) (auto intro: order_trans)
  moreover have "filter (\<lambda>e'. \<forall>x\<in>set es. snd x \<le> snd e') es \<noteq> []" using deepest_exists[OF assms] by (auto simp: filter_empty_conv)
  ultimately show ?thesis using False by (simp add: first_deepest_def)
qed

lemma entries_snoc: "entries_into (hs @ [h]) f = entries_into hs f @ entry_at (hs @ [h]) f (length hs)"
proof -
  have "map (entry_at (hs @ [h]) f) [0..<length hs] = map (entry_at hs f) [0..<length hs]"
    by (auto simp: entry_at_def nth_append split: hook.splits)
  then have "concat (map (entry_at (hs @ [h]) f) [0..<length hs]) = entries_into hs f" unfolding entries_into_def by (rule arg_cong)
  then show ?thesis by (simp add: entries_into_def)
qed

text \<open>Entering a function is taking one more entry into its summary.\<close>

lemma enter_summary:
  assumes "\<And>f. funcCalls s f = summary (es f)" and "stackDepth s thread + 1 = d"
  shows "funcCalls (cyg_profile_func_enter thread func caller s) f = summary (es f @ (if func = f then [(caller, d)] else []))"
proof (cases "func = f")
  case True
  show ?thesis
  proof (cases "es f = []")
    case empty: True
    then show ?thesis using True assms by (auto simp: cyg_profile_func_enter_def summary_def first_deepest_def fun_eq_iff)
  next
    case False
    then show ?thesis
      using True assms
      by (auto simp: cyg_profile_func_enter_def summary_def first_deepest_snoc Let_def fun_eq_iff algebra_simps)
  qed
qed (use assms in \<open>simp add: cyg_profile_func_enter_def Let_def\<close>)

lemma profile_is_summary:
  "stackDepth (run_hooks hs) t = depth_after hs t \<and> funcCalls (run_hooks hs) f = summary (entries_into hs f)"
proof (induction hs arbitrary: t f rule: rev_induct)
  case Nil
  then show ?case by (simp add: run_hooks_def stack_depth_ctor_def depth_after_def entries_into_def summary_def)
next
  case (snoc h hs)
  have r: "run_hooks (hs @ [h]) = run_hook h (run_hooks hs)" by (simp add: run_hooks_def)
  have d: "stackDepth (run_hooks hs) = depth_after hs" using snoc by blast
  show ?case
  proof (cases h)
    case (Enter thread func caller)
    have r': "run_hooks (hs @ [h]) = cyg_profile_func_enter thread func caller (run_hooks hs)" using r Enter by simp
    have "funcCalls (run_hooks (hs @ [h])) f = summary (entries_into hs f @ (if func = f then [(caller, depth_after hs thread + 1)] else []))"
      unfolding r' by (rule enter_summary) (use snoc in simp_all)
    moreover have "stackDepth (run_hooks (hs @ [h])) t = depth_after (hs @ [h]) t"
      unfolding r' by (simp add: cyg_profile_func_enter_def Let_def d) (simp add: depth_after_def Enter)
    moreover have "entry_at (hs @ [h]) f (length hs) = (if func = f then [(caller, depth_after hs thread + 1)] else [])"
      by (simp add: entry_at_def Enter)
    ultimately show ?thesis by (simp only: entries_snoc)
  next
    case (Exit thread dest caller)
    have r': "run_hooks (hs @ [h]) = cyg_profile_func_exit thread dest caller (run_hooks hs)" using r Exit by simp
    have "stackDepth (run_hooks (hs @ [h])) t = depth_after (hs @ [h]) t"
      unfolding r' by (simp add: cyg_profile_func_exit_def d) (simp add: depth_after_def Exit)
    moreover have "funcCalls (run_hooks (hs @ [h])) f = summary (entries_into hs f)"
      unfolding r' using snoc by (simp add: cyg_profile_func_exit_def)
    ultimately show ?thesis by (simp add: entries_snoc entry_at_def Exit)
  qed
qed

end
