(* ===== verification/Spec2Isabelle.thy ===== *)
theory Spec2Isabelle
  imports Examples Rewrite_Examples Bomp_Examples Dump_Examples Self_Info Migration Check_Stackmaps Stack_Depth
begin

text \<open>
  This development models the C code that the Popcorn compiler toolchain adds to its
  vendored libraries and states what makes it correct. A Popcorn binary exists once per
  architecture, with functions and global data at the same addresses. The compiler leaves a
  stack map at every call site; the metadata tool turns the maps of each binary into tables;
  at run time a thread that migrates has its stack rewritten, frame by frame, from the layout
  of one architecture to that of the other, by looking the call sites up in both binaries'
  tables. The migration library starts this at migration points, and the OpenMP runtime
  provides the threads.

  \<^bold>\<open>Results and memory.\<close> \<open>Prelude\<close> holds the machine integers, byte-addressed memory with
  \<open>memcpy\<close> and little-endian words, and the result type: a run of the modelled code ends in a
  value, in an error exit (\<open>ST_ERR\<close>), in a failed assertion, or in undefined behaviour, which
  is a value too. \<open>ASSERT\<close> depends on the build flag \<open>_CHECKS\<close>, an argument called \<open>checks\<close>.

  \<^bold>\<open>The stack transformation runtime\<close>, \<open>src/lib/stack_transformation\<close>, and the headers it
  shares with the tool, \<open>src/common/stack_transformation\<close>:
    \<^item> \<open>Bitmap\<close> (\<open>bitmap.h\<close>) and \<open>Linked_List\<close> (\<open>list.h\<close>, on a heap of nodes): the operations
      refine sets of numbers and functional lists (locales \<open>register_set\<close> and \<open>node_list\<close>); no
      assertion of the list macros can fail on a list they built.
    \<^item> \<open>Regs\<close> (\<open>regs.h\<close>, \<open>properties.h\<close>): the tables of function pointers as records, and the
      locales \<open>register_file\<close> and \<open>stack_properties\<close> that state what the generic code relies on;
      \<open>Regs_aarch64\<close> and \<open>Regs_x86_64\<close> (\<open>src/arch\<close>) define the tables of the two
      architectures and interpret the locales on them.
    \<^item> \<open>Definitions\<close> (\<open>definitions.h\<close>, \<open>call_site.h\<close>): handles, contexts, activations and
      metadata records. \<open>Lookup\<close> (\<open>util.c\<close>): the binary searches, total and exact on sorted
      tables (locale \<open>keyed_lookup\<close>, interpreted for both orders), and the function search.
    \<^item> \<open>Unwind\<close> (\<open>unwind.c\<close>), \<open>Data_Access\<close> (\<open>data.c\<close>), \<open>Rewrite\<close> (\<open>rewrite.c\<close>): every function.
      Unwinding restores the caller's registers; values and pointers are copied to every
      location of the destination; the frame loop links each frame to its caller; the
      lists of pending pointers are consumed. Locale \<open>frame_invariant\<close> carries a fact about a frame
      through everything \<open>rewrite_frame\<close> does.
    \<^item> \<open>Frame_Links\<close> and \<open>Rewrite_Run\<close> put the pieces together: \<open>frame_chain\<close> specifies the stack a
      thread can return through, the first theory shows that copying values leaves the words that
      link the frames alone, the second that a whole run of \<open>st_rewrite_stack\<close> builds such a chain.
    \<^item> \<open>Layout\<close>: the packed records as bytes, with round trips. \<open>Elf_File\<close> (\<open>init.c\<close>, \<open>bin.c\<close>, the
      tool's \<open>util.c\<close>): handles and sections over an abstract ELF file, with the resources
      that are held. \<open>Userspace\<close> (\<open>userspace.c\<close>): the two halves of the thread's stack, the
      entry points, constructor and destructor, in the configuration with thread-specific
      data of the thread library.
    \<^item> \<open>Timer\<close> (\<open>timer.c\<close>): the timers, with time stamps computed in double precision. Timings add up
      exactly while the clock is below \<open>2\<^sup>5\<^sup>3\<close> nanoseconds. The calls in the other files are compiled
      out unless \<open>_TIMING\<close> is defined and are not part of their models.

  \<^bold>\<open>The metadata tool\<close>, \<open>src/tool/stack_metadata\<close>: \<open>Stackmap\<close> (\<open>stackmap.c\<close>) parses the compiler's
  section from bytes, \<open>Write_Metadata\<close> (\<open>write.c\<close>, \<open>main.c\<close>) builds and places the tables, and
  \<open>Check_Stackmaps\<close> (\<open>utils/check_stackmaps.c\<close>) compares the maps of two binaries. \<open>Tool_Run\<close> follows
  a run of the tool and the opening of its output by the runtime; property C10 is its result:
  the tables written are those the searches of the runtime need. \<open>Dump_Stackinfo\<close> and \<open>Dump_Stackmap\<close>
  (\<open>utils/dump_stackinfo.c\<close>, \<open>utils/dump_llvm_stackmap.c\<close>) are the printers of the tables and of the
  stack maps, with the conversions of \<open>printf\<close> in \<open>Printf\<close>; locales \<open>number_format\<close> and
  \<open>record_format\<close> state when a text determines what was printed, interpreted on every
  conversion and on the lines of three tables.

  \<^bold>\<open>Migration\<close> (\<open>src/lib/migration\<close>): CPU sets, requests, and the shim on both sides of the
  system call. \<open>Cpuinfo\<close> is the reading of \<open>/proc/cpuinfo\<close> it shares with the next part.

  \<^bold>\<open>The stack depth profiler\<close> (\<open>src/lib/stack_depth\<close>), \<open>Stack_Depth\<close>: the table the instrumentation hooks
  keep is the summary of all function entries of a run.

  \<^bold>\<open>The OpenMP runtime\<close>, \<open>src/lib/libbomp\<close>:
    \<^item> \<open>Bomp_Loop\<close> (\<open>kmp.c\<close>): the static schedules in the arithmetic of each loop type, where
      unsigned results wrap and signed overflow is undefined.
    \<^item> \<open>Bomp_Sync\<close> (\<open>spin.h\<close>): lock and barrier, one shared-memory access per step, for every
      schedule (a list of thread numbers); locales \<open>interleaving\<close> and \<open>mutual_exclusion\<close>,
      interpreted on both locks and on the barrier. Memory is sequentially consistent, and
      the exclusive monitor of aarch64 is explicit.
    \<^item> \<open>Bomp_Pool\<close> (\<open>popcorn_threadpool.c\<close>): the ring buffer implements the locale
      \<open>bounded_queue\<close>; an inductive step relation runs master and workers.
    \<^item> \<open>Bomp_Runtime\<close> (\<open>omp.c\<close>, \<open>parallel.c\<close>, \<open>processing.c\<close>, \<open>linux_backend.c\<close>): globals, regions,
      start-up and exit.
    \<^item> \<open>Bomp_Team\<close> (\<open>kmp.c\<close>, \<open>parallel.c\<close>, \<open>processing.c\<close>): the synchronisation calls a region makes, and
      a team of threads that runs them on the locks and the barrier of \<open>Bomp_Sync\<close>; locales
      \<open>spin_lock\<close> and \<open>live_lock\<close> state what it needs of a lock, interpreted on both.
    \<^item> \<open>Self_Info\<close> (\<open>self_info.c\<close>): the loop that prints scheduling statistics.

  \<open>Examples\<close>, \<open>Rewrite_Examples\<close>, \<open>Bomp_Examples\<close> and \<open>Dump_Examples\<close> hold a small program with its
  metadata, stack and binaries, a complete rewrite of its stack, small pools and teams, and a
  binary to print, on which the witnesses instantiate the properties.

  \<^bold>\<open>What this theory states.\<close> C1 to C9 are about rewriting a stack, C1 about the whole of it; C10
  to C20 about the way from stack maps to tables and back, and their printed forms; C21 to C23
  about the data structures and the two architectures; C24 and C25 about the user-space front
  end; C26 about the profiler; C27 to C37 about the OpenMP runtime. C38 to C40 state behaviour
  of the code that departs from what it is meant to do, each for the exact conditions under
  which it happens; the lemmas the findings of the manifest name are in the theories of their
  components.

  \<^bold>\<open>Loops and bounds.\<close> Recursion over data is structural or has a measure; the unwinding loop
  ends because a context has at most \<open>MAX_FRAMES\<close> activations. The fixup loop may run for ever
  in C, and so may the loop over a statistics file: they are partial functions into \<open>option\<close>, where
  \<open>None\<close> is not returning, and C9, C37 and C40 say when they return and when they do not. Only the
  pointer loops of \<open>Linked_List\<close> take fuel, and as much as the list has nodes is shown to be enough.
  \<open>qsort\<close> is modelled as a stable sort by the comparison key; the C library does not promise
  stability, and the properties about sorted tables assume distinct keys where ties would matter.

  \<^bold>\<open>Not modelled.\<close> The vendored C library and ELF library, the compiler patches, the Java and Python
  tools, and the small programs that set up name spaces. Of the modelled files: logging,
  debugging output and the calls of timers; the assembly that reads and sets all registers,
  touches stack pages and makes the system call; option parsing; the configuration of the user-space front end that
  keeps its data in compiler thread-local storage; the wall clock.
\<close>

section \<open>The run-time rewriting\<close>

text \<open>
  C1. The stack that st_rewrite_stack builds for x86-64 can be walked: when a rewrite succeeds, the
  registers handed to the destination continue at the start of the function the source was
  in, with the stack pointer at the top of the new stack; the return address there is that of the
  first caller's destination call site, and following the saved frame pointers from the frame
  pointer visits the return addresses of all outer frames in order. It needs the call site
  tables sorted, the values of every destination site inside its frame and off the two words
  that link it, and a stack that has room for the frames.
\<close>

theorem rewritten_stack_walks:
  assumes "sites_addr_wf hs" and "sites_id_wf ht" and "h_regops ht = regs_x86_64" and "h_props ht = properties_x86_64"
    and "\<forall>site\<in>set (sites_id ht). framed_site 7 6 16 checks ht site"
    and "init_src_context checks asrc hs rs bs = Inr src"
    and "get_function_address hs (pc (h_regops hs) (act_regs (acts src 0))) = Inr fn"
    and "init_dest_context checks adst ht rd bd fn = Inr dest"
    and "unwind_and_size checks m src dest = Inr (src1, dest1)"
    and "frames_sum dest1 (num_acts dest1 - 1) + 24 \<le> unat bd" and "unat bd + 8 < 2 ^ 64"
    and "st_rewrite_stack checks asrc adst m (Some hs) (Some rs) bs (Some ht) (Some rd) bd = Some (Inr (m', Some out, 0))"
  shows "x86_rsp out = stack dest1 \<and> x86_rip out = fn \<and> load64 m' (x86_rsp out) = cs_addr (act_site (acts dest1 1)) \<and>
    frame_chain m' (x86_rbp out) (num_acts dest1 - 2) = map (\<lambda>i. cs_addr (act_site (acts dest1 i))) [2..<num_acts dest1]"
  using assms by (intro chain_x86_64 x86p.st_rewrite_stack_chain)

theorem rewritten_stack_walks_witness:
  "\<exists>m' out. ex_rewrite = Some (Inr (m', Some out, 0)) \<and> x86_rip out = 0x1000 \<and> x86_rsp out = 0x8fc8 \<and>
     load64 m' (x86_rsp out) = 0x2020 \<and> frame_chain m' (x86_rbp out) 1 = [0x3020]"
proof -
  obtain src dest src1 pool m' out where r: "init_src_context True (Some ex_fresh_a64) ex_a64 ex_regs 0x7040 = Inr src"
    "pc (h_regops ex_a64) (act_regs (acts src 0)) = 0x1010" "init_dest_context True (Some ex_fresh_x86) ex_x86 zero_x86_64 0x9000 0x1000 = Inr dest"
    "unwind_and_size True ex_mem src dest = Inr (src1, ex_dest1 dest pool)" "ex_rewrite = Some (Inr (m', Some out, 0))"
    using ex_rewrite_runs by blast
  have e: "num_acts (ex_dest1 dest pool) = 3" "stack (ex_dest1 dest pool) = 0x8fc8"
    "act_site (acts (ex_dest1 dest pool) 1) = ex_site 5 0x2020 32 2 0 1" "act_site (acts (ex_dest1 dest pool) 2) = ex_site UINT64_MAX 0x3020 16 0 0 0"
    by (simp_all add: ex_dest1_def)
  have "frames_sum (ex_dest1 dest pool) (Suc (Suc 0)) = 48" using e(3,4) unfolding frames_sum_simps by (simp add: ex_site_sel flip: numeral_2_eq_2)
  then have sz: "frames_sum (ex_dest1 dest pool) (num_acts (ex_dest1 dest pool) - 1) = 48" using e(1) by (simp flip: numeral_2_eq_2)
  have fn: "get_function_address ex_a64 (pc (h_regops ex_a64) (act_regs (acts src 0))) = Inr 0x1000" unfolding r(2) by code_simp
  have "x86_rsp out = stack (ex_dest1 dest pool) \<and> x86_rip out = 0x1000 \<and>
      load64 m' (x86_rsp out) = cs_addr (act_site (acts (ex_dest1 dest pool) 1)) \<and>
      frame_chain m' (x86_rbp out) (num_acts (ex_dest1 dest pool) - 2) =
        map (\<lambda>i. cs_addr (act_site (acts (ex_dest1 dest pool) i))) [2..<num_acts (ex_dest1 dest pool)]"
    by (rule rewritten_stack_walks[OF ex_sites_wf _ _ ex_framed r(1) fn r(3,4) _ _ r(5)[unfolded ex_rewrite_def]]) (simp_all add: sz[unfolded One_nat_def])
  moreover have "[2..<3] = [2 :: nat]" by (simp add: upt_rec)
  ultimately have "x86_rip out = 0x1000 \<and> x86_rsp out = 0x8fc8 \<and> load64 m' (x86_rsp out) = 0x2020 \<and> frame_chain m' (x86_rbp out) 1 = [0x3020]"
    by (auto simp: e[unfolded One_nat_def] ex_site_sel)
  with r(5) show ?thesis by blast
qed



text \<open>
  C3. Unwinding one x86-64 frame with frame bounds yields the caller's registers: the stack pointer is
  the callee's canonical frame address, every callee-saved register has the content of its save
  slot, every other register is the callee's, and the program counter is the saved return
  address. The frame bounds are those of the caller's call site; no other activation changes.
\<close>

theorem pop_frame_restores_caller_x86_64:
  assumes "REGOPS ctx = regs_x86_64" and "PROPS ctx = properties_x86_64"
    and "unwindable properties_x86_64 X86_64_NUM_REGS ctx (ACT ctx)" and "act ctx + 1 < MAX_FRAMES"
    and "cfa = act_cfa (ACT ctx) + ucast (cs_frame_size (act_site (NEXT_ACT ctx)))"
    and "checks \<longrightarrow> act_cfa (ACT ctx) \<noteq> 0 \<and> cs_addr (act_site (NEXT_ACT ctx)) \<noteq> 0 \<and> cfa \<noteq> 0 \<and> cfa \<noteq> 16"
  shows "\<exists>rs ctx'. pop_frame checks m ctx True = Inr ctx' \<and> act ctx' = act ctx + 1 \<and>
    caller_regs regs_x86_64 7 16 m ctx (ACT ctx) rs \<and>
    act_cfa (ACT ctx') = cfa \<and> act_regs (ACT ctx') = set_fbp_x86_64 rs (cfa - 16) \<and>
    act_site (ACT ctx') = act_site (NEXT_ACT ctx) \<and>
    (\<forall>j. j \<noteq> act ctx + 1 \<longrightarrow> acts ctx' j = acts ctx j)"
proof -
  have n: "num_regs regs_x86_64 = X86_64_NUM_REGS" "set_fbp regs_x86_64 = set_fbp_x86_64"
    by (simp_all add: regs_x86_64_def)
  show ?thesis using x86p.pop_frame_bounds_law[of ctx cfa checks m] assms unfolding n by blast
qed

theorem pop_frame_restores_caller_x86_64_witness:
  "\<exists>rs ctx'. pop_frame True ex_mem ex_ctx_x86 True = Inr ctx' \<and> act ctx' = 2 \<and>
    caller_regs regs_x86_64 7 16 ex_mem ex_ctx_x86 (ACT ex_ctx_x86) rs \<and> act_cfa (ACT ctx') = 0x9000 \<and>
    act_regs (ACT ctx') = set_fbp_x86_64 rs 0x8ff0"
  using pop_frame_restores_caller_x86_64[of ex_ctx_x86 "0x9000" True ex_mem, OF _ _ ex_ctx_x86_unwindable]
  by auto

text \<open>
  C4. Unwinding one aarch64 frame restores the caller's registers (the program counter is the restored
  link register) and records exactly the restored registers in the callee's bitmap.
\<close>

theorem pop_frame_restores_caller_aarch64:
  assumes "REGOPS ctx = regs_aarch64" and "PROPS ctx = properties_aarch64"
    and "unwindable properties_aarch64 AARCH64_NUM_REGS ctx (ACT ctx)" and "act ctx + 1 < MAX_FRAMES"
  shows "\<exists>rs pool. pop_frame checks m ctx False =
      Inr ((with_regs (entered ctx) (act ctx + 1) rs pool)\<lparr>act := act ctx + 1\<rparr>) \<and>
    caller_regs regs_aarch64 31 30 m ctx (ACT ctx) rs \<and>
    bitmap_elems pool (act_callee_saved (ACT ctx)) =
      bitmap_elems (callee_saved_pool ctx) (act_callee_saved (ACT ctx)) \<union>
      loc_reg ` set (site_locs (handle ctx) (act_site (ACT ctx)))"
proof -
  have n: "num_regs regs_aarch64 = AARCH64_NUM_REGS" by (simp add: regs_aarch64_def)
  show ?thesis using a64p.pop_frame_law[of ctx checks m] assms unfolding n by blast
qed

theorem pop_frame_restores_caller_aarch64_witness:
  "\<exists>rs pool. pop_frame True ex_mem ex_ctx_a64 False =
      Inr ((with_regs (entered ex_ctx_a64) 2 rs pool)\<lparr>act := 2\<rparr>) \<and>
    caller_regs regs_aarch64 31 30 ex_mem ex_ctx_a64 (ACT ex_ctx_a64) rs"
  using pop_frame_restores_caller_aarch64[OF _ _ ex_ctx_a64_unwindable, of True ex_mem]
  by (auto simp: numeral_2_eq_2)

text \<open>
  C5. At a function entry on x86-64 the return address written by the rewriter is the one the unwinder
  then reads from the top of the stack, and the caller's frame bounds are set.
\<close>

theorem return_address_round_trip_x86_64:
  assumes "REGOPS ctx = regs_x86_64" and "PROPS ctx = properties_x86_64" and "act ctx + 1 < MAX_FRAMES"
    and "act_cfa (ACT ctx) = sp_x86_64 (act_regs (ACT ctx)) + 8" and "retaddr \<noteq> 0"
    and "cfa = act_cfa (ACT ctx) + ucast (cs_frame_size (act_site (NEXT_ACT ctx)))"
    and "act_cfa (ACT ctx) \<noteq> 0" and "cs_addr (act_site (NEXT_ACT ctx)) \<noteq> 0" and "cfa \<noteq> 0" and "cfa \<noteq> 16"
  shows "\<exists>m' ctx'. set_return_address_funcentry checks m ctx retaddr = Inr (m', ctx) \<and>
    pop_frame_funcentry checks m' ctx = Inr ctx' \<and> act ctx' = act ctx + 1 \<and>
    pc_x86_64 (act_regs (ACT ctx')) = retaddr \<and> sp_x86_64 (act_regs (ACT ctx')) = act_cfa (ACT ctx) \<and>
    fbp_x86_64 (act_regs (ACT ctx')) = cfa - 16 \<and> act_cfa (ACT ctx') = cfa"
proof -
  have s: "has_ra_reg regs_x86_64 = False" "sp regs_x86_64 = sp_x86_64" "pc regs_x86_64 = pc_x86_64" "fbp regs_x86_64 = fbp_x86_64"
    by (simp_all add: regs_x86_64_def)
  let ?m = "store64 m (sp_x86_64 (act_regs (ACT ctx))) retaddr"
  have "set_return_address_funcentry checks m ctx retaddr = Inr (?m, ctx)"
    using assms x86p.ra_offset_law s by (simp add: set_return_address_funcentry_def ptr_add_def)
  moreover have "(if has_ra_reg regs_x86_64 then ra_reg regs_x86_64 (act_regs (ACT ctx))
      else Inr (load64 ?m (sp regs_x86_64 (act_regs (ACT ctx))))) = Inr retaddr"
    using s by (simp add: mem_simps)
  note law = x86p.pop_frame_funcentry_law[OF assms(1-3) this assms(6)]
  ultimately show ?thesis using law[of checks] assms unfolding s by blast
qed

theorem return_address_round_trip_x86_64_witness:
  "\<exists>m' ctx'. set_return_address_funcentry True ex_mem ex_entry_x86 0x2020 = Inr (m', ex_entry_x86) \<and>
    pop_frame_funcentry True m' ex_entry_x86 = Inr ctx' \<and> pc_x86_64 (act_regs (ACT ctx')) = 0x2020 \<and>
    fbp_x86_64 (act_regs (ACT ctx')) = 0x8fe0"
  using return_address_round_trip_x86_64[of ex_entry_x86 "0x2020" "0x8ff0" True ex_mem] by auto







text \<open>
  C9. The loop over the pending fixups returns when no pending fixup points above the current frame.
\<close>

theorem fixup_local_pointers_returns:
  assumes "\<forall>fx\<in>set (stack_pointers dest). fx_src_addr fx \<le> act_cfa (ACT src)"
  shows "\<exists>r. fixup_local_pointers checks m src dest = Some r"
  unfolding fixup_local_pointers_def using assms by (rule fixup_loop_returns)

theorem fixup_local_pointers_returns_witness:
  "\<exists>r. fixup_local_pointers True ex_mem ex_ctx_a64 (ex_ctx_x86\<lparr>stack_pointers := [ex_fixup 0x7020 1]\<rparr>) = Some r"
  using fixup_local_pointers_returns[of "ex_ctx_x86\<lparr>stack_pointers := [ex_fixup 0x7020 1]\<rparr>" ex_ctx_a64 True ex_mem]
  by (simp add: ex_fixup_def)

section \<open>From the compiler's stack maps to the runtime's tables\<close>

text \<open>
  C10. A run of the metadata tool on a binary, from parsing its stack maps to writing the sections,
  leaves a file from which the runtime builds a handle whose three tables satisfy the
  invariants of their binary searches: both call site tables and the unwinding ranges are
  sorted and counted. The site tables hold the same sites, one per stack map record, each
  with the record's live values, address and corrected frame size, and with consecutive IDs
  except for the reserved ones. Nothing the run opened stays open. The contents of the stack
  maps are not constrained: that they are well formed follows from the parser.
\<close>

theorem tool_output_is_searchable:
  assumes "fl_begin env = Some e" and "elf_wf e" and "blocks_small e" and "ranges_in e us"
    and "\<forall>n\<in>set new_names. get_section_by_name e n = None"
    and "gen_stackinfo base written junk env (Some fn) SECTION_PREFIX start_id rs = Inr (b', rs')"
    and "st_init env' (Some fn') rs0 = (Some h, rs1)" and "fl_begin env' = Some (b_elf b')"
  shows "sites_id_wf (attach ops props h) \<and> sites_addr_wf (attach ops props h) \<and> unwind_addrs_wf (attach ops props h) \<and>
    (\<exists>sms sites. init_stackmap base (Some \<lparr>b_name = fn, b_arch = the (e_machine e), b_elf = e\<rparr>) = Inr sms \<and>
      mset (rh_sites_id h) = mset sites \<and> mset (rh_sites_addr h) = mset sites \<and>
      list_all2 (\<lambda>(frs, r). describes (the (e_machine e)) frs (rh_live_vals h) (rh_arch_live_vals h) r) (all_records sms) sites \<and>
      map cs_id sites = id_seq start_id (map (\<lambda>(frs, r). csr_id r) (all_records sms))) \<and>
    rs' = rs"
  using gen_stackinfo_handle[OF assms] by blast

theorem tool_output_is_searchable_witness:
  "\<exists>b h rs1. gen_stackinfo 0 True 0 (ex_env ex_elf) (Some ''a.out'') SECTION_PREFIX 100 ex_closed = Inr (b, ex_closed) \<and>
    st_init (ex_env (b_elf b)) (Some ''a.out'') ex_closed = (Some h, rs1) \<and>
    sites_addr_wf (attach regs_x86_64 properties_x86_64 h) \<and> unwind_addrs_wf (attach regs_x86_64 properties_x86_64 h)"
proof -
  obtain b rs h rs1 where r: "gen_stackinfo 0 True 0 (ex_env ex_elf) (Some ''a.out'') SECTION_PREFIX 100 ex_closed = Inr (b, rs)"
    "st_init (ex_env (b_elf b)) (Some ''a.out'') ex_closed = (Some h, rs1)"
    using ex_stackinfo_runs by (auto split: sum.splits prod.splits option.splits)
  have i: "elf_wf ex_elf" "\<forall>n\<in>set new_names. get_section_by_name ex_elf n = None"
    using ex_tool_input(1,2) by (simp_all add: ex_bin_def)
  have "fl_begin (ex_env ex_elf) = Some ex_elf" "fl_begin (ex_env (b_elf b)) = Some (b_elf b)" by (simp_all add: ex_env_def)
  with tool_output_is_searchable[OF _ i(1) ex_elf_input(1,2) i(2) r, of regs_x86_64 properties_x86_64] r show ?thesis by auto
qed

text \<open>
  C11. The tool's update of the unwinding ranges succeeds and leaves the table strictly sorted by
  function address, each record with the sum of the record counts before it (in link order) as
  its offset.
\<close>

theorem unwind_ranges_are_sorted:
  assumes "get_section_by_name (b_elf b) sec = Some i"
    and "s_blocks (e_secs (b_elf b) ! i) = [enc_table enc_unwind_addr us]"
    and "s_size (e_secs (b_elf b) ! i) = of_nat (16 * length us)" and "s_entsize (e_secs (b_elf b) ! i) = 16"
    and "s_hdr_ok (e_secs (b_elf b) ! i)" and "us \<noteq> []" and "16 * length us < 2 ^ 64" and "distinct (map ua_addr us)"
  shows "\<exists>b' us'. update_function_addr b sec = Inr b' \<and>
    get_num_entries (b_elf b') sec = of_nat (length us) \<and>
    st_get_section_data (b_elf b') sec = Some (enc_table enc_unwind_addr us') \<and>
    sorted_wrt (<) (map ua_addr us') \<and>
    mset us' = mset (map (\<lambda>k. (us ! k)\<lparr>ua_unwind_offset :=
      ucast (sum_list (map (\<lambda>u. ucast (ua_num_unwind u) :: u64) (take k us)))\<rparr>) [0..<length us])"
proof -
  have "assign_offsets 0 us = map (\<lambda>k. (us ! k)\<lparr>ua_unwind_offset :=
      ucast (sum_list (map (\<lambda>u. ucast (ua_num_unwind u) :: u64) (take k us)))\<rparr>) [0..<length us]"
    by (rule nth_equalityI) (simp_all add: assign_offsets_nth)
  then have "mset (sort_key ua_addr (assign_offsets 0 us)) = mset (map (\<lambda>k. (us ! k)\<lparr>ua_unwind_offset :=
      ucast (sum_list (map (\<lambda>u. ucast (ua_num_unwind u) :: u64) (take k us)))\<rparr>) [0..<length us])" by simp
  with update_function_addr_law[OF assms(1-7)] sorted_ranges[OF assms(8), of 0] show ?thesis
    unfolding sec_view_def by blast
qed

theorem unwind_ranges_are_sorted_witness:
  "\<exists>b' us'. update_function_addr ex_bin SECTION_ST_UNWIND_ADDR = Inr b' \<and>
    st_get_section_data (b_elf b') SECTION_ST_UNWIND_ADDR = Some (enc_table enc_unwind_addr us') \<and>
    sorted_wrt (<) (map ua_addr us')"
proof -
  have s: "get_section_by_name (b_elf ex_bin) SECTION_ST_UNWIND_ADDR = Some 0" by code_simp
  have h: "s_blocks (e_secs (b_elf ex_bin) ! 0) = [enc_table enc_unwind_addr [\<lparr>ua_addr = 0x2000, ua_num_unwind = 1, ua_unwind_offset = 0\<rparr>]]"
    "s_size (e_secs (b_elf ex_bin) ! 0) = 16" "s_entsize (e_secs (b_elf ex_bin) ! 0) = 16" "s_hdr_ok (e_secs (b_elf ex_bin) ! 0)"
    by (simp_all add: ex_bin_def ex_elf_def)
  have "\<exists>b' us'. update_function_addr ex_bin SECTION_ST_UNWIND_ADDR = Inr b' \<and>
    get_num_entries (b_elf b') SECTION_ST_UNWIND_ADDR = of_nat (length [\<lparr>ua_addr = 0x2000, ua_num_unwind = 1, ua_unwind_offset = 0\<rparr>]) \<and>
    st_get_section_data (b_elf b') SECTION_ST_UNWIND_ADDR = Some (enc_table enc_unwind_addr us') \<and>
    sorted_wrt (<) (map ua_addr us') \<and> mset us' = mset (map (\<lambda>k. ([\<lparr>ua_addr = 0x2000, ua_num_unwind = 1, ua_unwind_offset = 0\<rparr>] ! k)\<lparr>ua_unwind_offset :=
      ucast (sum_list (map (\<lambda>u. ucast (ua_num_unwind u) :: u64) (take k [\<lparr>ua_addr = 0x2000, ua_num_unwind = 1, ua_unwind_offset = 0\<rparr>])))\<rparr>)
        [0..<length [\<lparr>ua_addr = 0x2000, ua_num_unwind = 1, ua_unwind_offset = 0\<rparr>]])"
    by (rule unwind_ranges_are_sorted[OF s h(1)]) (simp_all add: h)
  then show ?thesis by blast
qed

text \<open>
  C12. Parsing the printed form of any list of stack map sections gives the sections back: the pass
  that counts them and the pass that reads them agree, records of any shape are aligned
  to eight bytes, and nothing is left over.
\<close>

theorem stackmap_sections_parse:
  assumes "stackmap_data b (enc_sections base 0 sms)" and "\<forall>s\<in>set sms. map_section_wf s"
  shows "init_stackmap base (Some b) = Inr sms"
  using assms by (rule init_stackmap_enc)

theorem stackmap_sections_parse_witness: "init_stackmap 0 (Some ex_bin) = Inr [ex_sm] \<and> locations (hd (call_sites ex_sm)) \<noteq> []"
  using stackmap_sections_parse[OF ex_elf_input(3)] ex_sm_wf by (simp add: ex_sm_def ex_record_def)







text \<open>
  C16. Looking up a call site by its return address in a table sorted by address never leaves the table
  and finds a record exactly when the table has one with that address.
\<close>

theorem get_site_by_addr_finds:
  assumes "sites_addr_wf h" and "inj_on cs_addr (set (sites_addr h))"
  shows "(get_site_by_addr h a = Inr (Some x) \<longleftrightarrow> x \<in> set (sites_addr h) \<and> cs_addr x = a) \<and>
    (get_site_by_addr h a = Inr None \<longleftrightarrow> a \<notin> cs_addr ` set (sites_addr h))"
  using by_addr.find_iff[OF assms] by_addr.find_None_iff[OF assms(1)] by blast

theorem get_site_by_addr_finds_witness: "get_site_by_addr ex_a64 0x2010 = Inr (Some (ex_site 5 0x2010 32 2 0 1))"
proof -
  have "sites_addr_wf ex_a64" "inj_on cs_addr (set (sites_addr ex_a64))"
    by (simp_all add: sites_addr_wf_def counts_def ex_defs)
  from get_site_by_addr_finds[OF this] show ?thesis by (simp add: ex_defs)
qed

text \<open>
  C17. The search for the function that encloses an address returns the record with the greatest start
  address not above it, and none when the address is below every function.
\<close>

theorem get_function_address_encloses:
  assumes "unwind_addrs_wf h"
  shows "\<exists>r. get_unwind_offset_by_addr h a = Inr r \<and> enclosing (unwind_addrs h) a r \<and>
    get_function_address h a = Inr (case r of None \<Rightarrow> 0 | Some u \<Rightarrow> ua_addr u)"
  using get_unwind_offset_correct[OF assms, of a] by (auto simp: get_function_address_def split: option.splits)

theorem get_function_address_encloses_witness: "get_function_address ex_x86 0x2020 = Inr 0x2000"
proof -
  have wf: "unwind_addrs_wf ex_x86" by (simp add: unwind_addrs_wf_def counts_def ex_x86_def ex_ranges_def)
  show ?thesis using get_function_address_encloses[OF wf, of "0x2020"]
    by (auto simp: enclosing_def ex_x86_def ex_ranges_def split: option.splits)
qed


text \<open>
  C19. Two binaries whose metadata dumps are the same text are the same to the runtime: the handles
  opened on them have the same unwinding ranges, the same unwinding records and the same call
  sites, up to the padding of a call site record.
\<close>

theorem equal_dumps_show_equal_tables:
  assumes "dump_metadata SECTION_PREFIX b = Inr (SUCCESS, t)" and "dump_metadata SECTION_PREFIX b' = Inr (SUCCESS, t)"
    and "read_handle fn (b_elf b) = Some h" and "read_handle fn' (b_elf b') = Some h'"
  shows "take (unat (rh_unwind_addr_count h)) (rh_unwind_addrs h) = take (unat (rh_unwind_addr_count h')) (rh_unwind_addrs h') \<and>
    take (unat (rh_unwind_count h)) (rh_unwind_locs h) = take (unat (rh_unwind_count h')) (rh_unwind_locs h') \<and>
    map site_fields (take (unat (rh_sites_count h)) (rh_sites_id h)) =
      map site_fields (take (unat (rh_sites_count h')) (rh_sites_id h'))"
  using equal_dumps_agree[OF assms] by blast

theorem equal_dumps_show_equal_tables_witness:
  "\<exists>t h h'. dump_metadata SECTION_PREFIX (ex_dump 0) = Inr (SUCCESS, t) \<and> dump_metadata SECTION_PREFIX (ex_dump 7) = Inr (SUCCESS, t) \<and>
    read_handle ''a.out'' (b_elf (ex_dump 0)) = Some h \<and> read_handle ''a.out'' (b_elf (ex_dump 7)) = Some h' \<and>
    take (unat (rh_unwind_addr_count h)) (rh_unwind_addrs h) = take (unat (rh_unwind_addr_count h')) (rh_unwind_addrs h') \<and>
    b_elf (ex_dump 0) \<noteq> b_elf (ex_dump 7)"
proof -
  obtain t where t: "dump_metadata SECTION_PREFIX (ex_dump p) = Inr (SUCCESS, t)" for p using ex_dump_text by blast
  obtain h h' where h: "read_handle ''a.out'' (b_elf (ex_dump 0)) = Some h" "read_handle ''a.out'' (b_elf (ex_dump 7)) = Some h'"
    using ex_dump_handle by auto
  have "b_elf (ex_dump 0) \<noteq> b_elf (ex_dump 7)"
    using ex_dump_parts(3)[of 0] ex_dump_parts(3)[of 7] by (auto simp: ex_padded_site_def)
  with equal_dumps_show_equal_tables[OF t t h] t h show ?thesis by blast
qed



section \<open>Data structures and architectures\<close>

text \<open>
  C21. The pointer loop over the doubly linked list, which removes some nodes as it goes, computes the
  same result as the recursion over the list of data and leaves a well-formed list of the data
  that were kept; one unit of fuel per node is enough.
\<close>

theorem fixup_scan_refines_list:
  assumes "represents h l ps xs" and "length xs \<le> fuel" and "scan f s xs = Inr (s', ys)"
  shows "\<exists>h' l' qs. dl.scan_loop checks fuel f s h l (list_begin l) = Some (Inr (s', h', l')) \<and> represents h' l' qs ys"
  using assms by (rule dl.scan_loop_refines)

theorem fixup_scan_refines_list_witness:
  "\<exists>h l ps h' l' qs. represents h l ps [10, 20 :: nat] \<and>
    dl.scan_loop True 2 (\<lambda>s x. Inr (s + x, x = 10)) 0 h l (list_begin l) = Some (Inr (30, h', l')) \<and> represents h' l' qs [20]"
proof -
  obtain h l ps where r: "represents h l ps [10, 20 :: nat]" using ex_list by blast
  have s: "scan (\<lambda>s x. Inr (s + x, x = 10)) 0 [10, 20 :: nat] = Inr (30, [20])" by simp
  obtain h' l' qs where "dl.scan_loop True 2 (\<lambda>s x. Inr (s + x, x = 10)) 0 h l (list_begin l) = Some (Inr (30, h', l'))"
    "represents h' l' qs [20]"
    using fixup_scan_refines_list[OF r _ s, of 2 True] by auto
  with r show ?thesis by blast
qed

text \<open>
  C22. Setting a bit the macros can address succeeds, stays inside the array and adds exactly that
  number to the set the bitmap tests report.
\<close>

theorem bitmap_records_the_registers:
  assumes "bitmap_wf arr bm" and "shiftable bm n" and "shiftable bm k"
  shows "\<exists>arr'. bitmap_set checks arr bm n = Inr arr' \<and> bitmap_wf arr' bm \<and> length arr' = length arr \<and>
    bitmap_is_set checks arr' bm k = Inr (k = n \<or> k \<in> bitmap_elems arr bm)"
proof -
  obtain arr' where "bitmap_set checks arr bm n = Inr arr'" "bitmap_wf arr' bm" "length arr' = length arr"
    "bitmap_elems arr' bm = insert n (bitmap_elems arr bm)"
    using bitmap_set_wf[OF assms(1,2)] by blast
  with bitmap_is_set_wf[of arr' bm k checks] assms(3) show ?thesis by auto
qed

theorem bitmap_records_the_registers_witness:
  "\<exists>arr'. bitmap_set True (replicate 4 0) \<lparr>bm_size = 67, bm_bits = Some 2\<rparr> 65 = Inr arr' \<and>
    bitmap_is_set True arr' \<lparr>bm_size = 67, bm_bits = Some 2\<rparr> 65 = Inr True"
  using bitmap_records_the_registers[of "replicate 4 0" "\<lparr>bm_size = 67, bm_bits = Some 2\<rparr>" 65 65 True]
  by (auto simp: bitmap_wf_def shiftable_def bitmap_words_def STORAGE_TYPE_BITS_def)

text \<open>
  C23. Writing the first bytes of an aarch64 register by its DWARF number changes those bytes of that
  register and no other register.
\<close>

theorem reg_aarch64_write_read:
  assumes "a64_width r = Some n" and "length bs \<le> n"
  shows "\<exists>rs' old. reg_aarch64 rs r = Inr old \<and> length old = n \<and> reg_write_aarch64 rs r bs = Inr rs' \<and>
    reg_aarch64 rs' r = Inr (bs @ drop (length bs) old) \<and> (\<forall>r'. r' \<noteq> r \<longrightarrow> reg_aarch64 rs' r' = reg_aarch64 rs r')"
proof -
  have o: "reg_get regs_aarch64 = reg_aarch64" "reg_put regs_aarch64 = reg_write_aarch64" by (simp_all add: regs_aarch64_def)
  obtain old where old: "reg_aarch64 rs r = Inr old" "length old = n" using a64.get_some[OF assms(1)] unfolding o by blast
  obtain rs' where "reg_write_aarch64 rs r bs = Inr rs'" "reg_aarch64 rs' r = Inr (bs @ drop (length bs) old)"
    using a64_put_some[OF assms old(1)] by blast
  with old a64_put_other show ?thesis by blast
qed

theorem reg_aarch64_write_read_witness:
  "\<exists>rs'. reg_write_aarch64 regset_default_aarch64 72 (replicate 8 1) = Inr rs' \<and>
    reg_aarch64 rs' 72 = Inr (replicate 8 1 @ replicate 8 0)"
proof -
  have w: "a64_width 72 = Some 16" by (simp add: a64_width_def a64_dwarf_def)
  have z: "reg_aarch64 regset_default_aarch64 72 = Inr (replicate 16 0)"
    by code_simp
  show ?thesis using reg_aarch64_write_read[OF w, of "replicate 8 1" regset_default_aarch64] z by auto
qed

section \<open>The user-space front end\<close>

text \<open>
  C24. For a stack pointer inside a stack whose upper half is not empty, the half in use contains the
  stack pointer, the half the new stack is built in is disjoint from it, and the next rewrite
  goes back.
\<close>

theorem rewrite_uses_the_other_half:
  assumes "low b < low b + B_STACK_OFFSET" and "low b + B_STACK_OFFSET < high b"
    and "low b \<le> p" and "p < high b" and "rewrite_halves b p = (cur, new)"
  shows "half_low b cur \<le> p \<and> p < cur \<and> half_low b new < new \<and>
    {half_low b cur..<cur} \<inter> {half_low b new..<new} = {} \<and>
    (\<forall>q. half_low b new \<le> q \<longrightarrow> q < new \<longrightarrow> rewrite_halves b q = (new, cur))"
  using halves_disjoint[OF assms] halves_swap[OF assms(2,5)] by blast

theorem rewrite_uses_the_other_half_witness:
  "rewrite_halves \<lparr>high = 0x7f800000, low = 0x7f000000\<rparr> 0x7f7ff000 = (0x7f800000, 0x7f400000) \<and>
   {0x7f400000..<0x7f800000} \<inter> {0x7f000000..<(0x7f400000 :: u64)} = {}"
proof -
  let ?b = "\<lparr>high = 0x7f800000, low = 0x7f000000\<rparr>"
  have r: "rewrite_halves ?b 0x7f7ff000 = (0x7f800000, 0x7f400000)"
    by (simp add: rewrite_halves_def B_STACK_OFFSET_def)
  show ?thesis using rewrite_uses_the_other_half[OF _ _ _ _ r] r by (simp add: B_STACK_OFFSET_def half_low_def)
qed



section \<open>The stack depth profiler\<close>

text \<open>
  C26. After any sequence of function entries and exits by any threads, the profiler knows the depth of
  every thread (modulo the width of a word), and its record of a function is the summary of all
  entries into it: their number, the sum of their depths, the first deepest one with its caller,
  and how often each caller made them.
\<close>

theorem profile_summarises_the_run:
  "(\<forall>t. stackDepth (run_hooks hs) t = depth_after hs t) \<and> (\<forall>f. funcCalls (run_hooks hs) f = summary (entries_into hs f))"
  using profile_is_summary by blast

section \<open>The OpenMP runtime\<close>

text \<open>
  C27. For a loop whose bounds leave room for one more step in the loop's type, the static schedule
  returns for every thread of the team, and the pieces of the threads, in thread order, are
  the iterations of the loop: none is lost, repeated or moved. The flag for the last iteration
  is set for exactly the thread whose piece contains it.
\<close>

theorem static_schedule_partitions:
  assumes ok: "loop_ok ty (int n) (plower s) (pupper s) incr"
  shows "\<exists>rs. length rs = n \<and>
    (\<forall>t<n. kmpc_for_static_init ty (int n) (int t) kmp_sch_static incr chunk s = Inr (rs ! t)) \<and>
    concat (map (\<lambda>r. loop_iters (plower r) (pupper r) incr) rs) =
      loop_iters (plower s) (pupper s) incr \<and>
    (\<forall>t<n. plastiter s \<noteq> None \<longrightarrow> plastiter (rs ! t) =
      Some (if last (loop_iters (plower s) (pupper s) incr) \<in>
              set (loop_iters (plower (rs ! t)) (pupper (rs ! t)) incr) then 1 else 0))"
proof -
  define tot where "tot = nat (trips (plower s) (pupper s) incr)"
  have tot: "trips (plower s) (pupper s) incr = int tot" "0 < tot"
    using trips_pos [of "plower s" "pupper s" incr] by (simp_all add: tot_def)
  have n: "0 < n" and i: "incr \<noteq> 0" using ok by (simp_all add: loop_ok_def)
  let ?f = "\<lambda>k. plower s + incr * int k"
  let ?P = "\<lambda>t r. kmpc_for_static_init ty (int n) (int t) kmp_sch_static incr chunk s = Inr r \<and>
    loop_iters (plower r) (pupper r) incr =
      map ?f [block_start n tot t..<block_start n tot (Suc t)] \<and>
    plastiter r = map_option (\<lambda>_. if Suc t = min n tot then 1 else 0) (plastiter s)"
  have "\<forall>t<n. \<exists>r. ?P t r" using kmpc_static_piece [OF ok _ tot(1)] by metis
  then obtain g where g: "\<And>t. t < n \<Longrightarrow> ?P t (g t)" by metis
  have all: "loop_iters (plower s) (pupper s) incr = map ?f [0..<tot]"
    using loop_iters_trips [OF ok] by (simp add: tot_def)
  have "map (\<lambda>r. loop_iters (plower r) (pupper r) incr) (map g [0..<n]) =
      map (\<lambda>t. map ?f [block_start n tot t..<block_start n tot (Suc t)]) [0..<n]"
    using g by simp
  then have "concat (map (\<lambda>r. loop_iters (plower r) (pupper r) incr) (map g [0..<n])) =
      map ?f [0..<tot]"
    using concat_blocks [of ?f n tot n] block_start_all [OF n, of tot] by (simp only:)
  moreover have "last (map ?f [0..<tot]) = ?f (tot - 1)" using tot(2) by (simp add: last_map)
  moreover have "?f (tot - 1) \<in> set (loop_iters (plower (g t)) (pupper (g t)) incr) \<longleftrightarrow>
      Suc t = min n tot" if "t < n" for t
  proof -
    have inj: "inj ?f" using i by (auto simp: inj_def)
    show ?thesis
      using g [OF that] block_last [OF that tot(2)]
        inj_image_mem_iff [OF inj, of "tot - 1" "{block_start n tot t..<block_start n tot (Suc t)}"]
      by (simp only: set_map set_upt atLeastLessThan_iff)
  qed
  ultimately show ?thesis
    using g by (intro exI [of _ "map g [0..<n]"]) (auto simp: all)
qed

theorem static_schedule_partitions_witness:
  "\<exists>rs. length rs = 3 \<and>
    (\<forall>t<3. kmpc_for_static_init kmp_4 (int 3) (int t) kmp_sch_static 2 0
       \<lparr>plastiter = Some 0, plower = 10, pupper = 23, pstride = 1\<rparr> = Inr (rs ! t)) \<and>
    concat (map (\<lambda>r. loop_iters (plower r) (pupper r) 2) rs) = [10, 12, 14, 16, 18, 20, 22]"
proof -
  have "loop_ok kmp_4 (int 3) 10 23 2" by (simp add: loop_ok_def fits_def)
  moreover have "loop_iters 10 23 2 = [10, 12, 14, 16, 18, 20, 22]"
    by (simp add: loop_iters.simps)
  ultimately show ?thesis
    using static_schedule_partitions
      [of kmp_4 3 "\<lparr>plastiter = Some 0, plower = 10, pupper = 23, pstride = 1\<rparr>" 2 0]
    by auto
qed

text \<open>
  C28. Under the chunked schedule, the loop nest over the bounds and the stride that a thread
  receives runs exactly the iterations whose chunk number is the thread's number modulo the
  size of the team, in order, and the last-iteration flag is set for the thread that owns the
  last chunk.
\<close>

theorem chunked_schedule_round_robin:
  assumes ok: "chunk_ok ty (int n) (plower s) (pupper s) incr (int c)" and t: "t < n"
  shows "\<exists>r. kmpc_for_static_init ty (int n) (int t) kmp_sch_static_chunked incr (int c) s = Inr r \<and>
    chunk_loop (plower r) (pupper r) (pstride r) incr (pupper s) =
      map (\<lambda>k. loop_iters (plower s) (pupper s) incr ! k)
        (filter (\<lambda>k. k div c mod n = t) [0..<length (loop_iters (plower s) (pupper s) incr)]) \<and>
    (plastiter s \<noteq> None \<longrightarrow> plastiter r = Some (if
       (length (loop_iters (plower s) (pupper s) incr) - 1) div c mod n = t then 1 else 0))"
proof -
  define tot where "tot = nat (trips (plower s) (pupper s) incr)"
  have tot: "trips (plower s) (pupper s) incr = int tot"
    using trips_pos [of "plower s" "pupper s" incr] by (simp add: tot_def)
  have "loop_ok ty (int n) (plower s) (pupper s) incr" using ok by (simp add: chunk_ok_def)
  then have all: "loop_iters (plower s) (pupper s) incr =
      map (\<lambda>k. plower s + incr * int k) [0..<tot]"
    using loop_iters_trips by (simp add: tot_def)
  show ?thesis
    by (rule kmpc_chunked_piece [OF ok t tot]) (auto simp: all intro!: exI cong: map_cong)
qed

theorem chunked_schedule_round_robin_witness:
  "\<exists>r. kmpc_for_static_init kmp_8 (int 2) (int 1) kmp_sch_static_chunked (- 1) (int 2)
       \<lparr>plastiter = Some 0, plower = 9, pupper = 3, pstride = 1\<rparr> = Inr r \<and>
    chunk_loop (plower r) (pupper r) (pstride r) (- 1) 3 = [7, 6, 3]"
proof -
  have ok: "chunk_ok kmp_8 (int 2) 9 3 (- 1) (int 2)"
    by (simp add: chunk_ok_def loop_ok_def fits_def)
  have l: "loop_iters 9 3 (- 1) = [9, 8, 7, 6, 5, 4, 3]" by (simp add: loop_iters.simps)
  have f: "filter (\<lambda>k. k div 2 mod 2 = 1) [0..<7] = [2, 3, 6 :: nat]" by code_simp
  show ?thesis
    using chunked_schedule_round_robin
      [of kmp_8 2 "\<lparr>plastiter = Some 0, plower = 9, pupper = 3, pstride = 1\<rparr>" "- 1" 2 1] ok l f
    by auto
qed

text \<open>
  C29. A barrier initialised for as many threads as use it: after every schedule of the team's
  steps, no thread has returned from its k-th wait before every thread has arrived at its k-th
  wait.
\<close>

theorem barrier_keeps_team_together:
  assumes "0 < n" "n < 2 ^ 32"
  assumes "t \<in> set (tm_threads (run team_step sched (team_init n (int n))))"
    and "u \<in> set (tm_threads (run team_step sched (team_init n (int n))))"
  shows "snd t \<le> arrivals u"
proof -
  have "team_ok (team_init n (int n))" using assms(1,2) by (auto simp: team_ok_def)
  then show ?thesis using team_inv_arrivals [OF barrier.inv_run] assms(3,4) by blast
qed

theorem barrier_keeps_team_together_witness:
  "(B_out, 1) \<in> set (tm_threads (run team_step [0, 0, 1, 1, 1, 1, 1] (team_init 2 (int 2)))) \<and>
   (B_spin 0, 0) \<in> set (tm_threads (run team_step [0, 0, 1, 1, 1, 1, 1] (team_init 2 (int 2)))) \<and>
   snd (B_out, 1 :: nat) \<le> arrivals (B_spin 0, 0)"
proof -
  have "tm_threads (run team_step [0, 0, 1, 1, 1, 1, 1] (team_init 2 (int 2))) =
      [(B_spin 0, 0), (B_out, 1)]"
    by (simp add: team_init_def bomp_barrier_init_def team_step_def returns_def numeral_2_eq_2)
  then show ?thesis
    using barrier_keeps_team_together
      [of 2 "(B_out, 1)" "[0, 0, 1, 1, 1, 1, 1]" "(B_spin 0, 0)"] by simp
qed

text \<open>
  C30. When every thread of the team is inside the barrier, some thread can take a step that brings
  the team closer to leaving it: it is not a turn of the waiting loop, and it reduces a measure
  that no step inside the barrier increases.
\<close>

theorem barrier_never_blocks_a_full_team:
  assumes "0 < n" "n < 2 ^ 32"
  assumes "s = run team_step sched (team_init n (int n))"
  assumes "\<forall>t\<in>set (tm_threads s). inside t"
  shows "\<exists>i<length (tm_threads s). can_move (tm_barrier s) (tm_threads s ! i) \<and>
    team_work (team_step i s) < team_work s"
proof -
  have "team_ok (team_init n (int n))" using assms(1,2) by (auto simp: team_ok_def)
  then have "team_inv s" unfolding assms(3) by (rule barrier.inv_run)
  then obtain t where "t \<in> set (tm_threads s)" "can_move (tm_barrier s) t"
    using team_inv_can_move assms(4) by blast
  then show ?thesis using can_move_work by (auto simp: in_set_conv_nth)
qed

theorem barrier_never_blocks_a_full_team_witness:
  "\<exists>i<length (tm_threads (run team_step [0, 0, 1] (team_init 2 (int 2)))).
     team_work (team_step i (run team_step [0, 0, 1] (team_init 2 (int 2)))) <
     team_work (run team_step [0, 0, 1] (team_init 2 (int 2)))"
proof -
  have "tm_threads (run team_step [0, 0, 1] (team_init 2 (int 2))) = [(B_spin 0, 0), (B_add 0, 0)]"
    by (simp add: team_init_def bomp_barrier_init_def team_step_def returns_def numeral_2_eq_2)
  then have "\<forall>t\<in>set (tm_threads (run team_step [0, 0, 1] (team_init 2 (int 2)))). inside t"
    by (simp add: inside_def)
  then show ?thesis
    using barrier_never_blocks_a_full_team
      [of 2 "run team_step [0, 0, 1] (team_init 2 (int 2))" "[0, 0, 1]"] by fastforce
qed

text \<open>
  C31. For both implementations of the spin lock, no schedule of the instructions of bomp_lock and
  bomp_unlock brings two threads into their critical sections at once.
\<close>

theorem spin_locks_exclude:
  "(xlock_init x \<and> xlock_critical i (run xlock_step sched x) \<and>
      xlock_critical j (run xlock_step sched x) \<longrightarrow> i = j) \<and>
   (alock_init a \<and> alock_critical i (run bomp_lock_aarch64 sched a) \<and>
      alock_critical j (run bomp_lock_aarch64 sched a) \<longrightarrow> i = j)"
  using x86_lock.exclusive_run aarch64_lock.exclusive_run by blast

theorem spin_locks_exclude_witness:
  "xlock_critical 0 (run xlock_step [0, 1, 0, 1, 0, 1]
     \<lparr>xl_lock = 0, xl_pcs = [X_out, X_out]\<rparr>) \<and>
   \<not> xlock_critical 1 (run xlock_step [0, 1, 0, 1, 0, 1]
     \<lparr>xl_lock = 0, xl_pcs = [X_out, X_out]\<rparr>) \<and>
   alock_critical 1 (run bomp_lock_aarch64 [0, 1, 0, 1, 0, 1, 1, 0]
     \<lparr>al_lock = 0, al_threads = [(A_out, False), (A_out, False)]\<rparr>) \<and>
   \<not> alock_critical 0 (run bomp_lock_aarch64 [0, 1, 0, 1, 0, 1, 1, 0]
     \<lparr>al_lock = 0, al_threads = [(A_out, False), (A_out, False)]\<rparr>)"
proof -
  let ?x = "\<lparr>xl_lock = 0, xl_pcs = [X_out, X_out]\<rparr>"
  let ?a = "\<lparr>al_lock = 0, al_threads = [(A_out, False), (A_out, False)]\<rparr>"
  have "xlock_init ?x" "alock_init ?a" by (simp_all add: xlock_init_def alock_init_def)
  moreover have "xlock_critical 0 (run xlock_step [0, 1, 0, 1, 0, 1] ?x)"
    by (simp add: xlock_critical_def xlock_step_def)
  moreover have "alock_critical 1 (run bomp_lock_aarch64 [0, 1, 0, 1, 0, 1, 1, 0] ?a)"
    by (simp add: alock_critical_def bomp_lock_aarch64_def clear_monitor_def)
  ultimately show ?thesis
    using spin_locks_exclude [of ?x 0 "[0, 1, 0, 1, 0, 1]" 1 ?a]
      spin_locks_exclude [of ?x 1 "[0, 1, 0, 1, 0, 1, 1, 0]" 0 ?a] by auto
qed





text \<open>
  C34. From a newly created pool, whatever the master adds and in whatever order the workers take,
  run and finish: when threadpool_destroy returns, it returns success with the pool freed, the
  tasks were taken in the order in which they were accepted, and each accepted task was run to
  its end exactly once.
\<close>

theorem pool_runs_every_task_once:
  assumes "threadpool_create create_ok b (int n) q = (Some p, m)" "0 < n" "0 < q"
  assumes "pool_reachable p s" "sy_master s = M_returned rc freed"
  shows "rc = 0 \<and> freed \<and> sy_taken s = sy_added s \<and> mset (sy_finished s) = mset (sy_added s)"
proof -
  have "fresh_pool n q p" using threadpool_create_freshD [OF assms(1-3)] .
  then show ?thesis
    using system_inv_returned [OF system_inv_reachable] assms(2,4,5) by blast
qed

theorem pool_runs_every_task_once_witness:
  "sy_added ex_returned = [ex_task] \<and> sy_taken ex_returned = sy_added ex_returned \<and>
   mset (sy_finished ex_returned) = mset (sy_added ex_returned)"
proof -
  have "sy_master ex_returned = M_returned 0 True" by (simp add: ex_returned_def)
  moreover have "sy_added ex_returned = [ex_task]" by (simp add: ex_pool_defs)
  ultimately show ?thesis
    using pool_runs_every_task_once [of 1 1 2 ex_pool 2 ex_returned 0 True]
      ex_pool_created ex_reach_returned by simp
qed



text \<open>
  C36. Starting a parallel region outside any other queues one task for each thread but the
  master, numbered from 1 and in order, behind the tasks already queued; ending it restores the
  globals it found, the pool and the discarded thread table apart.
\<close>

theorem parallel_region_round_trip:
  assumes "om_thread_numbers g = 1" "om_nested g = 0" "om_num_threads g \<noteq> 0"
  assumes "om_pool g = Some p" "ring_wf p" "tp_shutdown p = 0"
  assumes "n = region_threads nthreads g" "tp_count p + int (unat n) \<le> tp_queue_size p + 1"
  shows "\<exists>g' p'. GOMP_parallel_start fn data nthreads g = Inr g' \<and> om_pool g' = Some p' \<and>
    om_thread_numbers g' = n \<and>
    ring_items p' = ring_items p @ map (region_task fn data) [1..<unat n] \<and>
    GOMP_parallel_end g' = Inr (g\<lparr>om_pool := Some p', om_tls_array := None\<rparr>)"
  using parallel_region [OF assms(1,2,4,5,6,3,7,8), of fn data] by blast

theorem parallel_region_round_trip_witness:
  "\<exists>p g' p'. om_pool ex_omp = Some p \<and> GOMP_parallel_start 5 6 3 ex_omp = Inr g' \<and>
    om_pool g' = Some p' \<and> ring_items p' = ring_items p @ map (region_task 5 6) [1..<3] \<and>
    GOMP_parallel_end g' = Inr (ex_omp\<lparr>om_pool := Some p', om_tls_array := None\<rparr>)"
proof -
  obtain p where p: "om_pool ex_omp = Some p" "fresh_pool 2 1024 p"
    using ex_omp_sizes by blast
  have u: "unat (3 :: u32) = 3" by simp
  show ?thesis
    using parallel_region_round_trip [of ex_omp p 3 3 5 6] p ex_omp_sizes
    by (auto simp: fresh_pool_def region_threads_def u)
qed

text \<open>
  C37. Reading a file of scheduling statistics returns exactly when the file ends with a newline and
  every line has less than 127 characters, and then it prints the lines that start with one
  of the entries, in order. On any other file the loop never returns.
\<close>

theorem parse_file_returns:
  assumes "pf_opens f" and "\<forall>q. \<not> pf_read_fails f q" and "pf_seekable f"
    and "pf_bytes f = unlines ls @ t" and "NUL \<notin> set (unlines ls @ t)" and "NL \<notin> set t" and "\<forall>l\<in>set ls. NL \<notin> set l"
  shows "parse_file f entries =
    (if t = [] \<and> (\<forall>l\<in>set ls. length l < MAXBUFFER - 1) then Some (Inr (0, matching entries ls)) else None)"
  using assms parse_loop_result[of f "replicate MAXBUFFER NUL" 0 ls t entries "[]"] buffer_ok_init by (simp add: parse_file_def)

theorem parse_file_returns_witness:
  "parse_file \<lparr>pf_opens = True, pf_bytes = unlines [''Name: a'', ''nr_switches : 3''], pf_read_fails = (\<lambda>_. False), pf_seekable = True\<rparr> [''nr_switches''] =
     Some (Inr (0, [''nr_switches : 3''])) \<and>
   dump_status_self \<lparr>pf_opens = True, pf_bytes = ''Name: a'', pf_read_fails = (\<lambda>_. False), pf_seekable = True\<rparr> = None"
proof -
  have "matching [''nr_switches''] [''Name: a'', ''nr_switches : 3''] = [''nr_switches : 3'']" by (simp add: matching_def)
  then show ?thesis
    using parse_file_returns[of "\<lparr>pf_opens = True, pf_bytes = unlines [''Name: a'', ''nr_switches : 3''], pf_read_fails = (\<lambda>_. False), pf_seekable = True\<rparr>"
        "[''Name: a'', ''nr_switches : 3'']" "[]" "[''nr_switches'']"]
      parse_file_returns[of "\<lparr>pf_opens = True, pf_bytes = ''Name: a'', pf_read_fails = (\<lambda>_. False), pf_seekable = True\<rparr>" "[]" "''Name: a''"]
    by (simp add: dump_status_self_def MAXBUFFER_def NUL_def NL_def)
qed

section \<open>Where the code departs from its intent\<close>

text \<open>
  C38. Start-up on a machine with c cores makes a team of c threads (the master and c - 1 workers),
  but initialises the barrier they all wait at for c - 1. There is a schedule in which a thread
  leaves its first wait while another has not arrived at it.
\<close>

theorem initial_barrier_one_short:
  assumes "count_cores cpuinfo = int c" "2 \<le> c" "c < 2 ^ 31"
  shows "\<exists>p sched ts. om_pool (backend_init create_ok cpuinfo g) = Some p \<and>
    omp_get_num_threads (backend_init create_ok cpuinfo g) = int c \<and>
    ts = tm_threads (run team_step sched
      \<lparr>tm_barrier = tp_global_barrier p, tm_threads = replicate c (B_out, 0)\<rparr>) \<and>
    (\<exists>t\<in>set ts. \<exists>u\<in>set ts. snd t = 1 \<and> arrivals u = 0)"
proof -
  obtain n where n: "c = n + 2" using assms(2) by (metis le_add_diff_inverse2)
  obtain p where p: "om_pool (backend_init create_ok cpuinfo g) = Some p"
      "tp_global_barrier p = bomp_barrier_init (int n + 1)"
      "omp_get_num_threads (backend_init create_ok cpuinfo g) = int c"
    using backend_init_sizes [OF assms, of g] n by (auto simp: add.commute)
  let ?ts = "tm_threads (run team_step (early_schedule n)
    \<lparr>tm_barrier = tp_global_barrier p, tm_threads = replicate c (B_out, 0)\<rparr>)"
  have "?ts = replicate n (B_spin 0, 0) @ [(B_out, 1), (B_out, 0)]"
    using early_release [of n] assms(3) by (simp add: team_init_def p(2) n)
  then have "(B_out, 1) \<in> set ?ts" "(B_out, 0) \<in> set ?ts" by auto
  then have "\<exists>t\<in>set ?ts. \<exists>u\<in>set ?ts. snd t = 1 \<and> arrivals u = 0"
    by (intro bexI [of _ "(B_out, 1)"] bexI [of _ "(B_out, 0)"]) (auto simp: arrivals_def)
  with p show ?thesis by blast
qed

theorem initial_barrier_one_short_witness:
  "omp_get_num_threads ex_omp = 3 \<and>
   (\<exists>p sched ts. om_pool ex_omp = Some p \<and>
    ts = tm_threads (run team_step sched
      \<lparr>tm_barrier = tp_global_barrier p, tm_threads = replicate 3 (B_out, 0)\<rparr>) \<and>
    (\<exists>t\<in>set ts. \<exists>u\<in>set ts. snd t = 1 \<and> arrivals u = 0))"
proof -
  have "\<exists>p sched ts. om_pool ex_omp = Some p \<and> omp_get_num_threads ex_omp = int 3 \<and>
      ts = tm_threads (run team_step sched
        \<lparr>tm_barrier = tp_global_barrier p, tm_threads = replicate 3 (B_out, 0)\<rparr>) \<and>
      (\<exists>t\<in>set ts. \<exists>u\<in>set ts. snd t = 1 \<and> arrivals u = 0)"
    unfolding ex_omp_def by (rule initial_barrier_one_short [OF ex_cores]) simp_all
  then show ?thesis by (elim exE conjE) (intro conjI exI, simp_all)
qed



text \<open>
  C40. After a fixup of the frame was resolved, a following fixup that points above the frame makes the
  loop run for ever.
\<close>

theorem fixup_local_pointers_diverges:
  assumes "stack_pointers dest = fx # fx' # rest"
    and "fx_src_addr fx \<le> act_cfa (ACT src)" and "fx_act fx = act src"
    and "local_search checks m src dest fx 0 0 = Inr (Some (m', dest'))"
    and "act_cfa (ACT src) < fx_src_addr fx'"
  shows "fixup_local_pointers checks m src dest = None"
  using assms by (rule fixup_local_pointers_stuck)

theorem fixup_local_pointers_diverges_witness: "fixup_local_pointers True ex_mem ex_alloca_a64 ex_alloca_x86 = None"
proof -
  obtain m' d' where r: "local_search True ex_mem ex_alloca_a64 ex_alloca_x86 (ex_fixup 0x7020 1) 0 0 = Inr (Some (m', d'))"
    using ex_local_search by blast
  show ?thesis by (rule fixup_local_pointers_diverges[OF _ _ _ r, of "ex_fixup 0x7100 1" "[]"]) (simp_all add: ex_fixup_def)
qed

end
